(* ===== verification/Prelude.thy ===== *)
theory Prelude
  imports Main "HOL-Library.Char_ord" "HOL-Library.List_Lexorder" "HOL-Library.Sublist"
begin

text \<open>
  The prelude: how Rust's strings, byte vectors and results are read in the model, and the
  generic lemmas the components share.

  A Rust \<open>String\<close> or \<open>&str\<close> is the list of its UTF-8 bytes, so \<open>len()\<close>, \<open>bytes()\<close> and equality are
  \<open>length\<close>, the list itself and \<open>=\<close>; a \<open>Vec<u8>\<close> is the same list type. Operations of the standard
  library that look at characters (\<open>trim\<close>, \<open>chars\<close>, \<open>from_utf8\<close>) are defined here on the bytes.
  A fallible operation returns \<open>'e + 'a\<close>, the error on the left.
\<close>

named_theorems table_simps \<open>how the table operations act on look-ups\<close>
named_theorems inv_intros \<open>preservation lemmas of the invariants\<close>

type_synonym bytes = string
type_synonym millis = int

section \<open>Bytes and ASCII classes\<close>

abbreviation byte :: "char \<Rightarrow> nat" where
  "byte c \<equiv> of_char c"

definition is_ascii_digit :: "char \<Rightarrow> bool" where
  "is_ascii_digit c = (48 \<le> byte c \<and> byte c \<le> 57)"

definition is_ascii_uppercase :: "char \<Rightarrow> bool" where
  "is_ascii_uppercase c = (65 \<le> byte c \<and> byte c \<le> 90)"

definition is_ascii_lowercase :: "char \<Rightarrow> bool" where
  "is_ascii_lowercase c = (97 \<le> byte c \<and> byte c \<le> 122)"

definition is_ascii_alphanumeric :: "char \<Rightarrow> bool" where
  "is_ascii_alphanumeric c =
     (is_ascii_digit c \<or> is_ascii_uppercase c \<or> is_ascii_lowercase c)"

definition is_ascii_hexdigit :: "char \<Rightarrow> bool" where
  "is_ascii_hexdigit c =
     (is_ascii_digit c \<or> (65 \<le> byte c \<and> byte c \<le> 70) \<or> (97 \<le> byte c \<and> byte c \<le> 102))"

definition ascii_lower :: "char \<Rightarrow> char" where
  "ascii_lower c = (if is_ascii_uppercase c then char_of (byte c + 32) else c)"

definition to_ascii_lowercase :: "string \<Rightarrow> string" where
  "to_ascii_lowercase s = map ascii_lower s"

lemmas ascii_class_defs = is_ascii_digit_def is_ascii_uppercase_def is_ascii_lowercase_def
  is_ascii_alphanumeric_def is_ascii_hexdigit_def

lemma byte_less_256 [simp]: "byte c < 256"
  by (cases c) (simp add: of_char_def horner_sum_simps)

lemma byte_char_of: "n < 256 \<Longrightarrow> byte (char_of n) = n"
  by simp

lemma ascii_lower_idem [simp]: "ascii_lower (ascii_lower c) = ascii_lower c"
  by (auto simp: ascii_lower_def is_ascii_uppercase_def)

lemma to_ascii_lowercase_idem [simp]:
  "to_ascii_lowercase (to_ascii_lowercase s) = to_ascii_lowercase s"
  by (simp add: to_ascii_lowercase_def)

section \<open>Characters and UTF-8\<close>

definition is_cont :: "char \<Rightarrow> bool" where
  "is_cont c = (128 \<le> byte c \<and> byte c < 192)"

text \<open>The characters of a string, each as its own bytes: a lead byte and its continuation bytes.\<close>

function chars :: "string \<Rightarrow> string list" where
  "chars [] = []"
| "chars (c # cs) = (c # takeWhile is_cont cs) # chars (dropWhile is_cont cs)"
  by pat_completeness auto
termination
  by (relation "measure length") (auto simp: le_imp_less_Suc length_dropWhile_le)

text \<open>\<open>String::from_utf8\<close>: the well-formed byte sequences of the Unicode standard.\<close>

fun utf8_valid :: "string \<Rightarrow> bool" where
  "utf8_valid [] = True"
| "utf8_valid (a # r) =
     (if byte a < 128 then utf8_valid r
      else if 194 \<le> byte a \<and> byte a \<le> 223 then
        (case r of b # r' \<Rightarrow> is_cont b \<and> utf8_valid r' | _ \<Rightarrow> False)
      else if 224 \<le> byte a \<and> byte a \<le> 239 then
        (case r of b # c # r' \<Rightarrow>
           (if byte a = 224 then 160 \<le> byte b \<and> byte b < 192
            else if byte a = 237 then 128 \<le> byte b \<and> byte b < 160 else is_cont b)
           \<and> is_cont c \<and> utf8_valid r' | _ \<Rightarrow> False)
      else if 240 \<le> byte a \<and> byte a \<le> 244 then
        (case r of b # c # d # r' \<Rightarrow>
           (if byte a = 240 then 144 \<le> byte b \<and> byte b < 192
            else if byte a = 244 then 128 \<le> byte b \<and> byte b < 144 else is_cont b)
           \<and> is_cont c \<and> is_cont d \<and> utf8_valid r' | _ \<Rightarrow> False)
      else False)"

lemma concat_chars [simp]: "concat (chars s) = s"
  by (induction s rule: chars.induct) simp_all

section \<open>Trimming\<close>

text \<open>The white space of \<open>str::trim\<close> (Unicode White_Space), each character as its UTF-8 bytes.\<close>

definition unicode_ws :: "string list" where
  "unicode_ws = map (map char_of) ([
     [9], [10], [11], [12], [13], [32], [194, 133], [194, 160], [225, 154, 128],
     [226, 128, 168], [226, 128, 169], [226, 128, 175], [226, 129, 159], [227, 128, 128]]
     @ map (\<lambda>k. [226, 128, 128 + k]) [0::nat, 1, 2, 3, 4, 5, 6, 7, 8, 9, 10])"

function strip_prefixes :: "string list \<Rightarrow> string \<Rightarrow> string" where
  "strip_prefixes ws s =
     (case find (\<lambda>w. w \<noteq> [] \<and> prefix w s) ws of
        None \<Rightarrow> s
      | Some w \<Rightarrow> strip_prefixes ws (drop (length w) s))"
  by pat_completeness auto
termination
  by (relation "measure (\<lambda>(ws, s). length s)") (auto simp: find_Some_iff prefix_def)

declare strip_prefixes.simps [simp del]

definition trim_start :: "string \<Rightarrow> string" where
  "trim_start s = strip_prefixes unicode_ws s"

definition trim_end :: "string \<Rightarrow> string" where
  "trim_end s = rev (strip_prefixes (map rev unicode_ws) (rev s))"

definition trim :: "string \<Rightarrow> string" where
  "trim s = trim_end (trim_start s)"

definition no_prefix :: "string list \<Rightarrow> string \<Rightarrow> bool" where
  "no_prefix ws s = (\<forall>w \<in> set ws. w \<noteq> [] \<longrightarrow> \<not> prefix w s)"

lemma strip_prefixes_no_prefix: "no_prefix ws (strip_prefixes ws s)"
proof (induction ws s rule: strip_prefixes.induct)
  case (1 ws s)
  then show ?case
    by (subst strip_prefixes.simps) (auto simp: no_prefix_def find_None_iff split: option.split)
qed

lemma strip_prefixes_id: "no_prefix ws s \<Longrightarrow> strip_prefixes ws s = s"
  by (subst strip_prefixes.simps) (auto simp: no_prefix_def find_Some_iff split: option.split)

lemma strip_prefixes_suffix: "suffix (strip_prefixes ws s) s"
proof (induction ws s rule: strip_prefixes.induct)
  case (1 ws s)
  show ?case
  proof (cases "find (\<lambda>w. w \<noteq> [] \<and> prefix w s) ws")
    case None
    then show ?thesis by (subst strip_prefixes.simps) simp
  next
    case (Some w)
    from "1.IH" [OF Some] have "suffix (strip_prefixes ws (drop (length w) s)) (drop (length w) s)" .
    then have "suffix (strip_prefixes ws (drop (length w) s)) s"
      using suffix_drop suffix_order.trans by blast
    with Some show ?thesis by (subst strip_prefixes.simps) simp
  qed
qed

lemma trim_end_prefix: "prefix (trim_end s) s"
  using strip_prefixes_suffix [of "map rev unicode_ws" "rev s"]
  by (simp add: trim_end_def suffix_to_prefix)

lemma no_prefix_mono: "no_prefix ws s \<Longrightarrow> prefix t s \<Longrightarrow> no_prefix ws t"
  unfolding no_prefix_def using prefix_order.trans by blast

lemma trim_start_fix: "no_prefix unicode_ws s \<Longrightarrow> trim_start s = s"
  by (simp add: trim_start_def strip_prefixes_id)

lemma trim_end_fix [simp]: "trim_end (trim_end s) = trim_end s"
  by (simp add: trim_end_def strip_prefixes_id strip_prefixes_no_prefix)

lemma trim_no_ws_prefix: "no_prefix unicode_ws (trim s)"
  unfolding trim_def trim_start_def
  by (rule no_prefix_mono [OF strip_prefixes_no_prefix trim_end_prefix])

lemma trim_idem [simp]: "trim (trim s) = trim s"
proof -
  have "trim_start (trim s) = trim s"
    by (rule trim_start_fix [OF trim_no_ws_prefix])
  then show ?thesis
    by (simp add: trim_def [of "trim s"]) (simp add: trim_def)
qed

lemma set_trim_subset: "set (trim s) \<subseteq> set s"
proof -
  have "set (trim s) \<subseteq> set (trim_start s)"
    unfolding trim_def by (rule set_mono_prefix [OF trim_end_prefix])
  moreover have "set (trim_start s) \<subseteq> set s"
    unfolding trim_start_def by (rule set_mono_suffix [OF strip_prefixes_suffix])
  ultimately show ?thesis by blast
qed

text \<open>No byte of a white space character is a printable ASCII character.\<close>

definition printable :: "char \<Rightarrow> bool" where
  "printable c = (32 < byte c \<and> byte c < 128)"

lemma ws_not_printable: "w \<in> set unicode_ws \<Longrightarrow> c \<in> set w \<Longrightarrow> \<not> printable c"
proof -
  have "\<forall>w \<in> set unicode_ws. \<forall>c \<in> set w. \<not> printable c"
    by (simp add: unicode_ws_def printable_def)
  then show "w \<in> set unicode_ws \<Longrightarrow> c \<in> set w \<Longrightarrow> \<not> printable c" by blast
qed

lemma printable_start: "printable c \<Longrightarrow> no_prefix unicode_ws (c # r)"
  using ws_not_printable by (auto simp: no_prefix_def prefix_Cons)

lemma printable_end: "printable c \<Longrightarrow> no_prefix (map rev unicode_ws) (c # r)"
  using ws_not_printable by (fastforce simp: no_prefix_def prefix_Cons)

lemma trim_printable:
  assumes "s \<noteq> []" and "printable (hd s)" and "printable (last s)"
  shows "trim s = s"
proof -
  have "trim_start s = s" using printable_start [OF assms(2), of "tl s"] assms(1) by (simp add: trim_start_fix)
  moreover have "no_prefix (map rev unicode_ws) (rev s)"
    using printable_end [OF assms(3), of "tl (rev s)"] assms(1) by (cases "rev s") (auto simp: hd_rev [symmetric])
  then have "trim_end s = s" by (simp add: trim_end_def strip_prefixes_id)
  ultimately show ?thesis by (simp add: trim_def)
qed

section \<open>Signed 64-bit arithmetic\<close>

definition i64_min :: int where "i64_min = - (2 ^ 63)"
definition i64_max :: int where "i64_max = 2 ^ 63 - 1"

definition in_i64 :: "int \<Rightarrow> bool" where
  "in_i64 x = (i64_min \<le> x \<and> x \<le> i64_max)"

text \<open>The value an \<open>i64\<close> operation leaves in a release build: two's complement wrap-around.\<close>

definition wrap_i64 :: "int \<Rightarrow> int" where
  "wrap_i64 x = (x + 2 ^ 63) mod 2 ^ 64 - 2 ^ 63"

definition checked_i64 :: "int \<Rightarrow> int option" where
  "checked_i64 x = (if in_i64 x then Some x else None)"

lemma wrap_i64_id: "in_i64 x \<Longrightarrow> wrap_i64 x = x"
  by (simp add: wrap_i64_def in_i64_def i64_min_def i64_max_def)

lemma wrap_i64_range: "in_i64 (wrap_i64 x)"
  using pos_mod_sign [of "2^64" "x + 2^63"] pos_mod_bound [of "2^64" "x + 2^63"]
  by (simp add: wrap_i64_def in_i64_def i64_min_def i64_max_def)

section \<open>Results, and lists used as tables\<close>

fun res_bind :: "'e + 'a \<Rightarrow> ('a \<Rightarrow> 'e + 'b) \<Rightarrow> 'e + 'b" where
  "res_bind (Inl e) f = Inl e"
| "res_bind (Inr x) f = f x"

lemma res_bind_Inr_iff: "res_bind r f = Inr y \<longleftrightarrow> (\<exists>x. r = Inr x \<and> f x = Inr y)"
  by (cases r) auto

lemma map_replace_proj:
  "(\<And>r. P (f r) = P r) \<Longrightarrow> map P (map (\<lambda>r. if Q r then f r else r) xs) = map P xs"
  by simp

lemma sorted_wrt_snoc: "sorted_wrt R (xs @ [x]) \<longleftrightarrow> sorted_wrt R xs \<and> (\<forall>y \<in> set xs. R y x)"
  by (auto simp: sorted_wrt_append)

lemma sum_list_filter_le:
  "sum_list (map f (filter P xs)) \<le> (sum_list (map f xs) :: nat)"
  by (induction xs) auto

section \<open>Text made by the code\<close>

text \<open>\<open>hex::encode\<close>, and the decimal text of an integer (\<open>{}\<close> in \<open>format!\<close>).\<close>

definition hex_digit :: "nat \<Rightarrow> char" where
  "hex_digit n = ''0123456789abcdef'' ! n"

definition hex_encode :: "bytes \<Rightarrow> string" where
  "hex_encode bs = concat (map (\<lambda>b. [hex_digit (byte b div 16), hex_digit (byte b mod 16)]) bs)"

fun show_nat :: "nat \<Rightarrow> string" where
  "show_nat n = (if n < 10 then [hex_digit n] else show_nat (n div 10) @ [hex_digit (n mod 10)])"

declare show_nat.simps [simp del]

definition show_int :: "int \<Rightarrow> string" where
  "show_int i = (if i < 0 then CHR ''-'' # show_nat (nat (- i)) else show_nat (nat i))"

text \<open>\<open>str::parse\<close> for the integer types: an optional sign, then at least one digit, within the range.\<close>

definition digits_val :: "string \<Rightarrow> nat option" where
  "digits_val s = (if s \<noteq> [] \<and> list_all is_ascii_digit s
     then Some (foldl (\<lambda>a c. 10 * a + (byte c - 48)) 0 s) else None)"

definition parse_u8 :: "string \<Rightarrow> nat option" where
  "parse_u8 s = (case digits_val (if s \<noteq> [] \<and> hd s = CHR ''+'' then tl s else s) of
     Some n \<Rightarrow> if n < 256 then Some n else None
   | None \<Rightarrow> None)"

definition parse_i64 :: "string \<Rightarrow> int option" where
  "parse_i64 s =
     (let neg = (s \<noteq> [] \<and> hd s = CHR ''-''); plus = (s \<noteq> [] \<and> hd s = CHR ''+'') in
      case digits_val (if neg \<or> plus then tl s else s) of
        None \<Rightarrow> None
      | Some n \<Rightarrow> checked_i64 (if neg then - int n else int n))"

lemma length_hex_encode [simp]: "length (hex_encode bs) = 2 * length bs"
  by (induction bs) (auto simp: hex_encode_def)

text \<open>\<open>str::split\<close> at a character, \<open>str::lines\<close> and \<open>eq_ignore_ascii_case\<close>.\<close>

fun split_on :: "char \<Rightarrow> string \<Rightarrow> string list" where
  "split_on c [] = [[]]"
| "split_on c (x # xs) =
     (if x = c then [] # split_on c xs
      else case split_on c xs of [] \<Rightarrow> [[x]] | p # ps \<Rightarrow> (x # p) # ps)"

definition newline :: char where "newline = CHR 0x0A"
definition carriage :: char where "carriage = CHR 0x0D"

definition chomp :: "string \<Rightarrow> string" where
  "chomp l = (if l \<noteq> [] \<and> last l = carriage then butlast l else l)"

definition lines :: "string \<Rightarrow> string list" where
  "lines s = (let ps = split_on newline s
     in if last ps = [] then map chomp (butlast ps) else map chomp (butlast ps) @ [last ps])"

definition eq_ignore_ascii_case :: "string \<Rightarrow> string \<Rightarrow> bool" where
  "eq_ignore_ascii_case a b = (to_ascii_lowercase a = to_ascii_lowercase b)"

lemma split_on_not_Nil [simp]: "split_on c s \<noteq> []"
  by (cases s) (auto split: list.split)

lemma split_on_no_sep: "c \<notin> set s \<Longrightarrow> split_on c s = [s]"
  by (induction s) auto

lemma split_on_append: "c \<notin> set a \<Longrightarrow> split_on c (a @ c # b) = a # split_on c b"
  by (induction a) auto

lemma split_on_sep_free: "p \<in> set (split_on c s) \<Longrightarrow> c \<notin> set p"
  by (induction c s arbitrary: p rule: split_on.induct) (auto split: if_splits list.splits)

text \<open>A fixed text, a newline-free part and the rest determine the parts.\<close>

lemma newline_split:
  "c \<notin> set a \<Longrightarrow> c \<notin> set a' \<Longrightarrow> a @ c # b = a' @ c # b' \<Longrightarrow> a = a' \<and> b = b'"
proof (induction a arbitrary: a')
  case Nil
  then show ?case by (cases a') auto
next
  case (Cons x a)
  then show ?case by (cases a') auto
qed

text \<open>Decimal text reads back as the number.\<close>

lemma hex_digit_decimal: "d < 10 \<Longrightarrow> is_ascii_digit (hex_digit d) \<and> byte (hex_digit d) = 48 + d"
proof -
  assume "d < 10"
  then have "d = 0 \<or> d = 1 \<or> d = 2 \<or> d = 3 \<or> d = 4 \<or> d = 5 \<or> d = 6 \<or> d = 7 \<or> d = 8 \<or> d = 9"
    by arith
  then show ?thesis
    by (elim disjE) (simp_all add: hex_digit_def is_ascii_digit_def)
qed

lemma show_nat_digits: "list_all is_ascii_digit (show_nat n) \<and> show_nat n \<noteq> []"
proof (induction n rule: show_nat.induct)
  case (1 n)
  then show ?case
    by (subst (1 2) show_nat.simps) (simp add: hex_digit_decimal)
qed

lemma digits_val_show_nat [simp]: "digits_val (show_nat n) = Some n"
proof -
  have "foldl (\<lambda>a c. 10 * a + (byte c - 48)) 0 (show_nat n) = n"
  proof (induction n rule: show_nat.induct)
    case (1 n)
    then show ?case
      by (subst show_nat.simps) (simp add: hex_digit_decimal)
  qed
  then show ?thesis using show_nat_digits by (simp add: digits_val_def)
qed

lemma digit_not: "is_ascii_digit c \<Longrightarrow> c \<noteq> CHR ''+'' \<and> c \<noteq> CHR ''-'' \<and> c \<noteq> CHR ''.''"
  by (auto simp: is_ascii_digit_def)

lemma show_nat_hd: "hd (show_nat n) \<noteq> CHR ''+'' \<and> hd (show_nat n) \<noteq> CHR ''-''"
  using show_nat_digits [of n] digit_not by (cases "show_nat n") auto

lemma parse_u8_show [simp]: "n < 256 \<Longrightarrow> parse_u8 (show_nat n) = Some n"
  by (simp add: parse_u8_def show_nat_hd)

lemma show_nat_no_dot: "CHR ''.'' \<notin> set (show_nat n)"
  using show_nat_digits [of n] digit_not by (auto simp: list_all_iff)

section \<open>Sequencing results over lists\<close>

fun traverse :: "('a \<Rightarrow> 'e + 'b) \<Rightarrow> 'a list \<Rightarrow> 'e + 'b list" where
  "traverse f [] = Inr []"
| "traverse f (x # xs) = res_bind (f x) (\<lambda>y. res_bind (traverse f xs) (\<lambda>ys. Inr (y # ys)))"

definition map_err :: "('e \<Rightarrow> 'f) \<Rightarrow> 'e + 'a \<Rightarrow> 'f + 'a" where
  "map_err g r = (case r of Inl e \<Rightarrow> Inl (g e) | Inr x \<Rightarrow> Inr x)"

definition ok_or :: "'e \<Rightarrow> 'a option \<Rightarrow> 'e + 'a" where
  "ok_or e x = (case x of None \<Rightarrow> Inl e | Some y \<Rightarrow> Inr y)"

definition ensure :: "bool \<Rightarrow> 'e \<Rightarrow> 'e + unit" where
  "ensure b e = (if b then Inr () else Inl e)"

lemma ensure_Inr [simp]: "ensure b e = Inr u \<longleftrightarrow> b"
  by (simp add: ensure_def)

lemma ok_or_Inr [simp]: "ok_or e x = Inr y \<longleftrightarrow> x = Some y"
  by (simp add: ok_or_def split: option.split)

lemma map_err_Inr [simp]: "map_err g r = Inr y \<longleftrightarrow> r = Inr y"
  by (simp add: map_err_def split: sum.split)

lemma traverse_Inr: "traverse f xs = Inr ys \<longleftrightarrow> list_all2 (\<lambda>x y. f x = Inr y) xs ys"
  by (induction xs arbitrary: ys) (auto simp: res_bind_Inr_iff list_all2_Cons1)

text \<open>\<open>Path::join\<close> with a relative name.\<close>

definition path_join :: "string \<Rightarrow> string \<Rightarrow> string" where
  "path_join dir name = (if dir = [] \<or> last dir = CHR ''/'' then dir @ name else dir @ ''/'' @ name)"

end
