(* ===== verification/Proto.thy ===== *)
theory Proto
  imports Prelude "HOL-Library.Word"
begin

text \<open>
  The wire protocol (backend/proto/src/lib.rs): limits, user names, access modes, message kinds,
  the two message types and the length-prefixed framing. The JSON text of a message is made by
  serde_json, which is not part of the repository: a serialiser and a parser are arguments of the
  framing functions. A JSON value that the code passes through untouched is its text, \<open>json\<close>.
\<close>

type_synonym json = string

section \<open>Limits and names\<close>

definition PROTOCOL_VERSION :: nat where "PROTOCOL_VERSION = 1"
definition MAX_FRAME :: nat where "MAX_FRAME = 16 * 1024 * 1024"
definition MAX_PAYLOAD :: nat where "MAX_PAYLOAD = 128 * 1024"
definition MAX_RECIPIENTS :: nat where "MAX_RECIPIENTS = 1024"
definition USERNAME_MAX :: nat where "USERNAME_MAX = 16"

definition valid_username :: "string \<Rightarrow> bool" where
  "valid_username name =
     (name \<noteq> [] \<and> length name \<le> USERNAME_MAX \<and> list_all is_ascii_alphanumeric name)"

definition RESERVED_USERNAMES :: "string list" where
  "RESERVED_USERNAMES = [''system'', ''server'']"

definition is_reserved_username :: "string \<Rightarrow> bool" where
  "is_reserved_username name = List.member RESERVED_USERNAMES (to_ascii_lowercase name)"

definition is_registerable_username :: "string \<Rightarrow> bool" where
  "is_registerable_username name = (valid_username name \<and> \<not> is_reserved_username name)"

definition OPEN :: string where "OPEN = ''open''"
definition APPROVAL :: string where "APPROVAL = ''approval''"
definition INVITE_ONLY :: string where "INVITE_ONLY = ''invite_only''"

lemmas access_mode_defs = OPEN_def APPROVAL_def INVITE_ONLY_def

definition access_modes :: "string list" where
  "access_modes = [OPEN, APPROVAL, INVITE_ONLY]"

definition access_mode_valid :: "string \<Rightarrow> bool" where
  "access_mode_valid m = List.member access_modes m"

definition OLM :: string where "OLM = ''olm''"
definition OLM_GROUP_KEY :: string where "OLM_GROUP_KEY = ''olm_group_key''"
definition OLM_SYSTEM :: string where "OLM_SYSTEM = ''olm_system''"
definition MEGOLM :: string where "MEGOLM = ''megolm''"
definition MEGOLM_SYSTEM :: string where "MEGOLM_SYSTEM = ''megolm_system''"
definition GROUP_JOIN :: string where "GROUP_JOIN = ''group_join''"
definition GROUP_JOIN_DENIED :: string where "GROUP_JOIN_DENIED = ''group_join_denied''"
definition GROUP_EVENT :: string where "GROUP_EVENT = ''group_event''"

lemmas msgtype_defs = OLM_def OLM_GROUP_KEY_def OLM_SYSTEM_def MEGOLM_def MEGOLM_SYSTEM_def
  GROUP_JOIN_def GROUP_JOIN_DENIED_def GROUP_EVENT_def

section \<open>Messages\<close>

record one_time_key =
  otk_key_id :: string
  otk_curve25519 :: string

datatype client_msg =
    Register (reg_username: string) (reg_ed25519: string) (reg_curve25519: string)
      (reg_machine_id: string)
  | AuthBegin string
  | AuthFinish string string
  | PublishPrekeys "one_time_key list"
  | FetchPrekeys string
  | AttestRequest string
  | ClientHello string string
  | GetServerInfo
  | SendMsg (snd_to: "string list") (snd_msg_type: string) (snd_payload: string)
      (snd_group_id: "string option") (snd_client_ts: millis)
  | Pull
  | Ping

datatype server_msg =
    Challenge string
  | AuthOk string string
  | PrekeyBundle (pb_username: string) (pb_uuid: string) (pb_ed25519: string)
      (pb_curve25519: string) (pb_otk_id: "string option") (pb_otk: "string option")
  | AttestResponse json
  | ServerInfo string string string string string
  | Deliver (dl_from: string) (dl_to: "string list") (dl_msg_type: string) (dl_payload: string)
      (dl_group_id: "string option") (dl_server_ts: millis) (dl_client_ts: millis)
  | OkMsg "string option"
  | ErrorMsg string string
  | Pong
  | Maintenance string millis "string option"

definition USERNAME_TAKEN :: string where "USERNAME_TAKEN = ''username_taken''"
definition USERNAME_INVALID :: string where "USERNAME_INVALID = ''username_invalid''"
definition USERNAME_RESERVED :: string where "USERNAME_RESERVED = ''username_reserved''"
definition UNOFFICIAL_CLIENT :: string where "UNOFFICIAL_CLIENT = ''unofficial_client''"
definition KEY_ALREADY_REGISTERED :: string where
  "KEY_ALREADY_REGISTERED = ''key_already_registered''"
definition UNKNOWN_USER :: string where "UNKNOWN_USER = ''unknown_user''"
definition NO_PREKEYS :: string where "NO_PREKEYS = ''no_prekeys''"
definition AUTH_FAILED :: string where "AUTH_FAILED = ''auth_failed''"
definition NOT_AUTHENTICATED :: string where "NOT_AUTHENTICATED = ''not_authenticated''"
definition ALREADY_AUTHENTICATED :: string where
  "ALREADY_AUTHENTICATED = ''already_authenticated''"
definition BAD_REQUEST :: string where "BAD_REQUEST = ''bad_request''"
definition INTERNAL :: string where "INTERNAL = ''internal''"

lemmas errcode_defs = USERNAME_TAKEN_def USERNAME_INVALID_def USERNAME_RESERVED_def
  UNOFFICIAL_CLIENT_def KEY_ALREADY_REGISTERED_def UNKNOWN_USER_def NO_PREKEYS_def
  AUTH_FAILED_def NOT_AUTHENTICATED_def ALREADY_AUTHENTICATED_def BAD_REQUEST_def INTERNAL_def

section \<open>Framing\<close>

datatype io_error = InvalidData string | UnexpectedEof string

definition to_be_bytes :: "32 word \<Rightarrow> bytes" where
  "to_be_bytes w = map (\<lambda>k. char_of (unat (take_bit 8 (drop_bit k w)))) [24, 16, 8, 0]"

definition from_be_bytes :: "bytes \<Rightarrow> 32 word" where
  "from_be_bytes bs = foldl (\<lambda>acc b. push_bit 8 acc + word_of_nat (byte b)) 0 bs"

text \<open>The bytes \<open>write_msg\<close> writes, for a serialiser \<open>ser\<close> (None: serde refuses the value).\<close>

definition write_msg :: "('m \<Rightarrow> bytes option) \<Rightarrow> 'm \<Rightarrow> io_error + bytes" where
  "write_msg ser msg =
     (case ser msg of
        None \<Rightarrow> Inl (InvalidData ''serialize'')
      | Some buf \<Rightarrow>
          if length buf > MAX_FRAME then Inl (InvalidData ''frame too large'')
          else Inr (to_be_bytes (word_of_nat (length buf)) @ buf))"

text \<open>
  \<open>read_msg\<close> on the bytes the peer sends before it closes: the result and the bytes left in the
  stream. A frame that is not JSON for the expected type has still been consumed.
\<close>

definition read_msg :: "(bytes \<Rightarrow> 'm option) \<Rightarrow> bytes \<Rightarrow> (io_error + 'm) \<times> bytes" where
  "read_msg de inp =
     (if length inp < 4 then (Inl (UnexpectedEof ''length prefix''), [])
      else
        let len = unat (from_be_bytes (take 4 inp)); r = drop 4 inp
        in if len > MAX_FRAME then (Inl (InvalidData ''frame too large''), r)
           else
             let buf = take len r
             in if length buf \<noteq> len
                then (Inl (UnexpectedEof ''frame body shorter than its length prefix''), [])
                else (case de buf of
                        None \<Rightarrow> (Inl (InvalidData ''deserialize''), drop len r)
                      | Some m \<Rightarrow> (Inr m, drop len r)))"

text \<open>A sender that frames several messages, and a receiver that reads so many.\<close>

fun write_all :: "('m \<Rightarrow> bytes option) \<Rightarrow> 'm list \<Rightarrow> io_error + bytes" where
  "write_all ser [] = Inr []"
| "write_all ser (m # ms) =
     res_bind (write_msg ser m) (\<lambda>b. res_bind (write_all ser ms) (\<lambda>bs. Inr (b @ bs)))"

fun read_n :: "(bytes \<Rightarrow> 'm option) \<Rightarrow> nat \<Rightarrow> bytes \<Rightarrow> (io_error + 'm list) \<times> bytes" where
  "read_n de 0 inp = (Inr [], inp)"
| "read_n de (Suc n) inp =
     (case read_msg de inp of
        (Inl e, r) \<Rightarrow> (Inl e, r)
      | (Inr m, r) \<Rightarrow>
          (case read_n de n r of (Inl e, r') \<Rightarrow> (Inl e, r') | (Inr ms, r') \<Rightarrow> (Inr (m # ms), r')))"

subsection \<open>The length prefix\<close>

lemma length_to_be_bytes [simp]: "length (to_be_bytes w) = 4"
  by (simp add: to_be_bytes_def)

lemma byte_of_word [simp]:
  "word_of_nat (unat (take_bit 8 w) mod 256) = take_bit 8 (w :: 32 word)"
proof -
  have e: "unat (take_bit 8 w) = unat w mod 2 ^ 8"
    by (metis unsigned_take_bit_eq take_bit_eq_mod)
  have "unat (take_bit 8 w) mod 256 = unat (take_bit 8 w)"
    unfolding e by simp
  then show ?thesis by simp
qed

lemma split_byte: "push_bit 8 (drop_bit (k + 8) w) + take_bit 8 (drop_bit k w) = drop_bit k (w :: 32 word)"
  using bits_ident [of 8 "drop_bit k w"] by (simp add: drop_bit_drop_bit add.commute)

lemma drop_24_bound: "take_bit 8 (drop_bit 24 w) = drop_bit 24 (w :: 32 word)"
proof -
  have "take_bit 8 (drop_bit 24 w) = drop_bit 24 (take_bit LENGTH(32) w)"
    by (simp add: take_bit_drop_bit)
  then show ?thesis by (simp only: take_bit_length_eq)
qed

lemma from_to_be_bytes [simp]: "from_be_bytes (to_be_bytes w) = w"
proof -
  have "from_be_bytes (to_be_bytes w) =
      push_bit 8 (push_bit 8 (push_bit 8 (take_bit 8 (drop_bit 24 w)) + take_bit 8 (drop_bit 16 w))
        + take_bit 8 (drop_bit 8 w)) + take_bit 8 w"
    by (simp add: to_be_bytes_def from_be_bytes_def del: take_bit_drop_bit)
  also have "\<dots> = w"
    using split_byte [of 16 w] split_byte [of 8 w] split_byte [of 0 w] by (simp add: drop_24_bound)
  finally show ?thesis .
qed

lemma from_be_bytes_length [simp]:
  "n \<le> MAX_FRAME \<Longrightarrow> unat (from_be_bytes (to_be_bytes (word_of_nat n))) = n"
  by (simp add: unsigned_of_nat take_bit_nat_eq_self_iff MAX_FRAME_def)

subsection \<open>Reading back what was written\<close>

lemma write_msg_Inr:
  "write_msg ser m = Inr w \<longleftrightarrow>
     (\<exists>buf. ser m = Some buf \<and> length buf \<le> MAX_FRAME \<and> w = to_be_bytes (word_of_nat (length buf)) @ buf)"
  by (auto simp: write_msg_def split: option.splits)

lemma read_write_msg:
  assumes "write_msg ser m = Inr w" and "\<And>b. ser m = Some b \<Longrightarrow> de b = Some m"
  shows "read_msg de (w @ rest) = (Inr m, rest)"
proof -
  from assms(1) obtain buf where b: "ser m = Some buf" "length buf \<le> MAX_FRAME"
      "w = to_be_bytes (word_of_nat (length buf)) @ buf"
    by (auto simp: write_msg_Inr)
  from assms(2) [OF b(1)] b(2,3) show ?thesis
    by (simp add: read_msg_def Let_def del: from_to_be_bytes)
qed

lemma read_msg_bounded:
  "read_msg de inp = (r, rest) \<Longrightarrow> length inp \<le> length rest + 4 + MAX_FRAME \<or> rest = []"
  by (auto simp: read_msg_def Let_def split: if_splits option.splits)

text \<open>C33: Framing round trip. Any list of messages a sender frames one after the other is read back
  message by message, in order, with nothing of the following bytes consumed, whenever serde
  parses what it serialised.\<close>

theorem frames_roundtrip:
  assumes "write_all ser ms = Inr w" and "\<And>m b. ser m = Some b \<Longrightarrow> de b = Some m"
  shows "read_n de (length ms) (w @ rest) = (Inr ms, rest)"
  using assms(1)
proof (induction ms arbitrary: w)
  case Nil
  then show ?case by simp
next
  case (Cons m ms)
  then obtain b bs where b: "write_msg ser m = Inr b" "write_all ser ms = Inr bs" "w = b @ bs"
    by (auto simp: res_bind_Inr_iff)
  have "read_msg de (b @ (bs @ rest)) = (Inr m, bs @ rest)"
    by (rule read_write_msg [OF b(1) assms(2)])
  with Cons.IH [OF b(2)] b(3) show ?case by simp
qed

theorem frames_roundtrip_witness:
  "read_n (\<lambda>b. Some (rev b)) 2 ((to_be_bytes 2 @ ''ih'' @ to_be_bytes 1 @ ''x'') @ ''tail'')
   = (Inr [''hi'', ''x''], ''tail'')"
proof -
  have w: "write_all (\<lambda>m. Some (rev m)) [''hi'', ''x''] =
     Inr (to_be_bytes 2 @ ''ih'' @ to_be_bytes 1 @ ''x'')"
    by (simp add: write_msg_def MAX_FRAME_def)
  show ?thesis
    using frames_roundtrip [OF w, of "\<lambda>b. Some (rev b)" "''tail''"] by (auto simp: numeral_2_eq_2)
qed

section \<open>Names and modes\<close>

lemma access_mode_valid_iff:
  "access_mode_valid m \<longleftrightarrow> m = OPEN \<or> m = APPROVAL \<or> m = INVITE_ONLY"
  by (auto simp: access_mode_valid_def access_modes_def)

lemma access_modes_distinct: "distinct access_modes"
  by (simp add: access_modes_def access_mode_defs)

lemma reserved_case_insensitive:
  "to_ascii_lowercase a = to_ascii_lowercase b \<Longrightarrow> is_reserved_username a = is_reserved_username b"
  by (simp add: is_reserved_username_def)

lemma registerable_length: "is_registerable_username u \<Longrightarrow> 0 < length u \<and> length u \<le> 16"
  by (simp add: is_registerable_username_def valid_username_def USERNAME_MAX_def)

end
