(* ===== verification/Interfaces.thy ===== *)
theory Interfaces
  imports Prelude
begin

text \<open>
  The contracts between components, as locales: what a client may rely on of a store, proved once
  over any sequence of operations. Each locale is interpreted, in the theory of the component that
  provides it, on the model's own operations.
\<close>

section \<open>Hand-out of single-use items\<close>

datatype ('u, 'k, 'c) pool_op = PoolTake 'u | PoolPut 'u 'k 'c

fun handouts ::
    "('s \<Rightarrow> 'u \<Rightarrow> 'e + ('k \<times> 'c) option \<times> 's) \<Rightarrow> ('s \<Rightarrow> 'u \<Rightarrow> 'k \<Rightarrow> 'c \<Rightarrow> 'e + 's) \<Rightarrow>
     's \<Rightarrow> ('u, 'k, 'c) pool_op list \<Rightarrow> ('u \<times> 'k) list" where
  "handouts tk pt s [] = []"
| "handouts tk pt s (PoolTake u # ops) =
     (case tk s u of
        Inl e \<Rightarrow> handouts tk pt s ops
      | Inr (None, s') \<Rightarrow> handouts tk pt s' ops
      | Inr (Some (k, c), s') \<Rightarrow> (u, k) # handouts tk pt s' ops)"
| "handouts tk pt s (PoolPut u k c # ops) =
     (case pt s u k c of Inl e \<Rightarrow> handouts tk pt s ops | Inr s' \<Rightarrow> handouts tk pt s' ops)"

locale single_use =
  fixes tk :: "'s \<Rightarrow> 'u \<Rightarrow> 'e + ('k \<times> 'c) option \<times> 's"
    and pt :: "'s \<Rightarrow> 'u \<Rightarrow> 'k \<Rightarrow> 'c \<Rightarrow> 'e + 's"
    and spent :: "'s \<Rightarrow> ('u \<times> 'k) set"
    and ok :: "'s \<Rightarrow> bool"
  assumes take_some: "ok s \<Longrightarrow> tk s u = Inr (Some (k, c), s') \<Longrightarrow>
      (u, k) \<notin> spent s \<and> spent s' = insert (u, k) (spent s)"
    and take_none: "ok s \<Longrightarrow> tk s u = Inr (None, s') \<Longrightarrow> spent s' = spent s"
    and take_ok: "ok s \<Longrightarrow> tk s u = Inr (r, s') \<Longrightarrow> ok s'"
    and put_spent: "ok s \<Longrightarrow> pt s u k c = Inr s' \<Longrightarrow> spent s' = spent s"
    and put_ok: "ok s \<Longrightarrow> pt s u k c = Inr s' \<Longrightarrow> ok s'"
begin

lemma handouts_fresh:
  "ok s \<Longrightarrow> distinct (handouts tk pt s ops) \<and> set (handouts tk pt s ops) \<inter> spent s = {}"
proof (induction ops arbitrary: s)
  case Nil
  then show ?case by simp
next
  case (Cons x ops)
  show ?case
  proof (cases x)
    case (PoolTake u)
    show ?thesis
    proof (cases "tk s u")
      case (Inl e)
      with Cons PoolTake show ?thesis by simp
    next
      case (Inr p)
      obtain r s' where p: "p = (r, s')" by (cases p)
      have ok': "ok s'" using take_ok Cons.prems Inr p by blast
      show ?thesis
      proof (cases r)
        case None
        have "spent s' = spent s" using take_none Cons.prems Inr p None by blast
        with Cons.IH [OF ok'] Inr p None PoolTake show ?thesis by simp
      next
        case (Some kc)
        obtain k c where kc: "kc = (k, c)" by (cases kc)
        have "(u, k) \<notin> spent s \<and> spent s' = insert (u, k) (spent s)"
          using take_some [OF Cons.prems] Inr p Some kc by blast
        with Cons.IH [OF ok'] Inr p Some kc PoolTake show ?thesis by auto
      qed
    qed
  next
    case (PoolPut u k c)
    show ?thesis
    proof (cases "pt s u k c")
      case (Inl e)
      with Cons PoolPut show ?thesis by simp
    next
      case (Inr s')
      have "ok s'" "spent s' = spent s" using put_ok put_spent Cons.prems Inr by blast+
      with Cons.IH [of s'] Inr PoolPut show ?thesis by simp
    qed
  qed
qed

end

section \<open>Queues with a row cap and a byte cap\<close>

fun add_all :: "('s \<Rightarrow> 'r \<Rightarrow> 'f \<Rightarrow> 'e + bool \<times> 's) \<Rightarrow> 's \<Rightarrow> ('r \<times> 'f) list \<Rightarrow> 's" where
  "add_all add s [] = s"
| "add_all add s ((r, f) # xs) =
     (case add s r f of Inl e \<Rightarrow> add_all add s xs | Inr (ok, s') \<Rightarrow> add_all add s' xs)"

locale capped_queue =
  fixes add :: "'s \<Rightarrow> 'r \<Rightarrow> 'f \<Rightarrow> 'e + bool \<times> 's"
    and count :: "'s \<Rightarrow> 'r \<Rightarrow> nat"
    and bulk :: "'s \<Rightarrow> 'r \<Rightarrow> nat"
    and cap_rows :: nat
    and cap_bulk :: nat
  assumes add_true: "add s r f = Inr (True, s') \<Longrightarrow> count s' r \<le> cap_rows \<and> bulk s' r \<le> cap_bulk"
    and add_other: "add s r f = Inr (ok, s') \<Longrightarrow> r' \<noteq> r \<Longrightarrow>
      count s' r' = count s r' \<and> bulk s' r' = bulk s r'"
    and add_false: "add s r f = Inr (False, s') \<Longrightarrow> s' = s"
begin

lemma add_within:
  assumes "\<And>r. count s r \<le> cap_rows \<and> bulk s r \<le> cap_bulk" and "add s r f = Inr (ok, s')"
  shows "count s' q \<le> cap_rows \<and> bulk s' q \<le> cap_bulk"
proof (cases ok)
  case True
  with assms add_true [of s r f s'] add_other [of s r f ok s' q] show ?thesis
    by (cases "q = r") auto
next
  case False
  with assms add_false [of s r f s'] show ?thesis by auto
qed

lemma add_all_within:
  assumes "\<And>r. count s r \<le> cap_rows \<and> bulk s r \<le> cap_bulk"
  shows "count (add_all add s xs) q \<le> cap_rows \<and> bulk (add_all add s xs) q \<le> cap_bulk"
  using assms
proof (induction xs arbitrary: s)
  case Nil
  then show ?case by simp
next
  case (Cons x xs)
  obtain r f where x: "x = (r, f)" by (cases x)
  show ?case
  proof (cases "add s r f")
    case (Inl e)
    with Cons x show ?thesis by simp
  next
    case (Inr p)
    obtain ok s' where p: "p = (ok, s')" by (cases p)
    have "\<And>q. count s' q \<le> cap_rows \<and> bulk s' q \<le> cap_bulk"
      using add_within Cons.prems Inr p by blast
    with Cons.IH Inr p x show ?thesis by simp
  qed
qed

end

section \<open>Bindings that are never replaced\<close>

fun learn_all :: "('s \<Rightarrow> 'u \<Rightarrow> 'x \<Rightarrow> 'e + 's) \<Rightarrow> 's \<Rightarrow> ('u \<times> 'x) list \<Rightarrow> 's" where
  "learn_all learn s [] = s"
| "learn_all learn s ((u, x) # xs) =
     (case learn s u x of Inl e \<Rightarrow> learn_all learn s xs | Inr s' \<Rightarrow> learn_all learn s' xs)"

locale pinned =
  fixes learn :: "'s \<Rightarrow> 'u \<Rightarrow> 'x \<Rightarrow> 'e + 's"
    and pin :: "'s \<Rightarrow> 'u \<Rightarrow> 'k option"
    and binding :: "'k \<Rightarrow> bool"
  assumes learn_pin: "pin s u = Some k \<Longrightarrow> binding k \<Longrightarrow> learn s v x = Inr s' \<Longrightarrow> pin s' u = Some k"
begin

lemma learn_all_pin:
  "pin s u = Some k \<Longrightarrow> binding k \<Longrightarrow> pin (learn_all learn s xs) u = Some k"
proof (induction xs arbitrary: s)
  case Nil
  then show ?case by simp
next
  case (Cons x xs)
  then show ?case by (cases x) (auto split: sum.split dest: learn_pin)
qed

end

section \<open>High-water marks\<close>

fun accepted :: "('s \<Rightarrow> 'k \<Rightarrow> int \<Rightarrow> 'e + bool \<times> 's) \<Rightarrow> 's \<Rightarrow> ('k \<times> int) list \<Rightarrow> ('k \<times> int) list" where
  "accepted acc s [] = []"
| "accepted acc s ((k, i) # xs) =
     (case acc s k i of
        Inl e \<Rightarrow> accepted acc s xs
      | Inr (True, s') \<Rightarrow> (k, i) # accepted acc s' xs
      | Inr (False, s') \<Rightarrow> accepted acc s' xs)"

locale high_water =
  fixes acc :: "'s \<Rightarrow> 'k \<Rightarrow> int \<Rightarrow> 'e + bool \<times> 's"
    and mark :: "'s \<Rightarrow> 'k \<Rightarrow> int option"
  assumes accept_true: "acc s k i = Inr (True, s') \<Longrightarrow>
      (\<forall>m. mark s k = Some m \<longrightarrow> m < i) \<and> mark s' = (mark s)(k \<mapsto> i)"
    and accept_false: "acc s k i = Inr (False, s') \<Longrightarrow> s' = s \<and> (\<exists>m. mark s k = Some m \<and> i \<le> m)"
begin

definition above :: "'s \<Rightarrow> 'k \<Rightarrow> int \<Rightarrow> bool" where
  "above s k i = (\<forall>m. mark s k = Some m \<longrightarrow> m < i)"

lemma accept_step:
  "acc s k i = Inr (True, s') \<Longrightarrow> above s k i \<and> (above s' q j \<longleftrightarrow> (if q = k then i < j else above s q j))"
  using accept_true [of s k i s'] by (auto simp: above_def)

lemma accepted_above: "(k, i) \<in> set (accepted acc s xs) \<Longrightarrow> above s k i"
proof (induction xs arbitrary: s)
  case Nil
  then show ?case by simp
next
  case (Cons x xs)
  obtain q j where x: "x = (q, j)" by (cases x)
  from Cons.prems x consider
      (err) e where "acc s q j = Inl e" "(k, i) \<in> set (accepted acc s xs)"
    | (no) s' where "acc s q j = Inr (False, s')" "(k, i) \<in> set (accepted acc s' xs)"
    | (yes) s' where "acc s q j = Inr (True, s')" "(k, i) = (q, j) \<or> (k, i) \<in> set (accepted acc s' xs)"
    by (auto split: sum.splits bool.splits)
  then show ?case
  proof cases
    case err
    from Cons.IH [OF err(2)] show ?thesis .
  next
    case no
    then show ?thesis using Cons.IH accept_false by blast
  next
    case yes
    have "above s q j" and m: "mark s' = (mark s)(q \<mapsto> j)"
      and lt: "\<And>m. mark s q = Some m \<Longrightarrow> m < j"
      using accept_true [OF yes(1)] by (auto simp: above_def)
    from yes(2) show ?thesis
    proof
      assume "(k, i) = (q, j)"
      with \<open>above s q j\<close> show ?thesis by simp
    next
      assume "(k, i) \<in> set (accepted acc s' xs)"
      then have "above s' k i" by (rule Cons.IH)
      with m lt show ?thesis by (cases "k = q") (auto simp: above_def dest: less_trans)
    qed
  qed
qed

lemma accepted_increasing:
  "sorted_wrt (\<lambda>(k, i) (k', j). k = k' \<longrightarrow> i < j) (accepted acc s xs)"
proof (induction xs arbitrary: s)
  case Nil
  then show ?case by simp
next
  case (Cons x xs)
  obtain q j where x: "x = (q, j)" by (cases x)
  show ?case
  proof (cases "acc s q j")
    case (Inl e)
    with Cons x show ?thesis by simp
  next
    case (Inr p)
    obtain b s' where p: "p = (b, s')" by (cases p)
    show ?thesis
    proof (cases b)
      case True
      have "j < i" if "(q, i) \<in> set (accepted acc s' xs)" for i
        using accepted_above [OF that] accept_step [of s q j s' q i] Inr p True by simp
      with Cons.IH [of s'] x Inr p True show ?thesis by auto
    next
      case False
      with Cons.IH [of s'] x Inr p show ?thesis by simp
    qed
  qed
qed

end

end
