(* ===== verification/Server_Db.thy ===== *)
theory Server_Db
  imports Proto Interfaces
begin

text \<open>
  The relay's storage (backend/server/src/db.rs): the three SQLite tables as row lists, one
  definition per helper. A helper returns \<open>Inl\<close> where SQLite reports an error: \<open>SqlIo\<close> while the
  database is unusable (\<open>db_up\<close> is False), \<open>Constraint\<close> where a UNIQUE or PRIMARY KEY rule refuses
  the row. Row ids come from AUTOINCREMENT counters.
\<close>

section \<open>Tables\<close>

datatype sql_error = Constraint | SqlIo

record user_record =
  ur_uuid :: string
  ur_username :: string
  ur_ed25519 :: string
  ur_curve25519 :: string

record user_row =
  u_uuid :: string
  u_username :: string
  u_ed25519 :: string
  u_curve25519 :: string
  u_machine_id :: string
  u_is_premium :: int
  u_created_ts :: millis

record prekey_row =
  pk_id :: nat
  pk_username :: string
  pk_key_id :: string
  pk_curve25519 :: string
  pk_used :: bool

record outbox_row =
  ob_id :: nat
  ob_recipient :: string
  ob_frame :: string
  ob_ts :: millis

record db =
  users :: "user_row list"
  prekeys :: "prekey_row list"
  outbox :: "outbox_row list"
  prekey_seq :: nat
  outbox_seq :: nat
  db_up :: bool

definition query :: "db \<Rightarrow> 'a \<Rightarrow> sql_error + 'a" where
  "query c x = (if db_up c then Inr x else Inl SqlIo)"

definition empty_db :: db where
  "empty_db = \<lparr>users = [], prekeys = [], outbox = [], prekey_seq = 0, outbox_seq = 0, db_up = True\<rparr>"

abbreviation pk_ident :: "prekey_row \<Rightarrow> string \<times> string" where
  "pk_ident p \<equiv> (pk_username p, pk_key_id p)"

text \<open>
  \<open>init_schema\<close> on an existing file: the tables stay, and of the prekey rows that share a
  \<open>(username, key_id)\<close> only the one with the least id is kept, before the unique index is made.
\<close>

definition init_schema :: "db \<Rightarrow> sql_error + db" where
  "init_schema c = query c (c\<lparr>prekeys := filter (\<lambda>p. \<forall>q \<in> set (prekeys c).
       pk_ident q = pk_ident p \<longrightarrow> pk_id p \<le> pk_id q) (prekeys c)\<rparr>)"

section \<open>Directory\<close>

definition username_exists :: "db \<Rightarrow> string \<Rightarrow> sql_error + bool" where
  "username_exists c name =
     query c (0 < length (filter (\<lambda>r. u_username r = name) (users c)))"

definition key_exists :: "db \<Rightarrow> string \<Rightarrow> sql_error + bool" where
  "key_exists c ed = query c (0 < length (filter (\<lambda>r. u_ed25519 r = ed) (users c)))"

definition insert_user ::
    "db \<Rightarrow> string \<Rightarrow> string \<Rightarrow> string \<Rightarrow> string \<Rightarrow> string \<Rightarrow> millis \<Rightarrow> sql_error + db" where
  "insert_user c uuid name ed curve machine ts =
     (if \<not> db_up c then Inl SqlIo
      else if \<exists>r \<in> set (users c). u_uuid r = uuid \<or> u_username r = name \<or> u_ed25519 r = ed
           then Inl Constraint
      else Inr (c\<lparr>users := users c @ [\<lparr>u_uuid = uuid, u_username = name, u_ed25519 = ed,
             u_curve25519 = curve, u_machine_id = machine, u_is_premium = 0,
             u_created_ts = ts\<rparr>]\<rparr>))"

definition lookup_user :: "db \<Rightarrow> string \<Rightarrow> sql_error + user_record option" where
  "lookup_user c name =
     query c (case find (\<lambda>r. u_username r = name) (users c) of
                None \<Rightarrow> None
              | Some r \<Rightarrow> Some \<lparr>ur_uuid = u_uuid r, ur_username = u_username r,
                               ur_ed25519 = u_ed25519 r, ur_curve25519 = u_curve25519 r\<rparr>)"

section \<open>One-time prekeys\<close>

definition insert_prekey :: "db \<Rightarrow> string \<Rightarrow> string \<Rightarrow> string \<Rightarrow> sql_error + db" where
  "insert_prekey c name key_id curve =
     query c (if \<exists>p \<in> set (prekeys c). pk_ident p = (name, key_id) then c
              else c\<lparr>prekeys := prekeys c @ [\<lparr>pk_id = Suc (prekey_seq c), pk_username = name,
                       pk_key_id = key_id, pk_curve25519 = curve, pk_used = False\<rparr>],
                     prekey_seq := Suc (prekey_seq c)\<rparr>)"

definition unused_of :: "db \<Rightarrow> string \<Rightarrow> prekey_row list" where
  "unused_of c name = filter (\<lambda>p. pk_username p = name \<and> \<not> pk_used p) (prekeys c)"

definition count_unused_prekeys :: "db \<Rightarrow> string \<Rightarrow> sql_error + nat" where
  "count_unused_prekeys c name = query c (length (unused_of c name))"

definition mark_used :: "nat \<Rightarrow> prekey_row list \<Rightarrow> prekey_row list" where
  "mark_used i ps = map (\<lambda>p. if pk_id p = i then p\<lparr>pk_used := True\<rparr> else p) ps"

definition take_prekey :: "db \<Rightarrow> string \<Rightarrow> sql_error + (string \<times> string) option \<times> db" where
  "take_prekey c name =
     (if \<not> db_up c then Inl SqlIo
      else case sort_key pk_id (unused_of c name) of
             [] \<Rightarrow> Inr (None, c)
           | p # _ \<Rightarrow> Inr (Some (pk_key_id p, pk_curve25519 p),
                          c\<lparr>prekeys := mark_used (pk_id p) (prekeys c)\<rparr>))"

definition fetch_bundle ::
    "db \<Rightarrow> string \<Rightarrow> sql_error + (user_record \<times> (string \<times> string) option) option \<times> db" where
  "fetch_bundle c name =
     res_bind (lookup_user c name) (\<lambda>r.
       case r of
         None \<Rightarrow> Inr (None, c)
       | Some rec \<Rightarrow> res_bind (take_prekey c name) (\<lambda>(otk, c'). Inr (Some (rec, otk), c')))"

section \<open>Outbox\<close>

text \<open>SQLite's \<open>length\<close> of a TEXT value: its characters before the first NUL.\<close>

definition sqlite_length :: "string \<Rightarrow> nat" where
  "sqlite_length s = length (filter (\<lambda>b. \<not> is_cont b) (takeWhile (\<lambda>b. b \<noteq> CHR 0x00) s))"

definition rows_of :: "db \<Rightarrow> string \<Rightarrow> outbox_row list" where
  "rows_of c r = filter (\<lambda>x. ob_recipient x = r) (outbox c)"

definition outbox_count :: "db \<Rightarrow> string \<Rightarrow> sql_error + nat" where
  "outbox_count c r = query c (length (rows_of c r))"

definition outbox_bytes :: "db \<Rightarrow> string \<Rightarrow> sql_error + nat" where
  "outbox_bytes c r = query c (sum_list (map (\<lambda>x. sqlite_length (ob_frame x)) (rows_of c r)))"

definition enqueue :: "db \<Rightarrow> string \<Rightarrow> string \<Rightarrow> millis \<Rightarrow> sql_error + db" where
  "enqueue c r frame ts =
     query c (c\<lparr>outbox := outbox c @ [\<lparr>ob_id = Suc (outbox_seq c), ob_recipient = r,
                  ob_frame = frame, ob_ts = ts\<rparr>], outbox_seq := Suc (outbox_seq c)\<rparr>)"

definition enqueue_if_under_cap ::
    "db \<Rightarrow> string \<Rightarrow> string \<Rightarrow> millis \<Rightarrow> nat \<Rightarrow> nat \<Rightarrow> sql_error + bool \<times> db" where
  "enqueue_if_under_cap c r frame ts cap_rows cap_bytes =
     res_bind (outbox_count c r) (\<lambda>n.
       if n \<ge> cap_rows then Inr (False, c)
       else res_bind (outbox_bytes c r) (\<lambda>b.
         if b + length frame > cap_bytes then Inr (False, c)
         else res_bind (enqueue c r frame ts) (\<lambda>c'. Inr (True, c'))))"

definition pending_frames :: "db \<Rightarrow> string \<Rightarrow> sql_error + (nat \<times> string) list" where
  "pending_frames c r = query c (map (\<lambda>x. (ob_id x, ob_frame x)) (sort_key ob_id (rows_of c r)))"

definition prune_expired :: "db \<Rightarrow> millis \<Rightarrow> sql_error + nat \<times> db" where
  "prune_expired c cutoff =
     query c (length (filter (\<lambda>x. ob_ts x < cutoff) (outbox c)),
              c\<lparr>outbox := filter (\<lambda>x. \<not> ob_ts x < cutoff) (outbox c)\<rparr>)"

definition delete_frames :: "db \<Rightarrow> nat list \<Rightarrow> sql_error + db" where
  "delete_frames c ids = query c (c\<lparr>outbox := filter (\<lambda>x. ob_id x \<notin> set ids) (outbox c)\<rparr>)"

section \<open>Invariant\<close>

text \<open>
  Unique uuids, names and identity keys; at most one prekey row per user and key id; ids in
  insertion order and below the counters.
\<close>

definition db_inv :: "db \<Rightarrow> bool" where
  "db_inv c \<longleftrightarrow>
     distinct (map u_uuid (users c)) \<and> distinct (map u_username (users c)) \<and>
     distinct (map u_ed25519 (users c)) \<and>
     distinct (map pk_ident (prekeys c)) \<and>
     sorted_wrt (<) (map pk_id (prekeys c)) \<and> (\<forall>p \<in> set (prekeys c). pk_id p \<le> prekey_seq c) \<and>
     sorted_wrt (<) (map ob_id (outbox c)) \<and> (\<forall>x \<in> set (outbox c). ob_id x \<le> outbox_seq c)"

named_theorems db_defs \<open>definitions of the storage helpers\<close>

declare query_def [db_defs] username_exists_def [db_defs] key_exists_def [db_defs]
  insert_user_def [db_defs] lookup_user_def [db_defs] insert_prekey_def [db_defs]
  count_unused_prekeys_def [db_defs] take_prekey_def [db_defs] fetch_bundle_def [db_defs]
  outbox_count_def [db_defs] outbox_bytes_def [db_defs] enqueue_def [db_defs]
  enqueue_if_under_cap_def [db_defs] pending_frames_def [db_defs] prune_expired_def [db_defs]
  delete_frames_def [db_defs] init_schema_def [db_defs]

lemma empty_db_inv [simp]: "db_inv empty_db"
  by (simp add: db_inv_def empty_db_def)

lemma mark_used_map [simp]:
  "map pk_id (mark_used i ps) = map pk_id ps"
  "map pk_username (mark_used i ps) = map pk_username ps"
  "map pk_key_id (mark_used i ps) = map pk_key_id ps"
  by (simp_all add: mark_used_def)

lemma mark_used_ident [simp]: "map pk_ident (mark_used i ps) = map pk_ident ps"
  by (simp add: mark_used_def)

lemma mark_used_ids [simp]: "pk_id ` set (mark_used i ps) = pk_id ` set ps"
  by (metis mark_used_map(1) list.set_map)

lemma mark_used_le:
  "(\<forall>p \<in> set (mark_used i ps). pk_id p \<le> n) \<longleftrightarrow> (\<forall>p \<in> set ps. pk_id p \<le> n)"
  by (metis (no_types, opaque_lifting) mark_used_ids image_iff)

lemma sorted_wrt_less_map_filter:
  "sorted_wrt (<) (map f xs) \<Longrightarrow> sorted_wrt (<) (map f (filter P xs))"
  for f :: "'a \<Rightarrow> nat"
  by (induction xs) auto

lemma sort_key_sorted [simp]:
  "sorted_wrt (<) (map f xs) \<Longrightarrow> sort_key f xs = xs"
  for f :: "'a \<Rightarrow> nat"
  by (induction xs) (auto simp: insort_is_Cons less_imp_le)

lemma insert_user_inv [inv_intros]:
  "db_inv c \<Longrightarrow> insert_user c i n e cv m ts = Inr c' \<Longrightarrow> db_inv c'"
  by (auto simp: db_inv_def insert_user_def split: if_splits)

lemma insert_prekey_inv [inv_intros]:
  "db_inv c \<Longrightarrow> insert_prekey c n k cv = Inr c' \<Longrightarrow> db_inv c'"
  by (fastforce simp: db_inv_def insert_prekey_def query_def sorted_wrt_append le_imp_less_Suc
      intro: le_SucI split: if_splits)

lemma mark_used_inv: "db_inv c \<Longrightarrow> db_inv (c\<lparr>prekeys := mark_used i (prekeys c)\<rparr>)"
  by (simp add: db_inv_def mark_used_le)

lemma take_prekey_inv [inv_intros]:
  "db_inv c \<Longrightarrow> take_prekey c n = Inr (r, c') \<Longrightarrow> db_inv c'"
  by (auto simp: take_prekey_def mark_used_inv split: if_splits list.splits)

lemma fetch_bundle_inv [inv_intros]:
  "db_inv c \<Longrightarrow> fetch_bundle c n = Inr (r, c') \<Longrightarrow> db_inv c'"
  by (auto simp: fetch_bundle_def res_bind_Inr_iff take_prekey_inv split: option.splits prod.splits)

lemma enqueue_inv [inv_intros]: "db_inv c \<Longrightarrow> enqueue c r f ts = Inr c' \<Longrightarrow> db_inv c'"
  by (fastforce simp: db_inv_def enqueue_def query_def sorted_wrt_append le_imp_less_Suc
      intro: le_SucI split: if_splits)

lemma enqueue_if_under_cap_inv [inv_intros]:
  "db_inv c \<Longrightarrow> enqueue_if_under_cap c r f ts a b = Inr (ok, c') \<Longrightarrow> db_inv c'"
  by (auto simp: enqueue_if_under_cap_def res_bind_Inr_iff enqueue_inv split: if_splits)

lemma prune_expired_inv [inv_intros]: "db_inv c \<Longrightarrow> prune_expired c t = Inr (n, c') \<Longrightarrow> db_inv c'"
  by (auto simp: db_inv_def prune_expired_def query_def sorted_wrt_less_map_filter split: if_splits)

lemma delete_frames_inv [inv_intros]: "db_inv c \<Longrightarrow> delete_frames c ids = Inr c' \<Longrightarrow> db_inv c'"
  by (auto simp: db_inv_def delete_frames_def query_def sorted_wrt_less_map_filter split: if_splits)

section \<open>Prekeys are handed out once\<close>

definition spent_prekeys :: "db \<Rightarrow> (string \<times> string) set" where
  "spent_prekeys c = pk_ident ` {p \<in> set (prekeys c). pk_used p}"

lemma take_prekey_Some:
  assumes "db_inv c" and "take_prekey c u = Inr (Some (k, cv), c')"
  obtains p where "p \<in> set (prekeys c)" "pk_username p = u" "\<not> pk_used p" "k = pk_key_id p"
    "cv = pk_curve25519 p" "c' = c\<lparr>prekeys := mark_used (pk_id p) (prekeys c)\<rparr>" "db_up c"
    "unused_of c u = p # tl (unused_of c u)"
proof -
  have s: "sort_key pk_id (unused_of c u) = unused_of c u"
    using assms(1) by (simp add: db_inv_def unused_of_def sorted_wrt_less_map_filter)
  from assms(2) obtain p ps where p: "unused_of c u = p # ps" "k = pk_key_id p"
      "cv = pk_curve25519 p" "c' = c\<lparr>prekeys := mark_used (pk_id p) (prekeys c)\<rparr>" "db_up c"
    by (auto simp: take_prekey_def s split: if_splits list.splits)
  then have "p \<in> set (unused_of c u)" by simp
  then have "p \<in> set (prekeys c)" "pk_username p = u" "\<not> pk_used p" by (auto simp: unused_of_def)
  with p that show thesis by simp
qed

lemma pk_id_unique:
  "db_inv c \<Longrightarrow> p \<in> set (prekeys c) \<Longrightarrow> q \<in> set (prekeys c) \<Longrightarrow> pk_id p = pk_id q \<Longrightarrow> p = q"
  by (auto simp: db_inv_def strict_sorted_iff distinct_map dest: inj_onD)

lemma pk_ident_unique:
  "db_inv c \<Longrightarrow> p \<in> set (prekeys c) \<Longrightarrow> q \<in> set (prekeys c) \<Longrightarrow> pk_ident p = pk_ident q \<Longrightarrow> p = q"
  unfolding db_inv_def distinct_map by (blast dest: inj_onD)

lemma spent_take:
  assumes "db_inv c" and "take_prekey c u = Inr (Some (k, cv), c')"
  shows "(u, k) \<notin> spent_prekeys c \<and> spent_prekeys c' = insert (u, k) (spent_prekeys c)"
proof -
  from take_prekey_Some [OF assms] obtain p where p: "p \<in> set (prekeys c)" "pk_username p = u"
      "\<not> pk_used p" "k = pk_key_id p" "c' = c\<lparr>prekeys := mark_used (pk_id p) (prekeys c)\<rparr>"
    by metis
  have "(u, k) \<notin> spent_prekeys c"
    using pk_ident_unique [OF assms(1) p(1)] p by (auto simp: spent_prekeys_def)
  moreover have "{q \<in> set (prekeys c'). pk_used q} =
      insert (p\<lparr>pk_used := True\<rparr>) {q \<in> set (prekeys c). pk_used q}"
  proof -
    have "pk_id q = pk_id p \<longleftrightarrow> q = p" if "q \<in> set (prekeys c)" for q
      using pk_id_unique [OF assms(1) p(1) that] by auto
    then have "set (prekeys c') = insert (p\<lparr>pk_used := True\<rparr>) (set (prekeys c) - {p})"
      using p by (auto simp: mark_used_def)
    then show ?thesis using p(3) by auto
  qed
  ultimately show ?thesis using p by (simp add: spent_prekeys_def)
qed

lemma take_prekey_None: "take_prekey c u = Inr (None, c') \<Longrightarrow> c' = c"
  by (auto simp: take_prekey_def split: if_splits list.splits)

lemma spent_insert_prekey:
  "insert_prekey c u k cv = Inr c' \<Longrightarrow> spent_prekeys c' = spent_prekeys c"
  by (auto simp: insert_prekey_def query_def spent_prekeys_def split: if_splits)

interpretation prekey_pool: single_use take_prekey insert_prekey spent_prekeys db_inv
  by unfold_locales
    (use spent_take take_prekey_None take_prekey_inv spent_insert_prekey insert_prekey_inv
      in \<open>blast | metis\<close>)+

text \<open>C7: A one-time prekey is handed out at most once. Over any sequence of uploads and fetches by any
  users, re-uploads of a consumed key id included, the pairs of user and key id that
  \<open>take_prekey\<close> returns are distinct, and none of them had been handed out before.\<close>

theorem prekeys_handed_out_once:
  assumes "db_inv c"
  shows "distinct (handouts take_prekey insert_prekey c ops)
    \<and> set (handouts take_prekey insert_prekey c ops) \<inter> spent_prekeys c = {}"
  by (rule prekey_pool.handouts_fresh [OF assms])

theorem prekeys_handed_out_once_witness:
  "distinct (handouts take_prekey insert_prekey empty_db
     [PoolPut ''bob'' ''k'' ''c'', PoolTake ''bob'', PoolPut ''bob'' ''k'' ''c'', PoolTake ''bob''])"
  using prekeys_handed_out_once [OF empty_db_inv] by blast

section \<open>Outbox caps\<close>

definition chars_queued :: "db \<Rightarrow> string \<Rightarrow> nat" where
  "chars_queued c r = sum_list (map (\<lambda>x. sqlite_length (ob_frame x)) (rows_of c r))"

definition bytes_queued :: "db \<Rightarrow> string \<Rightarrow> nat" where
  "bytes_queued c r = sum_list (map (\<lambda>x. length (ob_frame x)) (rows_of c r))"

lemma sqlite_length_le: "sqlite_length s \<le> length s"
  unfolding sqlite_length_def
  by (rule order_trans [OF length_filter_le length_takeWhile_le])

lemma outbox_bytes_Inr: "outbox_bytes c r = Inr n \<longleftrightarrow> db_up c \<and> n = chars_queued c r"
  by (auto simp: outbox_bytes_def query_def chars_queued_def)

lemma outbox_count_Inr: "outbox_count c r = Inr n \<longleftrightarrow> db_up c \<and> n = length (rows_of c r)"
  by (auto simp: outbox_count_def query_def)

lemma rows_of_enqueue:
  "enqueue c r f ts = Inr c' \<Longrightarrow> rows_of c' q =
     rows_of c q @ (if q = r then [\<lparr>ob_id = Suc (outbox_seq c), ob_recipient = r, ob_frame = f,
                                    ob_ts = ts\<rparr>] else [])"
  by (auto simp: enqueue_def query_def rows_of_def split: if_splits)

lemma enqueue_if_under_cap_Inr:
  "enqueue_if_under_cap c r f ts cr cb = Inr (ok, c') \<longleftrightarrow>
     db_up c \<and>
     (if length (rows_of c r) < cr \<and> chars_queued c r + length f \<le> cb
      then ok \<and> enqueue c r f ts = Inr c' else \<not> ok \<and> c' = c)"
  by (auto simp: enqueue_if_under_cap_def res_bind_Inr_iff outbox_bytes_Inr outbox_count_Inr
      split: if_splits)

abbreviation enqueue_capped where
  "enqueue_capped cr cb \<equiv> \<lambda>c r (f, ts). enqueue_if_under_cap c r f ts cr cb"

interpretation outbox_queue: capped_queue "enqueue_capped cr cb" "\<lambda>c r. length (rows_of c r)"
    chars_queued cr cb for cr cb
proof unfold_locales
  fix c c' r f
  assume "enqueue_capped cr cb c r f = Inr (True, c')"
  then show "length (rows_of c' r) \<le> cr \<and> chars_queued c' r \<le> cb"
    using sqlite_length_le [of "fst f"]
    by (auto simp: enqueue_if_under_cap_Inr rows_of_enqueue chars_queued_def
        split: prod.splits if_splits)
next
  fix c c' r f ok r'
  assume "enqueue_capped cr cb c r f = Inr (ok, c')" "r' \<noteq> r"
  then show "length (rows_of c' r') = length (rows_of c r') \<and> chars_queued c' r' = chars_queued c r'"
    by (auto simp: enqueue_if_under_cap_Inr rows_of_enqueue chars_queued_def
        split: prod.splits if_splits)
qed (auto simp: enqueue_if_under_cap_Inr split: prod.splits if_splits)

text \<open>Outbox caps. However many frames are offered to whichever recipients, a queue that is within
  its row cap and its budget stays within both; the budget is the total that \<open>outbox_bytes\<close>
  computes (characters of the frames).\<close>

theorem outbox_within_caps:
  assumes "\<And>r. length (rows_of c r) \<le> cr \<and> chars_queued c r \<le> cb"
  shows "length (rows_of (add_all (enqueue_capped cr cb) c xs) r) \<le> cr
    \<and> chars_queued (add_all (enqueue_capped cr cb) c xs) r \<le> cb"
  by (rule outbox_queue.add_all_within [OF assms])

theorem outbox_within_caps_witness:
  "length (rows_of (add_all (enqueue_capped 1 9) empty_db
     [(''bob'', ''abc'', 7), (''bob'', ''d'', 8)]) ''bob'') \<le> 1"
proof -
  have "length (rows_of empty_db r) \<le> 1 \<and> chars_queued empty_db r \<le> 9" for r
    by (simp add: empty_db_def rows_of_def chars_queued_def)
  from outbox_within_caps [OF this] show ?thesis by blast
qed

text \<open>A frame of \<open>m\<close> characters outside the basic plane, four bytes each.\<close>

definition astral_char :: string where
  "astral_char = [CHR 0xF0, CHR 0x9F, CHR 0x98, CHR 0x80]"

lemma astral_char_valid: "utf8_valid astral_char"
  by (simp add: astral_char_def is_cont_def)

lemma length_astral: "length (concat (replicate m astral_char)) = 4 * m"
  by (induction m) (simp_all add: astral_char_def)

lemma sqlite_length_astral_append: "sqlite_length (astral_char @ s) = Suc (sqlite_length s)"
  by (simp add: sqlite_length_def astral_char_def is_cont_def)

lemma sqlite_length_astral: "sqlite_length (concat (replicate m astral_char)) = m"
  by (induction m) (simp_all add: sqlite_length_astral_append, simp add: sqlite_length_def)

text \<open>The byte cap counts characters. SQLite's \<open>length\<close> of a TEXT column counts characters, so
  every one of \<open>n\<close> frames of \<open>m\<close> four-byte characters is accepted while their character total
  leaves room, and the queue then holds \<open>4 * n * m\<close> bytes: up to four times the cap.\<close>

theorem outbox_bytes_exceed_cap:
  assumes "db_up c" and "rows_of c r = []" and "n \<le> cr" and "(n + 3) * m \<le> cb"
    and "f = concat (replicate m astral_char)"
  shows "bytes_queued (add_all (enqueue_capped cr cb) c (replicate n (r, f, ts))) r = 4 * n * m"
proof -
  let ?q = "\<lambda>k. \<lparr>ob_id = k, ob_recipient = r, ob_frame = f, ob_ts = ts\<rparr>"
  have "db_up c \<Longrightarrow> length (rows_of c r) = k \<Longrightarrow> chars_queued c r = k * m \<Longrightarrow> bytes_queued c r = 4 * k * m
      \<Longrightarrow> k + n \<le> cr \<Longrightarrow> (k + n + 3) * m \<le> cb
      \<Longrightarrow> bytes_queued (add_all (enqueue_capped cr cb) c (replicate n (r, f, ts))) r = 4 * (k + n) * m"
    for c k
  proof (induction n arbitrary: c k)
    case 0
    then show ?case by simp
  next
    case (Suc n)
    from Suc.prems(1) obtain c' where c': "enqueue c r f ts = Inr c'" "db_up c'"
      by (simp add: enqueue_def query_def)
    have room: "k * m + 4 * m \<le> cb" using Suc.prems(6) by (simp add: algebra_simps)
    have add: "enqueue_if_under_cap c r f ts cr cb = Inr (True, c')"
      using Suc.prems c' room by (simp add: enqueue_if_under_cap_Inr assms(5) length_astral)
    have "bytes_queued (add_all (enqueue_capped cr cb) c' (replicate n (r, f, ts))) r
        = 4 * (Suc k + n) * m"
      using Suc.prems c'(2) rows_of_enqueue [OF c'(1), of r]
      by (intro Suc.IH) (simp_all add: chars_queued_def bytes_queued_def assms(5) length_astral
        sqlite_length_astral algebra_simps)
    with add show ?case by simp
  qed
  from this [of c 0] assms show ?thesis by (simp add: chars_queued_def bytes_queued_def)
qed

theorem outbox_bytes_exceed_cap_witness:
  "bytes_queued (add_all (enqueue_capped 10000 (64 * 1024 * 1024)) empty_db
     (replicate 1000 (''bob'', concat (replicate 32768 astral_char), 0))) ''bob'' = 131072000
   \<and> 64 * 1024 * 1024 < (131072000::nat)"
  using outbox_bytes_exceed_cap [of empty_db "''bob''" 1000 10000 32768 "64 * 1024 * 1024"]
  by (simp add: empty_db_def rows_of_def)

section \<open>Flushing deletes exactly what was read\<close>

lemma pending_frames_inv:
  "db_inv c \<Longrightarrow> pending_frames c r = query c (map (\<lambda>x. (ob_id x, ob_frame x)) (rows_of c r))"
  by (simp add: pending_frames_def rows_of_def db_inv_def sorted_wrt_less_map_filter)

fun enqueue_all :: "db \<Rightarrow> (string \<times> string \<times> millis) list \<Rightarrow> db" where
  "enqueue_all c [] = c"
| "enqueue_all c ((r, f, ts) # xs) =
     (case enqueue c r f ts of Inl e \<Rightarrow> enqueue_all c xs | Inr c' \<Rightarrow> enqueue_all c' xs)"

lemma enqueue_all_props:
  "db_inv c \<Longrightarrow> db_up c \<Longrightarrow> \<exists>new. outbox (enqueue_all c xs) = outbox c @ new
     \<and> map (\<lambda>x. (ob_recipient x, ob_frame x, ob_ts x)) new = xs
     \<and> (\<forall>x \<in> set new. outbox_seq c < ob_id x) \<and> db_inv (enqueue_all c xs) \<and> db_up (enqueue_all c xs)"
proof (induction xs arbitrary: c)
  case Nil
  then show ?case by simp
next
  case (Cons x xs)
  obtain r f ts where x: "x = (r, f, ts)" by (cases x)
  obtain c' where c': "enqueue c r f ts = Inr c'" "db_up c'" "outbox_seq c' = Suc (outbox_seq c)"
      "outbox c' = outbox c @ [\<lparr>ob_id = Suc (outbox_seq c), ob_recipient = r, ob_frame = f, ob_ts = ts\<rparr>]"
    using Cons.prems(2) by (simp add: enqueue_def query_def)
  obtain new where "outbox (enqueue_all c' xs) = outbox c' @ new"
      "map (\<lambda>x. (ob_recipient x, ob_frame x, ob_ts x)) new = xs"
      "\<forall>x \<in> set new. outbox_seq c' < ob_id x" "db_inv (enqueue_all c' xs)" "db_up (enqueue_all c' xs)"
    using Cons.IH [OF enqueue_inv [OF Cons.prems(1) c'(1)] c'(2)] by blast
  with c' x show ?case
    by (intro exI [of _ "\<lparr>ob_id = Suc (outbox_seq c), ob_recipient = r, ob_frame = f, ob_ts = ts\<rparr> # new"])
       auto
qed

text \<open>The two lock windows of a flush lose nothing. Whatever is queued for anybody between reading
  the pending rows of a user and deleting the ids read, the deletion leaves the user exactly the
  frames that arrived in between, in order, and no other user loses a row.\<close>

theorem flush_keeps_later_frames:
  assumes inv: "db_inv c" and up: "db_up c" and read: "pending_frames c u = Inr rows"
    and c': "c' = enqueue_all c xs" and del: "delete_frames c' (map fst rows) = Inr c''"
  shows "map ob_frame (rows_of c'' u) = [f. (r, f, ts) \<leftarrow> xs, r = u]
    \<and> (\<forall>q. q \<noteq> u \<longrightarrow> rows_of c'' q = rows_of c' q)"
proof -
  obtain new where new: "outbox c' = outbox c @ new"
      "map (\<lambda>x. (ob_recipient x, ob_frame x, ob_ts x)) new = xs"
      "\<forall>x \<in> set new. outbox_seq c < ob_id x" and inv': "db_inv c'"
    using enqueue_all_props [OF inv up, of xs] c' by auto
  have ids: "set (map fst rows) = ob_id ` set (rows_of c u)"
    using read up by (auto simp: pending_frames_inv [OF inv] query_def image_image)
  have le: "\<forall>x \<in> set (outbox c). ob_id x \<le> outbox_seq c" using inv by (simp add: db_inv_def)
  have uniq: "x = y" if "x \<in> set (outbox c)" "y \<in> set (outbox c)" "ob_id x = ob_id y" for x y
    using inv that by (auto simp: db_inv_def strict_sorted_iff distinct_map dest: inj_onD)
  have c'': "outbox c'' = filter (\<lambda>x. ob_recipient x \<noteq> u) (outbox c) @ new"
  proof -
    have "outbox c'' = filter (\<lambda>x. ob_id x \<notin> ob_id ` set (rows_of c u)) (outbox c')"
      using del ids by (auto simp: delete_frames_def query_def split: if_splits)
    moreover have "filter (\<lambda>x. ob_id x \<notin> ob_id ` set (rows_of c u)) new = new"
      using le new(3) by (fastforce simp: filter_id_conv rows_of_def)
    moreover have "filter (\<lambda>x. ob_id x \<notin> ob_id ` set (rows_of c u)) (outbox c)
        = filter (\<lambda>x. ob_recipient x \<noteq> u) (outbox c)"
      using uniq by (auto intro!: filter_cong simp: rows_of_def)
    ultimately show ?thesis by (simp add: new(1))
  qed
  have "map ob_frame (filter (\<lambda>x. ob_recipient x = u) new) = [f. (r, f, ts) \<leftarrow> xs, r = u]"
    unfolding new(2) [symmetric] by (induction new) auto
  moreover have "rows_of c'' q = rows_of c' q" if "q \<noteq> u" for q
    using that by (auto simp: rows_of_def c'' new(1) intro: filter_cong)
  ultimately show ?thesis
    by (simp add: rows_of_def c'')
qed

theorem flush_keeps_later_frames_witness:
  "\<exists>c''. delete_frames (enqueue_all (enqueue_all empty_db [(''bob'', ''old'', 1)]) [(''bob'', ''new'', 2)])
      [1] = Inr c'' \<and> map ob_frame (rows_of c'' ''bob'') = [''new'']"
proof -
  let ?c = "enqueue_all empty_db [(''bob'', ''old'', 1)]"
  have "db_up empty_db" by (simp add: empty_db_def)
  then have "db_inv ?c" "db_up ?c"
    using enqueue_all_props [OF empty_db_inv, of "[(''bob'', ''old'', 1)]"] by blast+
  moreover have "pending_frames ?c ''bob'' = Inr [(1, ''old'')]"
    by (simp add: enqueue_def query_def empty_db_def pending_frames_def rows_of_def)
  ultimately show ?thesis
    using flush_keeps_later_frames [of ?c "''bob''" "[(1, ''old'')]" _ "[(''bob'', ''new'', 2)]"]
    by (simp add: enqueue_def query_def empty_db_def delete_frames_def)
qed

section \<open>The directory is append-only\<close>

lemma find_append:
  "find P (xs @ ys) = (case find P xs of None \<Rightarrow> find P ys | Some x \<Rightarrow> Some x)"
  by (induction xs) auto

definition register_row where
  "register_row c u x = (case x of (uuid, ed, cv, machine, ts) \<Rightarrow> insert_user c uuid u ed cv machine ts)"

definition directory_entry :: "db \<Rightarrow> string \<Rightarrow> user_row option" where
  "directory_entry c u = find (\<lambda>r. u_username r = u) (users c)"

interpretation directory: pinned register_row directory_entry "\<lambda>_. True"
  by unfold_locales
    (auto simp: register_row_def directory_entry_def insert_user_def find_append split: if_splits prod.splits)

lemma lookup_user_entry:
  "lookup_user c u = query c (map_option (\<lambda>r. \<lparr>ur_uuid = u_uuid r, ur_username = u_username r,
     ur_ed25519 = u_ed25519 r, ur_curve25519 = u_curve25519 r\<rparr>) (directory_entry c u))"
  by (simp add: lookup_user_def directory_entry_def split: option.split)

lemma register_all_up [simp]: "db_up (learn_all register_row c xs) = db_up c"
proof (induction xs arbitrary: c)
  case (Cons x xs)
  then show ?case
    by (cases x) (auto simp: register_row_def insert_user_def split: sum.splits prod.splits if_splits)
qed simp

lemma lookup_user_username: "lookup_user c u = Inr (Some r) \<Longrightarrow> ur_username r = u"
  by (auto simp: lookup_user_def query_def find_Some_iff split: option.splits if_splits)

text \<open>Identities are immutable. What the directory answers for a name once registered is what it
  answers after any further registrations, attempts to take the same name, uuid or key included.\<close>

theorem identity_immutable:
  assumes "lookup_user c u = Inr (Some r)"
  shows "lookup_user (learn_all register_row c xs) u = Inr (Some r)"
proof -
  from assms obtain row where up: "db_up c" and row: "directory_entry c u = Some row"
      and r: "lookup_user c u = query c (Some r)"
    by (auto simp: lookup_user_entry query_def split: if_splits)
  have "directory_entry (learn_all register_row c xs) u = Some row"
    by (rule directory.learn_all_pin [OF row]) simp
  with up row r show ?thesis by (simp add: lookup_user_entry query_def)
qed

theorem identity_immutable_witness:
  "lookup_user (learn_all register_row
      (empty_db\<lparr>users := [\<lparr>u_uuid = ''1'', u_username = ''bob'', u_ed25519 = ''E'', u_curve25519 = ''C'',
        u_machine_id = ''m'', u_is_premium = 0, u_created_ts = 0\<rparr>]\<rparr>)
      [(''bob'', ''2'', ''X'', ''Y'', ''m'', 5), (''amy'', ''3'', ''X'', ''Y'', ''m'', 6)]) ''bob''
   = Inr (Some \<lparr>ur_uuid = ''1'', ur_username = ''bob'', ur_ed25519 = ''E'', ur_curve25519 = ''C''\<rparr>)"
  by (rule identity_immutable) (simp add: lookup_user_def empty_db_def query_def)

section \<open>Opening a file of an older version\<close>

definition keeps_first :: "prekey_row list \<Rightarrow> prekey_row list \<Rightarrow> bool" where
  "keeps_first ps qs \<longleftrightarrow>
     (\<forall>p \<in> set ps. \<exists>q \<in> set qs. pk_ident q = pk_ident p \<and> pk_id q \<le> pk_id p)"

lemma min_row_exists:
  "p \<in> set ps \<Longrightarrow> \<exists>q \<in> set ps. pk_ident q = pk_ident p \<and> pk_id q \<le> pk_id p
     \<and> (\<forall>r \<in> set ps. pk_ident r = pk_ident q \<longrightarrow> pk_id q \<le> pk_id r)"
proof -
  assume p: "p \<in> set ps"
  let ?S = "{q \<in> set ps. pk_ident q = pk_ident p}"
  have "finite ?S" "?S \<noteq> {}" using p by auto
  then obtain q where "q \<in> ?S" "\<forall>r \<in> ?S. pk_id q \<le> pk_id r"
    using ex_min_if_finite [of "pk_id ` ?S"] by (auto simp: not_less)
  with p show ?thesis by (intro bexI [of _ q]) auto
qed

text \<open>Opening a legacy file. Whatever duplicate prekey rows an older relay left, after
  \<open>init_schema\<close> each pair of user and key id has one row, the earliest, and users and queued frames
  are untouched.\<close>

theorem init_schema_dedupes:
  assumes "sorted_wrt (<) (map pk_id (prekeys c))" and "init_schema c = Inr c'"
  shows "distinct (map pk_ident (prekeys c')) \<and> keeps_first (prekeys c) (prekeys c')
    \<and> set (prekeys c') \<subseteq> set (prekeys c) \<and> users c' = users c \<and> outbox c' = outbox c"
proof -
  let ?Q = "\<lambda>p. \<forall>q \<in> set (prekeys c). pk_ident q = pk_ident p \<longrightarrow> pk_id p \<le> pk_id q"
  have c': "c' = c\<lparr>prekeys := filter ?Q (prekeys c)\<rparr>"
    using assms(2) by (auto simp: init_schema_def query_def split: if_splits)
  have ids: "distinct (map pk_id (prekeys c))" using assms(1) by (simp add: strict_sorted_iff)
  then have d: "distinct (filter ?Q (prekeys c))" by (simp add: distinct_map)
  have "inj_on pk_ident (set (filter ?Q (prekeys c)))"
  proof (rule inj_onI)
    fix p q assume pq: "p \<in> set (filter ?Q (prekeys c))" "q \<in> set (filter ?Q (prekeys c))"
      "pk_ident p = pk_ident q"
    then have "pk_id p = pk_id q" by (auto intro!: antisym)
    with ids pq show "p = q" by (auto simp: distinct_map dest: inj_onD)
  qed
  with d c' have "distinct (map pk_ident (prekeys c'))" by (simp add: distinct_map)
  moreover have "keeps_first (prekeys c) (prekeys c')"
    unfolding keeps_first_def using min_row_exists [of _ "prekeys c"] by (fastforce simp: c')
  ultimately show ?thesis by (auto simp: c')
qed

theorem init_schema_dedupes_witness:
  "let r = \<lambda>i k. \<lparr>pk_id = i, pk_username = ''bob'', pk_key_id = k, pk_curve25519 = ''c'', pk_used = False\<rparr>;
       c = empty_db\<lparr>prekeys := [r 1 ''a'', r 2 ''a'', r 3 ''b'']\<rparr>
   in \<exists>c'. init_schema c = Inr c' \<and> distinct (map pk_ident (prekeys c')) \<and> length (prekeys c') = 2"
  using init_schema_dedupes [of "empty_db\<lparr>prekeys := map (\<lambda>(i, k). \<lparr>pk_id = i, pk_username = ''bob'',
      pk_key_id = k, pk_curve25519 = ''c'', pk_used = False\<rparr>) [(1, ''a''), (2, ''a''), (3, ''b'')]\<rparr>"]
  by (simp add: Let_def init_schema_def query_def empty_db_def)

end
