(* ===== verification/Server_Limits.thy ===== *)
theory Server_Limits
  imports Prelude Complex_Main "HOL-Library.AList"
begin

text \<open>
  The relay's admission controls: the token bucket and the per-target fetch gate of
  backend/server/src/conn.rs, and the per-address connection counter of backend/server/src/main.rs.
  A moment of the monotonic clock is a number of nanoseconds; the buckets' \<open>f64\<close> arithmetic is
  rational arithmetic (rounding is not modelled). Hash maps are association lists with one entry
  per key, so that their size is a length.
\<close>

type_synonym instant = int

section \<open>Token bucket\<close>

record rate_limiter =
  rl_tokens :: rat
  rl_rate :: rat
  rl_burst :: rat
  rl_last :: instant

definition new_limiter :: "instant \<Rightarrow> rat \<Rightarrow> rat \<Rightarrow> rate_limiter" where
  "new_limiter now rate burst =
     \<lparr>rl_tokens = burst, rl_rate = rate, rl_burst = burst, rl_last = now\<rparr>"

definition secs_since :: "instant \<Rightarrow> instant \<Rightarrow> rat" where
  "secs_since now earlier = of_int (max 0 (now - earlier)) / 1000000000"

definition allow :: "rate_limiter \<Rightarrow> instant \<Rightarrow> bool \<times> rate_limiter" where
  "allow rl now =
     (let dt = secs_since now (rl_last rl);
          t = min (rl_tokens rl + dt * rl_rate rl) (rl_burst rl)
      in if t \<ge> 1 then (True, rl\<lparr>rl_last := now, rl_tokens := t - 1\<rparr>)
         else (False, rl\<lparr>rl_last := now, rl_tokens := t\<rparr>))"

text \<open>A run of calls: the number allowed and the bucket afterwards.\<close>

fun allow_run :: "rate_limiter \<Rightarrow> instant list \<Rightarrow> nat \<times> rate_limiter" where
  "allow_run rl [] = (0, rl)"
| "allow_run rl (t # ts) =
     (case allow rl t of (ok, rl') \<Rightarrow>
        case allow_run rl' ts of (n, rl'') \<Rightarrow> ((if ok then Suc n else n), rl''))"

definition limiter_inv :: "rate_limiter \<Rightarrow> bool" where
  "limiter_inv rl \<longleftrightarrow> 0 \<le> rl_tokens rl \<and> rl_tokens rl \<le> rl_burst rl \<and> 0 \<le> rl_rate rl"

lemma new_limiter_inv [simp]: "0 \<le> r \<Longrightarrow> 0 \<le> b \<Longrightarrow> limiter_inv (new_limiter t r b)"
  by (simp add: limiter_inv_def new_limiter_def)

lemma secs_since_nonneg [simp]: "0 \<le> secs_since a b"
  by (simp add: secs_since_def)

lemma allow_fixed [simp]:
  "rl_rate (snd (allow rl t)) = rl_rate rl" "rl_burst (snd (allow rl t)) = rl_burst rl"
  "rl_last (snd (allow rl t)) = t"
  by (simp_all add: allow_def Let_def)

lemma allow_inv [inv_intros]: "limiter_inv rl \<Longrightarrow> limiter_inv (snd (allow rl t))"
  by (auto simp: limiter_inv_def allow_def Let_def min_def)

lemma allow_cost:
  "(if fst (allow rl t) then 1 else 0) + rl_tokens (snd (allow rl t))
     \<le> rl_tokens rl + secs_since t (rl_last rl) * rl_rate rl"
  by (auto simp: allow_def Let_def min_def)

lemma allow_below_burst:
  "1 < rl_burst rl \<Longrightarrow> rl_tokens (snd (allow rl t)) < rl_burst rl"
  by (auto simp: allow_def Let_def min_def)

lemma allow_run_inv: "limiter_inv rl \<Longrightarrow> limiter_inv (snd (allow_run rl ts))"
proof (induction ts arbitrary: rl)
  case (Cons t ts)
  then show ?case using allow_inv [of rl t] by (auto split: prod.splits) (metis snd_conv)+
qed simp

lemma allow_run_cost:
  assumes "limiter_inv rl" and "sorted (rl_last rl # ts)" and "allow_run rl ts = (n, rl')"
  shows "of_nat n + rl_tokens rl' \<le> rl_tokens rl + secs_since (last (rl_last rl # ts)) (rl_last rl) * rl_rate rl"
  using assms
proof (induction ts arbitrary: rl n)
  case Nil
  then show ?case by (simp add: secs_since_def)
next
  case (Cons t ts)
  obtain ok rl1 where a: "allow rl t = (ok, rl1)" by (cases "allow rl t")
  then have rl1: "ok = fst (allow rl t)" "rl1 = snd (allow rl t)" by simp_all
  obtain m where m: "allow_run rl1 ts = (m, rl')" "n = (if ok then Suc m else m)"
    using Cons.prems(3) a by (auto split: prod.splits)
  have a: "of_nat m + rl_tokens rl' \<le> rl_tokens rl1 + secs_since (last (t # ts)) t * rl_rate rl"
    using Cons.IH [of rl1 m] Cons.prems(1,2) m(1) allow_inv [of rl t] rl1 by simp
  have b: "(if ok then 1 else 0) + rl_tokens rl1 \<le> rl_tokens rl + secs_since t (rl_last rl) * rl_rate rl"
    using allow_cost [of rl t] rl1 by simp
  have sum: "secs_since (last (t # ts)) t + secs_since t (rl_last rl)
      = secs_since (last (t # ts)) (rl_last rl)"
  proof -
    have "t \<le> last (t # ts)" using Cons.prems(2) by (cases ts rule: rev_cases) auto
    moreover have "rl_last rl \<le> t" using Cons.prems(2) by simp
    ultimately show ?thesis by (simp add: secs_since_def add_divide_distrib [symmetric] del: last.simps)
  qed
  from sum have "secs_since (last (t # ts)) t * rl_rate rl + secs_since t (rl_last rl) * rl_rate rl
      = secs_since (last (t # ts)) (rl_last rl) * rl_rate rl"
    by (simp only: distrib_right [symmetric])
  moreover have "rat_of_nat n = rat_of_nat m + (if ok then 1 else 0)" using m(2) by simp
  moreover have l: "last (rl_last rl # t # ts) = last (t # ts)" by simp
  ultimately show ?case unfolding l using a b by linarith
qed

lemma limiter_bound:
  assumes "0 \<le> rate" and "0 \<le> burst" and "sorted (t0 # ts)"
  shows "of_nat (fst (allow_run (new_limiter t0 rate burst) ts))
    \<le> burst + rate * secs_since (last (t0 # ts)) t0"
proof -
  obtain n rl' where r: "allow_run (new_limiter t0 rate burst) ts = (n, rl')" by fastforce
  have "limiter_inv (new_limiter t0 rate burst)" using assms by simp
  then have "0 \<le> rl_tokens rl'"
    using allow_run_inv [of "new_limiter t0 rate burst" ts] r by (simp add: limiter_inv_def)
  with allow_run_cost [OF \<open>limiter_inv _\<close> _ r] assms(3) r show ?thesis
    by (simp add: new_limiter_def algebra_simps del: last.simps)
qed

text \<open>Rate bound. A bucket that starts full lets through at most its burst plus its rate times the
  seconds elapsed, however the calls are spread over the (monotonic) clock.\<close>

theorem allow_rate_bound:
  assumes "0 \<le> rate" and "0 \<le> burst" and "sorted (t0 # ts)"
  shows "of_nat (fst (allow_run (new_limiter t0 rate burst) ts))
    \<le> burst + rate * secs_since (last (t0 # ts)) t0"
  by (rule limiter_bound [OF assms])

theorem allow_rate_bound_witness:
  "of_nat (fst (allow_run (new_limiter 0 4 30) [1, 1, 500000000])) \<le> (32::rat)"
  using allow_rate_bound [of 4 30 0 "[1, 1, 500000000]"] by (simp add: secs_since_def)

section \<open>The fetch gate\<close>

definition FETCH_RATE :: rat where "FETCH_RATE = 4"
definition FETCH_BURST :: rat where "FETCH_BURST = 30"
definition FETCH_GATE_CAP :: nat where "FETCH_GATE_CAP = 50000"

type_synonym fetch_gate = "(string \<times> rate_limiter) list"

definition new_fetch_gate :: fetch_gate where
  "new_fetch_gate = []"

text \<open>\<open>map.retain(|_, rl| rl.tokens < rl.burst)\<close>.\<close>

definition prune_gate :: "fetch_gate \<Rightarrow> fetch_gate" where
  "prune_gate g = filter (\<lambda>(_, rl). rl_tokens rl < rl_burst rl) g"

definition fetch_allowed :: "fetch_gate \<Rightarrow> instant \<Rightarrow> string \<Rightarrow> bool \<times> fetch_gate" where
  "fetch_allowed g now target =
     (let g = (if length g > FETCH_GATE_CAP then prune_gate g else g);
          rl = (case map_of g target of Some rl \<Rightarrow> rl | None \<Rightarrow> new_limiter now FETCH_RATE FETCH_BURST);
          (ok, rl') = allow rl now
      in (ok, AList.update target rl' g))"

fun gate_run :: "fetch_gate \<Rightarrow> (instant \<times> string) list \<Rightarrow> bool list \<times> fetch_gate" where
  "gate_run g [] = ([], g)"
| "gate_run g ((now, u) # rs) =
     (case fetch_allowed g now u of (ok, g') \<Rightarrow>
        case gate_run g' rs of (oks, g'') \<Rightarrow> (ok # oks, g''))"

text \<open>Every bucket of a gate is one \<open>allow\<close> has been called on, so it is never full.\<close>

definition gate_inv :: "fetch_gate \<Rightarrow> bool" where
  "gate_inv g \<longleftrightarrow> distinct (map fst g) \<and>
     (\<forall>(u, rl) \<in> set g. rl_burst rl = FETCH_BURST \<and> rl_rate rl = FETCH_RATE \<and>
        0 \<le> rl_tokens rl \<and> rl_tokens rl < rl_burst rl)"

lemma new_fetch_gate_inv [simp]: "gate_inv new_fetch_gate"
  by (simp add: gate_inv_def new_fetch_gate_def)

lemma prune_gate_id: "gate_inv g \<Longrightarrow> prune_gate g = g"
  by (auto simp: gate_inv_def prune_gate_def filter_id_conv)

definition bucket_of :: "fetch_gate \<Rightarrow> instant \<Rightarrow> string \<Rightarrow> rate_limiter" where
  "bucket_of g now u =
     (case map_of g u of Some rl \<Rightarrow> rl | None \<Rightarrow> new_limiter now FETCH_RATE FETCH_BURST)"

lemma fetch_allowed_eq:
  "gate_inv g \<Longrightarrow> fetch_allowed g now u =
     (fst (allow (bucket_of g now u) now), AList.update u (snd (allow (bucket_of g now u) now)) g)"
  by (auto simp: fetch_allowed_def prune_gate_id bucket_of_def Let_def split: prod.splits)

lemma bucket_of_inv:
  "gate_inv g \<Longrightarrow> limiter_inv (bucket_of g now u) \<and> rl_burst (bucket_of g now u) = FETCH_BURST
     \<and> rl_rate (bucket_of g now u) = FETCH_RATE"
  by (auto simp: gate_inv_def bucket_of_def limiter_inv_def new_limiter_def FETCH_RATE_def
      FETCH_BURST_def split: option.split dest!: map_of_SomeD)

lemma set_AList_update:
  "distinct (map fst g) \<Longrightarrow> set (AList.update k v g) = insert (k, v) {p \<in> set g. fst p \<noteq> k}"
  by (induction g) force+

lemma fetch_allowed_inv [inv_intros]:
  assumes "gate_inv g" shows "gate_inv (snd (fetch_allowed g now u))"
proof -
  let ?rl = "snd (allow (bucket_of g now u) now)"
  note b = bucket_of_inv [OF assms, of now u]
  have "limiter_inv ?rl" using b by (simp add: allow_inv)
  moreover have "rl_tokens ?rl < rl_burst ?rl"
    using allow_below_burst [of "bucket_of g now u" now] b by (simp add: FETCH_BURST_def)
  ultimately show ?thesis
    using assms b unfolding gate_inv_def fetch_allowed_eq [OF assms]
    by (auto simp: set_AList_update distinct_update limiter_inv_def)
qed

lemma fetch_allowed_keys:
  "gate_inv g \<Longrightarrow> fst ` set (snd (fetch_allowed g now u)) = insert u (fst ` set g)"
  by (simp add: fetch_allowed_eq dom_update)

lemma gate_run_inv:
  "gate_inv g \<Longrightarrow> gate_inv (snd (gate_run g rs)) \<and> fst ` set (snd (gate_run g rs)) = fst ` set g \<union> snd ` set rs"
proof (induction rs arbitrary: g)
  case (Cons r rs)
  obtain now u where r: "r = (now, u)" by (cases r)
  obtain ok g' where g': "fetch_allowed g now u = (ok, g')" by fastforce
  have "gate_inv g'" and keys: "fst ` set g' = insert u (fst ` set g)"
    using fetch_allowed_inv [OF Cons.prems, of now u] fetch_allowed_keys [OF Cons.prems, of now u] g'
    by simp_all
  have "gate_inv (snd (gate_run g' rs)) \<and> fst ` set (snd (gate_run g' rs)) = fst ` set g' \<union> snd ` set rs"
    by (rule Cons.IH [OF \<open>gate_inv g'\<close>])
  moreover have "snd (gate_run g (r # rs)) = snd (gate_run g' rs)"
    using r g' by (simp split: prod.split)
  ultimately show ?case using keys r by (simp add: insert_commute)
qed simp

text \<open>Pruning the gate is a no-op. A bucket that has served a request holds at most its burst
  less one token, refilling happens only when it is asked again, so no bucket is ever full when the
  map is pruned: the gate keeps one entry for every target ever asked for, past its cap.\<close>

theorem fetch_gate_never_shrinks:
  "length (snd (gate_run new_fetch_gate rs)) = card (snd ` set rs)"
proof -
  have g: "gate_inv (snd (gate_run new_fetch_gate rs))"
    "fst ` set (snd (gate_run new_fetch_gate rs)) = snd ` set rs"
    using gate_run_inv [OF new_fetch_gate_inv, of rs] by (auto simp: new_fetch_gate_def)
  then have "distinct (map fst (snd (gate_run new_fetch_gate rs)))" by (simp add: gate_inv_def)
  then show ?thesis using g(2) distinct_card by fastforce
qed

text \<open>The requests for one target, and how many of them were let through.\<close>

definition times_for :: "string \<Rightarrow> (instant \<times> string) list \<Rightarrow> instant list" where
  "times_for u rs = map fst (filter (\<lambda>r. snd r = u) rs)"

definition granted :: "string \<Rightarrow> fetch_gate \<Rightarrow> (instant \<times> string) list \<Rightarrow> nat" where
  "granted u g rs = length (filter (\<lambda>(r, ok). snd r = u \<and> ok) (zip rs (fst (gate_run g rs))))"

lemma granted_Nil [simp]: "granted u g [] = 0"
  by (simp add: granted_def)

lemma granted_Cons:
  "granted u g ((now, v) # rs) =
     (if v = u \<and> fst (fetch_allowed g now v) then 1 else 0) + granted u (snd (fetch_allowed g now v)) rs"
  by (simp add: granted_def split: prod.split)

lemma map_of_fetch_allowed:
  "gate_inv g \<Longrightarrow> map_of (snd (fetch_allowed g now v)) =
     (map_of g)(v \<mapsto> snd (allow (bucket_of g now v) now))"
  by (simp add: fetch_allowed_eq update_conv')

lemma granted_bucket:
  "gate_inv g \<Longrightarrow> map_of g u = Some rl \<Longrightarrow> granted u g rs = fst (allow_run rl (times_for u rs))"
proof (induction rs arbitrary: g rl)
  case Nil
  then show ?case by (simp add: times_for_def)
next
  case (Cons r rs)
  obtain now v where r: "r = (now, v)" by (cases r)
  let ?g = "snd (fetch_allowed g now v)"
  have inv: "gate_inv ?g" by (rule fetch_allowed_inv [OF Cons.prems(1)])
  note m = map_of_fetch_allowed [OF Cons.prems(1), of now v]
  show ?case
  proof (cases "v = u")
    case True
    with Cons.prems(2) have b: "bucket_of g now v = rl" by (simp add: bucket_of_def)
    with m True have "map_of ?g u = Some (snd (allow rl now))" by simp
    from Cons.IH [OF inv this] show ?thesis
      using r True b Cons.prems(1)
      by (simp add: granted_Cons times_for_def fetch_allowed_eq split: prod.split)
  next
    case False
    with m Cons.prems(2) have "map_of ?g u = Some rl" by simp
    from Cons.IH [OF inv this] show ?thesis using r False by (simp add: granted_Cons times_for_def)
  qed
qed

lemma granted_fresh:
  "gate_inv g \<Longrightarrow> map_of g u = None \<Longrightarrow>
     granted u g rs = fst (allow_run (new_limiter (hd (times_for u rs)) FETCH_RATE FETCH_BURST) (times_for u rs))"
proof (induction rs arbitrary: g)
  case Nil
  then show ?case by (simp add: times_for_def)
next
  case (Cons r rs)
  obtain now v where r: "r = (now, v)" by (cases r)
  let ?g = "snd (fetch_allowed g now v)"
  have inv: "gate_inv ?g" by (rule fetch_allowed_inv [OF Cons.prems(1)])
  note m = map_of_fetch_allowed [OF Cons.prems(1), of now v]
  show ?case
  proof (cases "v = u")
    case True
    with Cons.prems(2) have b: "bucket_of g now v = new_limiter now FETCH_RATE FETCH_BURST"
      by (simp add: bucket_of_def)
    with m True have "map_of ?g u = Some (snd (allow (new_limiter now FETCH_RATE FETCH_BURST) now))"
      by simp
    from granted_bucket [OF inv this] show ?thesis
      using r True b Cons.prems(1)
      by (simp add: granted_Cons times_for_def fetch_allowed_eq split: prod.split)
  next
    case False
    with m Cons.prems(2) have "map_of ?g u = None" by simp
    from Cons.IH [OF inv this] show ?thesis using r False by (simp add: granted_Cons times_for_def)
  qed
qed

text \<open>A victim's prekeys cannot be drained fast. Whoever asks, on however many connections, the
  gate lets through at most 30 fetches of one target plus 4 per second elapsed since the first;
  requests for other targets change nothing.\<close>

theorem fetch_gate_bounds_target:
  assumes "sorted (times_for u rs)" and "times_for u rs \<noteq> []"
  shows "of_nat (granted u new_fetch_gate rs)
    \<le> 30 + 4 * secs_since (last (times_for u rs)) (hd (times_for u rs))"
proof -
  have g: "granted u new_fetch_gate rs =
      fst (allow_run (new_limiter (hd (times_for u rs)) FETCH_RATE FETCH_BURST) (times_for u rs))"
    by (rule granted_fresh [OF new_fetch_gate_inv]) (simp add: new_fetch_gate_def)
  have "0 \<le> FETCH_RATE" "0 \<le> FETCH_BURST" by (simp_all add: FETCH_RATE_def FETCH_BURST_def)
  moreover have "sorted (hd (times_for u rs) # times_for u rs)"
    using assms by (cases "times_for u rs") auto
  ultimately show ?thesis
    using limiter_bound [of FETCH_RATE FETCH_BURST "hd (times_for u rs)" "times_for u rs"] assms(2) g
    by (simp add: FETCH_RATE_def FETCH_BURST_def)
qed

theorem fetch_gate_bounds_target_witness:
  "of_nat (granted ''bob'' new_fetch_gate [(0, ''bob''), (5, ''amy''), (1000000000, ''bob'')]) \<le> (34::rat)"
  using fetch_gate_bounds_target [of "''bob''" "[(0, ''bob''), (5, ''amy''), (1000000000, ''bob'')]"]
  by (simp add: times_for_def secs_since_def)

section \<open>Connections per address\<close>

definition MAX_CONNECTIONS :: nat where "MAX_CONNECTIONS = 4096"
definition MAX_CONNECTIONS_PER_IP :: nat where "MAX_CONNECTIONS_PER_IP = 64"

text \<open>\<open>IpCounts\<close>; \<open>admit_ip\<close> returns whether a guard was given, \<open>drop_guard\<close> is \<open>IpGuard::drop\<close>.\<close>

type_synonym 'ip ip_counts = "('ip \<times> nat) list"

definition admit_ip :: "'ip ip_counts \<Rightarrow> 'ip \<Rightarrow> bool \<times> 'ip ip_counts" where
  "admit_ip counts ip =
     (let n = (case map_of counts ip of Some n \<Rightarrow> n | None \<Rightarrow> 0)
      in if n \<ge> MAX_CONNECTIONS_PER_IP
         then (False, if n = 0 then AList.delete ip counts else AList.update ip n counts)
         else (True, AList.update ip (n + 1) counts))"

definition drop_guard :: "'ip ip_counts \<Rightarrow> 'ip \<Rightarrow> 'ip ip_counts" where
  "drop_guard counts ip =
     (case map_of counts ip of
        None \<Rightarrow> counts
      | Some n \<Rightarrow> if n - 1 = 0 then AList.delete ip counts else AList.update ip (n - 1) counts)"

text \<open>The accept loop of \<open>main\<close>: the drain flag, the semaphore's free permits, the counters, and the
  live connections' addresses.\<close>

record 'ip acceptor =
  draining :: bool
  permits :: nat
  ip_counts :: "'ip ip_counts"
  live :: "'ip list"

definition init_acceptor :: "'ip acceptor" where
  "init_acceptor = \<lparr>draining = False, permits = MAX_CONNECTIONS, ip_counts = [], live = []\<rparr>"

definition accept :: "'ip acceptor \<Rightarrow> 'ip \<Rightarrow> bool \<times> 'ip acceptor" where
  "accept a ip =
     (if draining a then (False, a)
      else if permits a = 0 then (False, a)
      else case admit_ip (ip_counts a) ip of
             (False, counts) \<Rightarrow> (False, a\<lparr>ip_counts := counts\<rparr>)
           | (True, counts) \<Rightarrow>
               (True, a\<lparr>permits := permits a - 1, ip_counts := counts, live := ip # live a\<rparr>))"

text \<open>A connection task that ends drops its guard and its permit.\<close>

definition end_connection :: "'ip acceptor \<Rightarrow> 'ip \<Rightarrow> 'ip acceptor" where
  "end_connection a ip =
     (if List.member (live a) ip
      then a\<lparr>permits := permits a + 1, ip_counts := drop_guard (ip_counts a) ip,
             live := remove1 ip (live a)\<rparr>
      else a)"

datatype 'ip accept_event = Incoming 'ip | Ended 'ip | Drain

fun accept_run :: "'ip acceptor \<Rightarrow> 'ip accept_event list \<Rightarrow> 'ip acceptor" where
  "accept_run a [] = a"
| "accept_run a (Incoming ip # es) = accept_run (snd (accept a ip)) es"
| "accept_run a (Ended ip # es) = accept_run (end_connection a ip) es"
| "accept_run a (Drain # es) = accept_run (a\<lparr>draining := True\<rparr>) es"

definition acceptor_inv :: "'ip acceptor \<Rightarrow> bool" where
  "acceptor_inv a \<longleftrightarrow>
     permits a + length (live a) = MAX_CONNECTIONS \<and> distinct (map fst (ip_counts a)) \<and>
     (\<forall>ip. count_list (live a) ip \<le> MAX_CONNECTIONS_PER_IP) \<and>
     (\<forall>ip. map_of (ip_counts a) ip =
        (if count_list (live a) ip = 0 then None else Some (count_list (live a) ip)))"

lemma init_acceptor_inv [simp]: "acceptor_inv init_acceptor"
  by (simp add: acceptor_inv_def init_acceptor_def)

lemma count_list_remove1: "count_list (remove1 x xs) y = count_list xs y - (if x = y then 1 else 0)"
  by (induction xs) auto

lemma distinct_AList_delete: "distinct (map fst c) \<Longrightarrow> distinct (map fst (AList.delete k c))"
  by (simp add: AList.delete_eq distinct_map_filter)

lemma accept_inv [inv_intros]: "acceptor_inv a \<Longrightarrow> acceptor_inv (snd (accept a ip))"
  by (auto simp: acceptor_inv_def accept_def admit_ip_def Let_def distinct_update update_conv'
      distinct_AList_delete MAX_CONNECTIONS_PER_IP_def split: option.splits if_splits)

lemma end_connection_inv [inv_intros]: "acceptor_inv a \<Longrightarrow> acceptor_inv (end_connection a ip)"
proof -
  assume a: "acceptor_inv a"
  show ?thesis
  proof (cases "ip \<in> set (live a)")
    case True
    then have "count_list (live a) ip \<noteq> 0" "0 < length (live a)"
      by (auto simp: count_list_0_iff)
    from this(1) a have n: "map_of (ip_counts a) ip = Some (count_list (live a) ip)"
      by (simp add: acceptor_inv_def)
    have "count_list (remove1 ip (live a)) q \<le> count_list (live a) q" for q
      by (simp add: count_list_remove1)
    then have "\<forall>q. count_list (remove1 ip (live a)) q \<le> MAX_CONNECTIONS_PER_IP"
      using a by (meson acceptor_inv_def le_trans)
    moreover have "distinct (map fst (drop_guard (ip_counts a) ip))"
      using a by (simp add: acceptor_inv_def drop_guard_def n distinct_AList_delete distinct_update)
    moreover have "map_of (drop_guard (ip_counts a) ip) q =
        (if count_list (remove1 ip (live a)) q = 0 then None
         else Some (count_list (remove1 ip (live a)) q))" for q
      using a by (simp add: acceptor_inv_def drop_guard_def n update_conv' delete_conv' count_list_remove1)
    moreover have "permits a + 1 + length (remove1 ip (live a)) = MAX_CONNECTIONS"
      using a True \<open>0 < length (live a)\<close> unfolding acceptor_inv_def length_remove1
      by (simp del: length_greater_0_conv)
    ultimately show ?thesis
      using True unfolding acceptor_inv_def end_connection_def by simp
  qed (simp add: a end_connection_def)
qed

lemma accept_run_inv: "acceptor_inv a \<Longrightarrow> acceptor_inv (accept_run a es)"
  by (induction a es rule: accept_run.induct)
    (auto simp: accept_inv end_connection_inv, auto simp: acceptor_inv_def)

text \<open>Admission caps. After any sequence of incoming connections, ends and drains, at most 4096
  connections are live and at most 64 from any one address, every permit not held by a live
  connection is free again, the counters name exactly the addresses with a live connection, and no
  connection is admitted once draining.\<close>

theorem acceptor_caps:
  defines "reached es \<equiv> accept_run (init_acceptor :: 'ip acceptor) es"
  shows "length (live (reached es)) \<le> 4096 \<and> count_list (live (reached es)) ip \<le> 64
    \<and> permits (reached es) = 4096 - length (live (reached es))
    \<and> fst ` set (ip_counts (reached es)) = set (live (reached es))
    \<and> fst (accept (accept_run (init_acceptor :: 'ip acceptor) (es @ [Drain])) ip) = False"
proof -
  let ?a = "reached es"
  have inv: "acceptor_inv ?a" unfolding reached_def by (rule accept_run_inv) simp
  have drain: "accept_run a (es @ [Drain]) = (accept_run a es)\<lparr>draining := True\<rparr>" for a :: "'ip acceptor"
    by (induction a es rule: accept_run.induct) auto
  have "fst ` set (ip_counts ?a) = set (live ?a)"
    using inv by (auto simp: acceptor_inv_def dom_map_of_conv_image_fst [symmetric] dom_def
        count_list_0_iff)
  then show ?thesis
    using inv drain [of init_acceptor]
    by (auto simp: acceptor_inv_def MAX_CONNECTIONS_def MAX_CONNECTIONS_PER_IP_def accept_def)
qed

end
