(* ===== verification/Server_Conn.thy ===== *)
theory Server_Conn
  imports Server_Db Server_Limits
begin

text \<open>
  The relay's connection handler (backend/server/src/conn.rs) and the client policy of
  backend/server/src/config.rs. A connection is its local variables and its bounded channel; the
  relay is the shared state (database, presence map, fetch gate) and all connections. Each arm of
  the dispatch of \<open>handle\<close> is one definition, which runs as one step; flushing the outbox, which
  waits for room in the channel, is a step per row. Frames come from the peer already parsed, or as
  \<open>Malformed\<close>. Base64, Ed25519, serde_json and the attestation text are functions of \<open>prims\<close>; the
  clocks and the random values a step reads are in \<open>env\<close>.
\<close>

section \<open>Configuration\<close>

record server_config =
  sc_name :: string
  sc_public_address :: string
  sc_repo_url :: string
  sc_description :: string
  sc_contact :: string
  sc_reject_unofficial_clients :: bool
  sc_allowed_client_hashes :: "string list"

definition default_config :: server_config where
  "default_config = \<lparr>sc_name = [], sc_public_address = [], sc_repo_url = [], sc_description = [],
     sc_contact = [], sc_reject_unofficial_clients = False, sc_allowed_client_hashes = []\<rparr>"

definition client_allowed :: "server_config \<Rightarrow> string option \<Rightarrow> bool" where
  "client_allowed cfg build_hash =
     (if \<not> sc_reject_unofficial_clients cfg then True
      else case build_hash of
             Some h \<Rightarrow> list_ex (\<lambda>a. a = h) (sc_allowed_client_hashes cfg)
           | None \<Rightarrow> False)"

section \<open>State\<close>

definition MAX_OUTBOX_PER_RECIPIENT :: nat where "MAX_OUTBOX_PER_RECIPIENT = 10000"
definition MAX_OUTBOX_BYTES_PER_RECIPIENT :: nat where
  "MAX_OUTBOX_BYTES_PER_RECIPIENT = 64 * 1024 * 1024"
definition OUTBOUND_CAP :: nat where "OUTBOUND_CAP = 512"
definition MAX_MACHINE_ID_LEN :: nat where "MAX_MACHINE_ID_LEN = 256"
definition MAX_PREKEY_BATCH :: nat where "MAX_PREKEY_BATCH = 200"
definition MAX_UNUSED_PREKEYS :: nat where "MAX_UNUSED_PREKEYS = 500"
definition MAX_KEY_ID_LEN :: nat where "MAX_KEY_ID_LEN = 64"

text \<open>
  The outbound channel: frames waiting for the writer task, frames written to the socket, and
  whether the writer has stopped (the receiver is dropped with what was waiting).
\<close>

record channel =
  ch_queue :: "server_msg list"
  ch_sent :: "server_msg list"
  ch_closed :: bool

definition new_channel :: channel where
  "new_channel = \<lparr>ch_queue = [], ch_sent = [], ch_closed = False\<rparr>"

text \<open>A flush under way: the rows still to hand over, and the ids to delete at its end.\<close>

record flush_state =
  fl_rows :: "(nat \<times> string) list"
  fl_delivered :: "nat list"

record conn =
  cn_chan :: channel
  cn_authed :: "string option"
  cn_pending_nonce :: "bytes option"
  cn_build_hash :: "string option"
  cn_send_limiter :: rate_limiter
  cn_prekey_limiter :: rate_limiter
  cn_preauth_limiter :: rate_limiter
  cn_flush :: "flush_state option"
  cn_reading :: bool

definition new_conn :: "instant \<Rightarrow> conn" where
  "new_conn now = \<lparr>cn_chan = new_channel, cn_authed = None, cn_pending_nonce = None,
     cn_build_hash = None, cn_send_limiter = new_limiter now 20 60,
     cn_prekey_limiter = new_limiter now 1 10, cn_preauth_limiter = new_limiter now 10 30,
     cn_flush = None, cn_reading = True\<rparr>"

record relay =
  r_db :: db
  r_online :: "(string \<times> nat) list"
  r_conns :: "nat \<Rightarrow> conn option"
  r_gate :: fetch_gate

record prims =
  b64_encode :: "bytes \<Rightarrow> string"
  b64_decode :: "string \<Rightarrow> bytes option"
  verify_ed25519_b64 :: "string \<Rightarrow> bytes \<Rightarrow> string \<Rightarrow> bool"
  to_json :: "server_msg \<Rightarrow> string option"
  from_json :: "string \<Rightarrow> server_msg option"
  attest_json :: "string \<Rightarrow> millis \<Rightarrow> json option"
  attest_version :: string

record env =
  e_now :: millis
  e_instant :: instant
  e_uuid :: string
  e_nonce :: bytes

definition upd_conn :: "nat \<Rightarrow> (conn \<Rightarrow> conn) \<Rightarrow> relay \<Rightarrow> relay" where
  "upd_conn i f r = r\<lparr>r_conns := (r_conns r)(i := map_option f (r_conns r i))\<rparr>"

text \<open>\<open>try_send\<close> on the channel, and through a sender of connection \<open>i\<close>.\<close>

definition try_send :: "channel \<Rightarrow> server_msg \<Rightarrow> bool \<times> channel" where
  "try_send ch m =
     (if ch_closed ch \<or> length (ch_queue ch) \<ge> OUTBOUND_CAP then (False, ch)
      else (True, ch\<lparr>ch_queue := ch_queue ch @ [m]\<rparr>))"

definition try_send_to :: "nat \<Rightarrow> server_msg \<Rightarrow> relay \<Rightarrow> bool \<times> relay" where
  "try_send_to i m r =
     (case r_conns r i of
        None \<Rightarrow> (False, r)
      | Some c \<Rightarrow> (case try_send (cn_chan c) m of
           (ok, ch) \<Rightarrow> (ok, upd_conn i (cn_chan_update (\<lambda>_. ch)) r)))"

text \<open>\<open>let _ = tx.try_send(..)\<close>: a reply that does not fit is dropped.\<close>

definition reply :: "nat \<Rightarrow> server_msg \<Rightarrow> relay \<Rightarrow> relay" where
  "reply i m r = snd (try_send_to i m r)"

definition err :: "string \<Rightarrow> string \<Rightarrow> server_msg" where
  "err code msg = ErrorMsg code msg"

definition internal_error :: server_msg where
  "internal_error = err INTERNAL ''internal server error''"

section \<open>Helpers of the handler\<close>

definition valid_pubkey_b64 :: "prims \<Rightarrow> string \<Rightarrow> bool" where
  "valid_pubkey_b64 P s =
     (s \<noteq> [] \<and> (case b64_decode P s of Some b \<Rightarrow> length b = 32 | None \<Rightarrow> False))"

datatype reg_err = Taken | KeyExists | RegDb sql_error

definition register_user ::
    "db \<Rightarrow> env \<Rightarrow> string \<Rightarrow> string \<Rightarrow> string \<Rightarrow> string \<Rightarrow> reg_err + string \<times> db" where
  "register_user d env name ed curve machine =
     (case username_exists d name of
        Inl e \<Rightarrow> Inl (RegDb e)
      | Inr True \<Rightarrow> Inl Taken
      | Inr False \<Rightarrow>
          (case key_exists d ed of
             Inl e \<Rightarrow> Inl (RegDb e)
           | Inr True \<Rightarrow> Inl KeyExists
           | Inr False \<Rightarrow>
               (case insert_user d (e_uuid env) name ed curve machine (e_now env) of
                  Inl e \<Rightarrow> Inl (RegDb e)
                | Inr d' \<Rightarrow> Inr (e_uuid env, d'))))"

definition enqueue_frame_str :: "string \<Rightarrow> string \<Rightarrow> millis \<Rightarrow> relay \<Rightarrow> bool \<times> relay" where
  "enqueue_frame_str recipient frame ts r =
     (case enqueue_if_under_cap (r_db r) recipient frame ts MAX_OUTBOX_PER_RECIPIENT
             MAX_OUTBOX_BYTES_PER_RECIPIENT of
        Inl e \<Rightarrow> (False, r)
      | Inr (ok, d) \<Rightarrow> (ok, r\<lparr>r_db := d\<rparr>))"

text \<open>
  \<open>flush_outbox\<close>. Phase 1 reads the rows; each following step hands one row to the channel or, for
  a row that does not parse, only marks it; a step waits (None) while the channel is full, and a
  closed channel ends the loop. The last step deletes the marked rows.
\<close>

definition start_flush :: "nat \<Rightarrow> string \<Rightarrow> relay \<Rightarrow> relay" where
  "start_flush i u r =
     (case pending_frames (r_db r) u of
        Inl e \<Rightarrow> r
      | Inr rows \<Rightarrow>
          if rows = [] then r
          else upd_conn i (cn_flush_update (\<lambda>_. Some \<lparr>fl_rows = rows, fl_delivered = []\<rparr>)) r)"

definition end_flush :: "nat \<Rightarrow> nat list \<Rightarrow> relay \<Rightarrow> relay" where
  "end_flush i ids r =
     upd_conn i (cn_flush_update (\<lambda>_. None))
       (if ids = [] then r
        else case delete_frames (r_db r) ids of Inl e \<Rightarrow> r | Inr d \<Rightarrow> r\<lparr>r_db := d\<rparr>)"

definition flush_step :: "prims \<Rightarrow> nat \<Rightarrow> relay \<Rightarrow> relay option" where
  "flush_step P i r =
     (case r_conns r i of None \<Rightarrow> None | Some c \<Rightarrow>
        (case cn_flush c of None \<Rightarrow> None | Some fl \<Rightarrow>
           (case fl_rows fl of
              [] \<Rightarrow> Some (end_flush i (fl_delivered fl) r)
            | (rid, frame) # rows \<Rightarrow>
                (let fl' = \<lparr>fl_rows = rows, fl_delivered = fl_delivered fl @ [rid]\<rparr>
                 in case from_json P frame of
                      None \<Rightarrow> Some (upd_conn i (cn_flush_update (\<lambda>_. Some fl')) r)
                    | Some m \<Rightarrow>
                        if ch_closed (cn_chan c) then Some (end_flush i (fl_delivered fl) r)
                        else if length (ch_queue (cn_chan c)) \<ge> OUTBOUND_CAP then None
                        else Some (upd_conn i (cn_flush_update (\<lambda>_. Some fl'))
                                     (snd (try_send_to i m r)))))))"

section \<open>The arms of the dispatch\<close>

definition handle_attest :: "prims \<Rightarrow> env \<Rightarrow> nat \<Rightarrow> string \<Rightarrow> relay \<Rightarrow> relay" where
  "handle_attest P env i nonce r =
     (case attest_json P nonce (e_now env) of
        Some a \<Rightarrow> reply i (AttestResponse a) r
      | None \<Rightarrow> reply i internal_error r)"

definition handle_client_hello :: "nat \<Rightarrow> string \<Rightarrow> string \<Rightarrow> relay \<Rightarrow> relay" where
  "handle_client_hello i build_hash client_version r =
     reply i (OkMsg None) (upd_conn i (cn_build_hash_update (\<lambda>_. Some build_hash)) r)"

definition handle_get_server_info :: "prims \<Rightarrow> server_config \<Rightarrow> nat \<Rightarrow> relay \<Rightarrow> relay" where
  "handle_get_server_info P cfg i r =
     reply i (ServerInfo (sc_name cfg) (sc_repo_url cfg) (sc_description cfg) (sc_contact cfg)
                (attest_version P)) r"

text \<open>The connection becomes \<open>u\<close>: its state, its presence, \<open>AuthOk\<close>, then the flush.\<close>

definition log_in :: "nat \<Rightarrow> string \<Rightarrow> string \<Rightarrow> relay \<Rightarrow> relay" where
  "log_in i uuid u r =
     (let r = upd_conn i (cn_authed_update (\<lambda>_. Some u)) r;
          r = r\<lparr>r_online := AList.update u i (r_online r)\<rparr>;
          r = reply i (AuthOk uuid u) r
      in start_flush i u r)"

definition handle_register ::
    "prims \<Rightarrow> server_config \<Rightarrow> env \<Rightarrow> nat \<Rightarrow> conn \<Rightarrow> string \<Rightarrow> string \<Rightarrow> string \<Rightarrow> string \<Rightarrow>
     relay \<Rightarrow> relay" where
  "handle_register P cfg env i c username ed curve machine r =
     (if cn_authed c \<noteq> None then
        reply i (err ALREADY_AUTHENTICATED ''this connection is already authenticated'') r
      else if \<not> client_allowed cfg (cn_build_hash c) then
        reply i (err UNOFFICIAL_CLIENT ''this server only accepts the official client'') r
      else if length machine > MAX_MACHINE_ID_LEN then
        reply i (err BAD_REQUEST ''machine_id too long'') r
      else if is_reserved_username username then
        reply i (err USERNAME_RESERVED ''that username is reserved for system use'') r
      else if \<not> valid_username username then
        reply i (err USERNAME_INVALID ''username must be 1-16 chars of [a-zA-Z0-9]'') r
      else if \<not> valid_pubkey_b64 P ed \<or> \<not> valid_pubkey_b64 P curve then
        reply i (err BAD_REQUEST ''ed25519/curve25519 must be base64 32-byte public keys'') r
      else case register_user (r_db r) env username ed curve machine of
             Inr (uuid, d) \<Rightarrow> log_in i uuid username (r\<lparr>r_db := d\<rparr>)
           | Inl Taken \<Rightarrow> reply i (err USERNAME_TAKEN ''username already taken'') r
           | Inl KeyExists \<Rightarrow>
               reply i (err KEY_ALREADY_REGISTERED ''this key is already registered'') r
           | Inl (RegDb e) \<Rightarrow> reply i internal_error r)"

definition handle_auth_begin :: "prims \<Rightarrow> env \<Rightarrow> nat \<Rightarrow> string \<Rightarrow> relay \<Rightarrow> relay" where
  "handle_auth_begin P env i username r =
     reply i (Challenge (b64_encode P (e_nonce env)))
       (upd_conn i (cn_pending_nonce_update (\<lambda>_. Some (e_nonce env))) r)"

definition handle_auth_finish ::
    "prims \<Rightarrow> server_config \<Rightarrow> nat \<Rightarrow> conn \<Rightarrow> string \<Rightarrow> string \<Rightarrow> relay \<Rightarrow> relay" where
  "handle_auth_finish P cfg i c username signature r =
     (if cn_authed c \<noteq> None then
        reply i (err ALREADY_AUTHENTICATED ''this connection is already authenticated'') r
      else if \<not> client_allowed cfg (cn_build_hash c) then
        reply i (err UNOFFICIAL_CLIENT ''this server only accepts the official client'') r
      else case cn_pending_nonce c of
             None \<Rightarrow> reply i (err AUTH_FAILED ''no challenge in progress'') r
           | Some nonce \<Rightarrow>
               (let r = upd_conn i (cn_pending_nonce_update (\<lambda>_. None)) r
                in case lookup_user (r_db r) username of
                     Inr (Some rec) \<Rightarrow>
                       if verify_ed25519_b64 P (ur_ed25519 rec) nonce signature
                       then log_in i (ur_uuid rec) username r
                       else reply i (err AUTH_FAILED ''signature verification failed'') r
                   | Inr None \<Rightarrow> reply i (err UNKNOWN_USER ''no such user'') r
                   | Inl e \<Rightarrow> reply i internal_error r))"

fun insert_prekeys :: "db \<Rightarrow> string \<Rightarrow> one_time_key list \<Rightarrow> bool \<times> db" where
  "insert_prekeys d u [] = (True, d)"
| "insert_prekeys d u (k # ks) =
     (case insert_prekey d u (otk_key_id k) (otk_curve25519 k) of
        Inl e \<Rightarrow> (False, d)
      | Inr d' \<Rightarrow> insert_prekeys d' u ks)"

definition bad_prekey :: "prims \<Rightarrow> one_time_key \<Rightarrow> bool" where
  "bad_prekey P k = (otk_key_id k = [] \<or> length (otk_key_id k) > MAX_KEY_ID_LEN
     \<or> \<not> valid_pubkey_b64 P (otk_curve25519 k))"

definition handle_publish_prekeys ::
    "prims \<Rightarrow> env \<Rightarrow> nat \<Rightarrow> conn \<Rightarrow> one_time_key list \<Rightarrow> relay \<Rightarrow> relay" where
  "handle_publish_prekeys P env i c keys r =
     (case cn_authed c of
        None \<Rightarrow> reply i (err NOT_AUTHENTICATED ''register or log in first'') r
      | Some user \<Rightarrow>
          (case allow (cn_prekey_limiter c) (e_instant env) of (ok, rl) \<Rightarrow>
            let r = upd_conn i (cn_prekey_limiter_update (\<lambda>_. rl)) r
            in if \<not> ok then
                 reply i (err ''rate_limited'' ''publishing prekeys too fast; slow down'') r
               else if length keys > MAX_PREKEY_BATCH then
                 reply i (err BAD_REQUEST ''too many prekeys in one batch'') r
               else if list_ex (bad_prekey P) keys then
                 reply i (err BAD_REQUEST
                   ''each prekey needs a short key_id and a base64 32-byte curve25519 key'') r
               else case count_unused_prekeys (r_db r) user of
                      Inl e \<Rightarrow> reply i internal_error r
                    | Inr existing \<Rightarrow>
                        if existing + length keys > MAX_UNUSED_PREKEYS then
                          reply i (err ''prekeys_full''
                            ''you already have the maximum number of unused prekeys stored'') r
                        else (case insert_prekeys (r_db r) user keys of
                                (True, d) \<Rightarrow> reply i (OkMsg None) (r\<lparr>r_db := d\<rparr>)
                              | (False, d) \<Rightarrow> reply i internal_error (r\<lparr>r_db := d\<rparr>))))"

definition handle_fetch_prekeys ::
    "env \<Rightarrow> nat \<Rightarrow> conn \<Rightarrow> string \<Rightarrow> relay \<Rightarrow> relay" where
  "handle_fetch_prekeys env i c username r =
     (case cn_authed c of
        None \<Rightarrow> reply i (err NOT_AUTHENTICATED ''register or log in first'') r
      | Some _ \<Rightarrow>
          (case fetch_allowed (r_gate r) (e_instant env) username of (ok, g) \<Rightarrow>
            let r = r\<lparr>r_gate := g\<rparr>
            in if \<not> ok then
                 reply i (err ''rate_limited''
                   ''too many prekey fetches for that user; slow down'') r
               else case fetch_bundle (r_db r) username of
                      Inr (Some (rec, otk), d) \<Rightarrow>
                        reply i (PrekeyBundle (ur_username rec) (ur_uuid rec) (ur_ed25519 rec)
                          (ur_curve25519 rec) (map_option fst otk) (map_option snd otk))
                          (r\<lparr>r_db := d\<rparr>)
                    | Inr (None, d) \<Rightarrow> reply i (err UNKNOWN_USER ''no such user'') (r\<lparr>r_db := d\<rparr>)
                    | Inl e \<Rightarrow> reply i internal_error r))"

subsection \<open>Relaying\<close>

text \<open>What the fan-out keeps: the relay, \<open>delivered_any\<close> and \<open>had_unknown\<close>.\<close>

type_synonym fan_state = "relay \<times> bool \<times> bool"

definition deliver_one ::
    "string \<Rightarrow> server_msg \<Rightarrow> string \<Rightarrow> millis \<Rightarrow> string \<Rightarrow> fan_state \<Rightarrow> fan_state" where
  "deliver_one sender deliver frame ts recipient st =
     (case st of (r, any, unknown) \<Rightarrow>
        if recipient = sender then (r, any, unknown)
        else
          let rtx = map_of (r_online r) recipient;
              exists = (case username_exists (r_db r) recipient of Inr b \<Rightarrow> b | Inl e \<Rightarrow> False)
          in if \<not> exists then (r, any, True)
             else case rtx of
                    Some k \<Rightarrow>
                      (case try_send_to k deliver r of
                         (True, r') \<Rightarrow> (r', True, unknown)
                       | (False, r') \<Rightarrow>
                           (case enqueue_frame_str recipient frame ts r' of
                              (ok, r'') \<Rightarrow> (r'', any \<or> ok, unknown)))
                  | None \<Rightarrow>
                      (case enqueue_frame_str recipient frame ts r of
                         (ok, r') \<Rightarrow> (r', any \<or> ok, unknown)))"

text \<open>The loop over \<open>to.iter().filter(|r| seen.insert(..))\<close>.\<close>

fun fan_out ::
    "string \<Rightarrow> server_msg \<Rightarrow> string \<Rightarrow> millis \<Rightarrow> string list \<Rightarrow> string list \<Rightarrow> fan_state \<Rightarrow> fan_state" where
  "fan_out sender deliver frame ts seen [] st = st"
| "fan_out sender deliver frame ts seen (x # xs) st =
     (if List.member seen x then fan_out sender deliver frame ts seen xs st
      else fan_out sender deliver frame ts (x # seen) xs (deliver_one sender deliver frame ts x st))"

definition handle_send ::
    "prims \<Rightarrow> env \<Rightarrow> nat \<Rightarrow> conn \<Rightarrow> string list \<Rightarrow> string \<Rightarrow> string \<Rightarrow> string option \<Rightarrow> millis \<Rightarrow>
     relay \<Rightarrow> relay" where
  "handle_send P env i c recipients msg_type payload group_id client_ts r =
     (case cn_authed c of
        None \<Rightarrow> reply i (err NOT_AUTHENTICATED ''register or log in first'') r
      | Some sender \<Rightarrow>
          (case allow (cn_send_limiter c) (e_instant env) of (ok, rl) \<Rightarrow>
            let r = upd_conn i (cn_send_limiter_update (\<lambda>_. rl)) r
            in if \<not> ok then reply i (err ''rate_limited'' ''sending too fast; slow down'') r
               else if length payload > MAX_PAYLOAD then
                 reply i (err BAD_REQUEST ''payload too large'') r
               else if length recipients > MAX_RECIPIENTS then
                 reply i (err BAD_REQUEST ''too many recipients'') r
               else
                 let deliver = Deliver sender recipients msg_type payload group_id (e_now env) client_ts
                 in case to_json P deliver of
                      None \<Rightarrow> reply i internal_error r
                    | Some frame \<Rightarrow>
                        (case fan_out sender deliver frame (e_now env) [] recipients (r, False, False) of
                           (r', any, unknown) \<Rightarrow>
                             if \<not> any \<and> unknown
                             then reply i (err UNKNOWN_USER ''no such recipient'') r'
                             else reply i (OkMsg None) r')))"

definition handle_pull :: "nat \<Rightarrow> conn \<Rightarrow> relay \<Rightarrow> relay" where
  "handle_pull i c r =
     (case cn_authed c of
        Some u \<Rightarrow> start_flush i u r
      | None \<Rightarrow> reply i (err NOT_AUTHENTICATED ''register or log in first'') r)"

section \<open>The read loop\<close>

datatype frame_in = Malformed | Frame client_msg

definition dispatch :: "prims \<Rightarrow> server_config \<Rightarrow> env \<Rightarrow> nat \<Rightarrow> conn \<Rightarrow> client_msg \<Rightarrow> relay \<Rightarrow> relay" where
  "dispatch P cfg env i c m r =
     (case m of
        AttestRequest nonce \<Rightarrow> handle_attest P env i nonce r
      | ClientHello bh v \<Rightarrow> handle_client_hello i bh v r
      | GetServerInfo \<Rightarrow> handle_get_server_info P cfg i r
      | Register u ed cv mid \<Rightarrow> handle_register P cfg env i c u ed cv mid r
      | AuthBegin u \<Rightarrow> handle_auth_begin P env i u r
      | AuthFinish u sg \<Rightarrow> handle_auth_finish P cfg i c u sg r
      | PublishPrekeys ks \<Rightarrow> handle_publish_prekeys P env i c ks r
      | FetchPrekeys u \<Rightarrow> handle_fetch_prekeys env i c u r
      | SendMsg to ty pl g ts \<Rightarrow> handle_send P env i c to ty pl g ts r
      | Pull \<Rightarrow> handle_pull i c r
      | Ping \<Rightarrow> reply i Pong r)"

text \<open>One turn of the loop of \<open>handle\<close>; requests before login pass the connection's limiter.\<close>

definition handle_frame :: "prims \<Rightarrow> server_config \<Rightarrow> env \<Rightarrow> nat \<Rightarrow> frame_in \<Rightarrow> relay \<Rightarrow> relay" where
  "handle_frame P cfg env i f r =
     (case r_conns r i of None \<Rightarrow> r | Some c \<Rightarrow>
        (case f of
           Malformed \<Rightarrow> reply i (err BAD_REQUEST ''malformed or unknown message'') r
         | Frame m \<Rightarrow>
             if cn_authed c = None then
               (case allow (cn_preauth_limiter c) (e_instant env) of (ok, rl) \<Rightarrow>
                  let r = upd_conn i (cn_preauth_limiter_update (\<lambda>_. rl)) r
                  in if \<not> ok then
                       reply i (err ''rate_limited'' ''too many requests; slow down'') r
                     else dispatch P cfg env i c m r)
             else dispatch P cfg env i c m r))"

text \<open>The end of \<open>handle\<close>: the presence entry goes only if it is this connection's.\<close>

definition end_reader :: "nat \<Rightarrow> relay \<Rightarrow> relay" where
  "end_reader i r =
     (case r_conns r i of None \<Rightarrow> r | Some c \<Rightarrow>
        (let r' = upd_conn i (\<lambda>c. c\<lparr>cn_authed := None, cn_reading := False\<rparr>) r
         in case cn_authed c of
              None \<Rightarrow> r'
            | Some u \<Rightarrow> if map_of (r_online r') u = Some i
                        then r'\<lparr>r_online := AList.delete u (r_online r')\<rparr> else r'))"

text \<open>One turn of the writer task, whose write to the socket succeeds or not.\<close>

definition writer_step :: "bool \<Rightarrow> nat \<Rightarrow> relay \<Rightarrow> relay" where
  "writer_step ok i r =
     upd_conn i (\<lambda>c. case ch_queue (cn_chan c) of
         [] \<Rightarrow> c
       | m # ms \<Rightarrow>
           if ch_closed (cn_chan c) then c
           else if ok then c\<lparr>cn_chan := (cn_chan c)\<lparr>ch_queue := ms, ch_sent := ch_sent (cn_chan c) @ [m]\<rparr>\<rparr>
           else c\<lparr>cn_chan := (cn_chan c)\<lparr>ch_queue := [], ch_closed := True\<rparr>\<rparr>) r"

end
