(* ===== verification/Server_Relay.thy ===== *)
theory Server_Relay
  imports Server_Conn
begin

text \<open>
  The relay as a transition system: the steps that its tasks take on the shared state, what holds in
  every reachable state, and what a step can do (who may log in, what a recipient gets).
\<close>

section \<open>How the handler's helpers act on the state\<close>

definition push :: "server_msg \<Rightarrow> channel \<Rightarrow> channel" where
  "push m ch = snd (try_send ch m)"

definition accepts :: "relay \<Rightarrow> nat \<Rightarrow> bool" where
  "accepts r i = (case r_conns r i of None \<Rightarrow> False
     | Some c \<Rightarrow> \<not> ch_closed (cn_chan c) \<and> length (ch_queue (cn_chan c)) < OUTBOUND_CAP)"

lemma upd_conn_simps [simp]:
  "r_db (upd_conn i f r) = r_db r" "r_online (upd_conn i f r) = r_online r"
  "r_gate (upd_conn i f r) = r_gate r"
  "r_conns (upd_conn i f r) = (r_conns r)(i := map_option f (r_conns r i))"
  by (simp_all add: upd_conn_def)

lemma push_fields [simp]:
  "ch_sent (push m ch) = ch_sent ch" "ch_closed (push m ch) = ch_closed ch"
  "set (ch_queue (push m ch)) \<subseteq> insert m (set (ch_queue ch))"
  by (auto simp: push_def try_send_def)

lemma push_in: "x \<in> set (ch_queue (push m ch)) \<Longrightarrow> x = m \<or> x \<in> set (ch_queue ch)"
  by (auto simp: push_def try_send_def split: if_splits)

lemma try_send_to_eq: "try_send_to i m r = (accepts r i, upd_conn i (cn_chan_update (push m)) r)"
proof (cases "r_conns r i")
  case None
  then have "(r_conns r)(i := None) = r_conns r" by auto
  with None show ?thesis by (simp add: try_send_to_def accepts_def upd_conn_def)
next
  case (Some c)
  then show ?thesis
    by (cases c) (auto simp: try_send_to_def accepts_def upd_conn_def push_def try_send_def)
qed

lemma reply_eq: "reply i m r = upd_conn i (cn_chan_update (push m)) r"
  by (simp add: reply_def try_send_to_eq)

lemma start_flush_simps [simp]:
  "r_db (start_flush i u r) = r_db r" "r_online (start_flush i u r) = r_online r"
  by (auto simp: start_flush_def split: sum.split)

section \<open>Steps\<close>

text \<open>The maintenance broadcast of backend/server/src/main.rs: one notice through every sender.\<close>

definition broadcast :: "server_msg \<Rightarrow> relay \<Rightarrow> relay" where
  "broadcast notice r = fold (\<lambda>k r. reply k notice r) (map snd (r_online r)) r"

definition init_relay :: "db \<Rightarrow> relay" where
  "init_relay d = \<lparr>r_db = d, r_online = [], r_conns = (\<lambda>_. None), r_gate = new_fetch_gate\<rparr>"

inductive relay_step :: "prims \<Rightarrow> server_config \<Rightarrow> relay \<Rightarrow> relay \<Rightarrow> bool"
  for P cfg where
  accept_conn: "r_conns r i = None \<Longrightarrow>
     relay_step P cfg r (r\<lparr>r_conns := (r_conns r)(i := Some (new_conn now))\<rparr>)"
| read_frame: "r_conns r i = Some c \<Longrightarrow> cn_reading c \<Longrightarrow> cn_flush c = None \<Longrightarrow>
     relay_step P cfg r (handle_frame P cfg env i f r)"
| flush: "flush_step P i r = Some r' \<Longrightarrow> relay_step P cfg r r'"
| write_frame: "relay_step P cfg r (writer_step ok i r)"
| close: "r_conns r i = Some c \<Longrightarrow> cn_reading c \<Longrightarrow> cn_flush c = None \<Longrightarrow>
     relay_step P cfg r (end_reader i r)"
| prune: "prune_expired (r_db r) cutoff = Inr (n, d) \<Longrightarrow> relay_step P cfg r (r\<lparr>r_db := d\<rparr>)"
| db_fault: "relay_step P cfg r (r\<lparr>r_db := (r_db r)\<lparr>db_up := up\<rparr>\<rparr>)"
| notice: "relay_step P cfg r (broadcast (Maintenance reason deadline version) r)"

inductive_cases relay_stepE: "relay_step P cfg r r'"

inductive reachable :: "prims \<Rightarrow> server_config \<Rightarrow> db \<Rightarrow> relay \<Rightarrow> bool" for P cfg d where
  start: "reachable P cfg d (init_relay d)"
| next_step: "reachable P cfg d r \<Longrightarrow> relay_step P cfg r r' \<Longrightarrow> reachable P cfg d r'"

section \<open>The invariant\<close>

definition registered :: "db \<Rightarrow> string \<Rightarrow> bool" where
  "registered d u \<longleftrightarrow> u \<in> u_username ` set (users d)"

text \<open>A message that \<open>u\<close> may get: a relayed one names \<open>u\<close> and comes from somebody else, registered.\<close>

definition deliver_ok :: "db \<Rightarrow> string \<Rightarrow> server_msg \<Rightarrow> bool" where
  "deliver_ok d u m = (case m of
     Deliver sender recipients ty pl g ts cts \<Rightarrow>
       registered d sender \<and> sender \<noteq> u \<and> u \<in> set recipients
   | _ \<Rightarrow> True)"

definition is_deliver :: "server_msg \<Rightarrow> bool" where
  "is_deliver m = (case m of Deliver a b c e f g h \<Rightarrow> True | _ \<Rightarrow> False)"

definition frame_ok :: "prims \<Rightarrow> db \<Rightarrow> string \<Rightarrow> string \<Rightarrow> bool" where
  "frame_ok P d u f = (case from_json P f of None \<Rightarrow> True | Some m \<Rightarrow> deliver_ok d u m)"

definition db_ok :: "prims \<Rightarrow> db \<Rightarrow> bool" where
  "db_ok P d \<longleftrightarrow> db_inv d \<and>
     (\<forall>x \<in> set (outbox d). registered d (ob_recipient x) \<and> frame_ok P d (ob_recipient x) (ob_frame x)) \<and>
     (\<forall>u. length (rows_of d u) \<le> MAX_OUTBOX_PER_RECIPIENT \<and>
        chars_queued d u \<le> MAX_OUTBOX_BYTES_PER_RECIPIENT) \<and>
     (\<forall>u. length (unused_of d u) \<le> MAX_UNUSED_PREKEYS) \<and>
     (\<forall>x \<in> set (users d). is_registerable_username (u_username x) \<and>
        valid_pubkey_b64 P (u_ed25519 x) \<and> valid_pubkey_b64 P (u_curve25519 x))"

definition conn_ok :: "prims \<Rightarrow> db \<Rightarrow> conn \<Rightarrow> bool" where
  "conn_ok P d c \<longleftrightarrow>
     length (ch_queue (cn_chan c)) \<le> OUTBOUND_CAP \<and>
     (\<not> cn_reading c \<longrightarrow> cn_authed c = None) \<and>
     (\<forall>u. cn_authed c = Some u \<longrightarrow> registered d u) \<and>
     (cn_reading c \<longrightarrow> (\<forall>m \<in> set (ch_queue (cn_chan c)) \<union> set (ch_sent (cn_chan c)). is_deliver m \<longrightarrow>
        (\<exists>u. cn_authed c = Some u \<and> deliver_ok d u m))) \<and>
     (\<forall>fl. cn_flush c = Some fl \<longrightarrow>
        (\<exists>u. cn_authed c = Some u \<and> (\<forall>(i, f) \<in> set (fl_rows fl). frame_ok P d u f)))"

definition presence_ok :: "relay \<Rightarrow> bool" where
  "presence_ok r \<longleftrightarrow> distinct (map fst (r_online r)) \<and>
     (\<forall>u i. map_of (r_online r) u = Some i \<longrightarrow>
        (\<exists>c. r_conns r i = Some c \<and> cn_authed c = Some u \<and> cn_reading c))"

definition relay_inv :: "prims \<Rightarrow> relay \<Rightarrow> bool" where
  "relay_inv P r \<longleftrightarrow> db_ok P (r_db r) \<and> presence_ok r \<and>
     (\<forall>i c. r_conns r i = Some c \<longrightarrow> conn_ok P (r_db r) c)"

definition json_roundtrip :: "prims \<Rightarrow> bool" where
  "json_roundtrip P \<longleftrightarrow> (\<forall>m f. to_json P m = Some f \<longrightarrow> from_json P f = Some m)"

subsection \<open>Growing the directory, changing a connection\<close>

lemma registered_mono: "set (users d) \<subseteq> set (users d') \<Longrightarrow> registered d u \<Longrightarrow> registered d' u"
  by (auto simp: registered_def)

lemma deliver_ok_mono: "set (users d) \<subseteq> set (users d') \<Longrightarrow> deliver_ok d u m \<Longrightarrow> deliver_ok d' u m"
  by (auto simp: deliver_ok_def registered_mono split: server_msg.splits)

lemma frame_ok_mono: "set (users d) \<subseteq> set (users d') \<Longrightarrow> frame_ok P d u f \<Longrightarrow> frame_ok P d' u f"
  by (auto simp: frame_ok_def deliver_ok_mono split: option.splits)

lemma conn_ok_mono:
  assumes sub: "set (users d) \<subseteq> set (users d')" and ok: "conn_ok P d c"
  shows "conn_ok P d' c"
proof -
  have "registered d' u" if "cn_authed c = Some u" for u
    using ok that registered_mono [OF sub] unfolding conn_ok_def by blast
  moreover have "\<exists>u. cn_authed c = Some u \<and> deliver_ok d' u m"
    if "cn_reading c" "m \<in> set (ch_queue (cn_chan c)) \<union> set (ch_sent (cn_chan c))" "is_deliver m" for m
  proof -
    from ok that obtain u where "cn_authed c = Some u" "deliver_ok d u m"
      unfolding conn_ok_def by blast
    then show ?thesis using deliver_ok_mono [OF sub] by blast
  qed
  moreover have "\<exists>u. cn_authed c = Some u \<and> (\<forall>(i, f) \<in> set (fl_rows fl). frame_ok P d' u f)"
    if "cn_flush c = Some fl" for fl
  proof -
    from ok that obtain u where "cn_authed c = Some u" "\<forall>(i, f) \<in> set (fl_rows fl). frame_ok P d u f"
      unfolding conn_ok_def by blast
    then show ?thesis using frame_ok_mono [OF sub] by blast
  qed
  ultimately show ?thesis using ok unfolding conn_ok_def by blast
qed

lemma relay_inv_db:
  "relay_inv P r \<Longrightarrow> db_ok P d \<Longrightarrow> set (users (r_db r)) \<subseteq> set (users d) \<Longrightarrow> relay_inv P (r\<lparr>r_db := d\<rparr>)"
  by (auto simp: relay_inv_def presence_ok_def intro: conn_ok_mono)

text \<open>A change of the connection that leaves its user and reading state alone.\<close>

lemma relay_inv_upd:
  assumes "relay_inv P r"
    and "\<And>c. r_conns r i = Some c \<Longrightarrow> cn_authed (f c) = cn_authed c \<and> cn_reading (f c) = cn_reading c
      \<and> conn_ok P (r_db r) (f c)"
  shows "relay_inv P (upd_conn i f r)"
proof -
  have "\<exists>c'. (r_conns (upd_conn i f r)) j = Some c' \<and> cn_authed c' = cn_authed c \<and> cn_reading c' = cn_reading c"
    if "r_conns r j = Some c" for j c
    using that assms(2) by auto
  then have "presence_ok (upd_conn i f r)"
    using assms(1) unfolding relay_inv_def presence_ok_def by (metis upd_conn_simps(2))
  then show ?thesis
    using assms by (auto simp: relay_inv_def)
qed

lemma conn_ok_push:
  "conn_ok P d c \<Longrightarrow> (is_deliver m \<Longrightarrow> \<exists>u. cn_authed c = Some u \<and> deliver_ok d u m) \<Longrightarrow>
     conn_ok P d (cn_chan_update (push m) c)"
  by (auto simp: conn_ok_def push_def try_send_def)

lemma reply_inv [inv_intros]: "relay_inv P r \<Longrightarrow> \<not> is_deliver m \<Longrightarrow> relay_inv P (reply i m r)"
  unfolding reply_eq
  by (rule relay_inv_upd) (auto simp: relay_inv_def intro!: conn_ok_push)

section \<open>The database operations of the handler keep the invariant\<close>

lemma db_ok_same_tables:
  "db_ok P d \<Longrightarrow> db_inv d' \<Longrightarrow> users d' = users d \<Longrightarrow> set (outbox d') \<subseteq> set (outbox d) \<Longrightarrow>
   (\<And>u. length (rows_of d' u) \<le> length (rows_of d u)) \<Longrightarrow>
   (\<And>u. chars_queued d' u \<le> chars_queued d u) \<Longrightarrow>
   (\<And>u. length (unused_of d' u) \<le> MAX_UNUSED_PREKEYS) \<Longrightarrow> db_ok P d'"
  unfolding db_ok_def
  by (metis (no_types, lifting) frame_ok_mono le_trans registered_def subsetD subset_refl)

lemma rows_of_filter: "rows_of (c\<lparr>outbox := filter Q (outbox c)\<rparr>) u = filter Q (rows_of c u)"
  by (simp add: rows_of_def conj_commute)

lemma filter_outbox_ok:
  "db_ok P d \<Longrightarrow> db_ok P (d\<lparr>outbox := filter Q (outbox d)\<rparr>)"
  by (rule db_ok_same_tables [of P d])
    (auto simp: db_ok_def db_inv_def sorted_wrt_less_map_filter rows_of_filter chars_queued_def
      unused_of_def sum_list_filter_le)

lemma delete_frames_ok [inv_intros]: "db_ok P d \<Longrightarrow> delete_frames d ids = Inr d' \<Longrightarrow> db_ok P d'"
  by (auto simp: delete_frames_def query_def filter_outbox_ok split: if_splits)

lemma prune_expired_ok [inv_intros]: "db_ok P d \<Longrightarrow> prune_expired d t = Inr (n, d') \<Longrightarrow> db_ok P d'"
  by (auto simp: prune_expired_def query_def filter_outbox_ok split: if_splits)

lemma db_up_ok [inv_intros]: "db_ok P d \<Longrightarrow> db_ok P (d\<lparr>db_up := b\<rparr>)"
  by (rule db_ok_same_tables [of P d])
    (auto simp: db_ok_def db_inv_def rows_of_def chars_queued_def unused_of_def)

lemma unused_mark_used:
  "length (unused_of (d\<lparr>prekeys := mark_used i (prekeys d)\<rparr>) u) \<le> length (unused_of d u)"
proof -
  have "length (filter (\<lambda>p. pk_username p = u \<and> \<not> pk_used p) (mark_used i ps))
      \<le> length (filter (\<lambda>p. pk_username p = u \<and> \<not> pk_used p) ps)" for ps
    by (induction ps) (auto simp: mark_used_def)
  then show ?thesis by (simp add: unused_of_def)
qed

lemma take_prekey_ok [inv_intros]:
  assumes "db_ok P d" and "take_prekey d u = Inr (x, d')" shows "db_ok P d'"
proof -
  have inv: "db_inv d'" using assms take_prekey_inv by (auto simp: db_ok_def)
  from assms(2) obtain i where "d' = d \<or> d' = d\<lparr>prekeys := mark_used i (prekeys d)\<rparr>"
    by (auto simp: take_prekey_def split: if_splits list.splits)
  then show ?thesis
  proof
    assume d': "d' = d\<lparr>prekeys := mark_used i (prekeys d)\<rparr>"
    have "length (unused_of d' v) \<le> MAX_UNUSED_PREKEYS" for v
      using assms(1) unused_mark_used [of i d v] d' unfolding db_ok_def by (metis le_trans)
    then show ?thesis
      by (intro db_ok_same_tables [OF assms(1) inv]) (simp_all add: d' rows_of_def chars_queued_def)
  qed (simp add: assms(1))
qed

lemma fetch_bundle_ok [inv_intros]:
  "db_ok P d \<Longrightarrow> fetch_bundle d u = Inr (x, d') \<Longrightarrow> db_ok P d'"
  by (auto simp: fetch_bundle_def res_bind_Inr_iff intro: take_prekey_ok split: option.splits prod.splits)

lemma fetch_bundle_users: "fetch_bundle d u = Inr (x, d') \<Longrightarrow> users d' = users d"
  by (auto simp: fetch_bundle_def res_bind_Inr_iff take_prekey_def
      split: option.splits prod.splits if_splits list.splits)

lemma insert_prekeys_frame:
  "insert_prekeys d u ks = (ok, d') \<Longrightarrow>
     users d' = users d \<and> outbox d' = outbox d \<and> db_up d' = db_up d \<and> (db_inv d \<longrightarrow> db_inv d')
     \<and> length (unused_of d' u) \<le> length (unused_of d u) + length ks
     \<and> (\<forall>v. v \<noteq> u \<longrightarrow> unused_of d' v = unused_of d v)"
proof (induction d u ks rule: insert_prekeys.induct)
  case (1 d u)
  then show ?case by simp
next
  case (2 d u k ks)
  show ?case
  proof (cases "insert_prekey d u (otk_key_id k) (otk_curve25519 k)")
    case (Inl e)
    with 2 show ?thesis by simp
  next
    case (Inr d1)
    have "users d1 = users d \<and> outbox d1 = outbox d \<and> db_up d1 = db_up d \<and> (db_inv d \<longrightarrow> db_inv d1)"
      using Inr insert_prekey_inv by (auto simp: insert_prekey_def query_def split: if_splits)
    moreover have "length (unused_of d1 u) \<le> Suc (length (unused_of d u))"
        "\<forall>v. v \<noteq> u \<longrightarrow> unused_of d1 v = unused_of d v"
      using Inr by (auto simp: insert_prekey_def query_def unused_of_def split: if_splits)
    ultimately show ?thesis using 2 Inr by auto
  qed
qed

lemma insert_prekeys_ok [inv_intros]:
  assumes "db_ok P d" and "insert_prekeys d u ks = (ok, d')"
    and "length (unused_of d u) + length ks \<le> MAX_UNUSED_PREKEYS"
  shows "db_ok P d'"
proof (rule db_ok_same_tables [OF assms(1)])
  note f = insert_prekeys_frame [OF assms(2)]
  show "length (unused_of d' v) \<le> MAX_UNUSED_PREKEYS" for v
    using f assms(1,3) by (cases "v = u") (auto simp: db_ok_def)
qed (use insert_prekeys_frame [OF assms(2)] assms(1) in \<open>auto simp: db_ok_def rows_of_def chars_queued_def\<close>)

lemma insert_user_ok [inv_intros]:
  assumes ok: "db_ok P d" and ins: "insert_user d uuid u ed cv mid ts = Inr d'"
    and "is_registerable_username u" "valid_pubkey_b64 P ed" "valid_pubkey_b64 P cv"
  shows "db_ok P d'"
proof -
  obtain row where d': "d' = d\<lparr>users := users d @ [row]\<rparr>" "u_username row = u" "u_ed25519 row = ed"
      "u_curve25519 row = cv"
    using ins by (auto simp: insert_user_def split: if_splits)
  have sub: "set (users d) \<subseteq> set (users d')" by (auto simp: d')
  have "db_inv d'" using ok ins insert_user_inv by (auto simp: db_ok_def)
  moreover have "\<forall>x \<in> set (outbox d'). registered d' (ob_recipient x) \<and> frame_ok P d' (ob_recipient x) (ob_frame x)"
    using ok registered_mono [OF sub] frame_ok_mono [OF sub] by (auto simp: db_ok_def d'(1))
  ultimately show ?thesis
    using ok assms(3-) d' by (auto simp: db_ok_def rows_of_def chars_queued_def unused_of_def)
qed

lemma insert_user_registered:
  "insert_user d uuid u ed cv mid ts = Inr d' \<Longrightarrow> registered d' u \<and> set (users d) \<subseteq> set (users d')"
  by (auto simp: insert_user_def registered_def split: if_splits)

lemma enqueue_ok [inv_intros]:
  assumes ok: "db_ok P d" and enq: "enqueue_if_under_cap d u f ts MAX_OUTBOX_PER_RECIPIENT
      MAX_OUTBOX_BYTES_PER_RECIPIENT = Inr (b, d')" and "registered d u" "frame_ok P d u f"
  shows "db_ok P d'"
proof -
  have caps: "length (rows_of d' v) \<le> MAX_OUTBOX_PER_RECIPIENT
      \<and> chars_queued d' v \<le> MAX_OUTBOX_BYTES_PER_RECIPIENT" for v
    using outbox_queue.add_within [of d MAX_OUTBOX_PER_RECIPIENT MAX_OUTBOX_BYTES_PER_RECIPIENT u "(f, ts)" b d' v]
      ok enq by (auto simp: db_ok_def)
  have inv: "db_inv d'" using ok enq enqueue_if_under_cap_inv by (auto simp: db_ok_def)
  from enq consider "d' = d" | "enqueue d u f ts = Inr d'"
    by (auto simp: enqueue_if_under_cap_Inr split: if_splits)
  then show ?thesis
  proof cases
    case 2
    then have d': "users d' = users d" "prekeys d' = prekeys d"
      "\<forall>x \<in> set (outbox d'). x \<in> set (outbox d) \<or> ob_recipient x = u \<and> ob_frame x = f"
      by (auto simp: enqueue_def query_def split: if_splits)
    have "registered d' = registered d" "frame_ok P d' = frame_ok P d"
      using d'(1) frame_ok_mono [of d d' P] frame_ok_mono [of d' d P]
      by (auto simp: registered_def fun_eq_iff)
    with d' assms inv caps show ?thesis by (auto simp: db_ok_def unused_of_def)
  qed (simp add: ok)
qed

section \<open>The handler keeps the invariant\<close>

lemma conn_ok_fields [simp]:
  "conn_ok P d (cn_send_limiter_update f c) = conn_ok P d c"
  "conn_ok P d (cn_prekey_limiter_update f c) = conn_ok P d c"
  "conn_ok P d (cn_preauth_limiter_update f c) = conn_ok P d c"
  "conn_ok P d (cn_pending_nonce_update g c) = conn_ok P d c"
  "conn_ok P d (cn_build_hash_update h c) = conn_ok P d c"
  by (simp_all add: conn_ok_def)

lemma relay_inv_conn: "relay_inv P r \<Longrightarrow> r_conns r i = Some c \<Longrightarrow> conn_ok P (r_db r) c"
  by (simp add: relay_inv_def)

lemma relay_inv_upd_field [inv_intros]:
  "relay_inv P r \<Longrightarrow> relay_inv P (upd_conn i (cn_send_limiter_update f) r)"
  "relay_inv P r \<Longrightarrow> relay_inv P (upd_conn i (cn_prekey_limiter_update f) r)"
  "relay_inv P r \<Longrightarrow> relay_inv P (upd_conn i (cn_preauth_limiter_update f) r)"
  "relay_inv P r \<Longrightarrow> relay_inv P (upd_conn i (cn_pending_nonce_update g) r)"
  "relay_inv P r \<Longrightarrow> relay_inv P (upd_conn i (cn_build_hash_update h) r)"
  by (rule relay_inv_upd; simp add: relay_inv_conn)+

lemma relay_inv_gate [inv_intros]: "relay_inv P r \<Longrightarrow> relay_inv P (r\<lparr>r_gate := g\<rparr>)"
  by (auto simp: relay_inv_def presence_ok_def)

lemma online_conn:
  "relay_inv P r \<Longrightarrow> map_of (r_online r) u = Some i \<Longrightarrow>
     \<exists>c. r_conns r i = Some c \<and> cn_authed c = Some u \<and> cn_reading c"
  unfolding relay_inv_def presence_ok_def by blast

lemma not_deliver [simp]:
  "\<not> is_deliver (err a b)" "\<not> is_deliver internal_error" "\<not> is_deliver (OkMsg v)"
  "\<not> is_deliver Pong" "\<not> is_deliver (AuthOk a b)" "\<not> is_deliver (Challenge a)"
  "\<not> is_deliver (AttestResponse j)" "\<not> is_deliver (ServerInfo a b x y z)"
  "\<not> is_deliver (PrekeyBundle a b x y k1 k2)" "\<not> is_deliver (Maintenance a t v)"
  by (simp_all add: is_deliver_def err_def internal_error_def)

lemma pending_frames_ok:
  assumes "db_ok P d" "pending_frames d u = Inr rows" "(i, f) \<in> set rows"
  shows "frame_ok P d u f"
proof -
  have "\<exists>x \<in> set (rows_of d u). ob_frame x = f"
    using assms by (auto simp: pending_frames_def query_def split: if_splits)
  with assms(1) show ?thesis by (auto simp: db_ok_def rows_of_def)
qed

lemma start_flush_inv [inv_intros]:
  assumes inv: "relay_inv P r" and u: "\<And>c. r_conns r i = Some c \<Longrightarrow> cn_authed c = Some u"
  shows "relay_inv P (start_flush i u r)"
proof (cases "pending_frames (r_db r) u")
  case (Inl e)
  with inv show ?thesis by (simp add: start_flush_def)
next
  case (Inr rows)
  have rows: "\<forall>(j, f) \<in> set rows. frame_ok P (r_db r) u f"
    using inv pending_frames_ok [OF _ Inr] by (auto simp: relay_inv_def)
  have "relay_inv P (upd_conn i (cn_flush_update (\<lambda>_. Some \<lparr>fl_rows = rows, fl_delivered = []\<rparr>)) r)"
  proof (rule relay_inv_upd [OF inv])
    fix c assume c: "r_conns r i = Some c"
    show "cn_authed (cn_flush_update (\<lambda>_. Some \<lparr>fl_rows = rows, fl_delivered = []\<rparr>) c) = cn_authed c \<and>
        cn_reading (cn_flush_update (\<lambda>_. Some \<lparr>fl_rows = rows, fl_delivered = []\<rparr>) c) = cn_reading c \<and>
        conn_ok P (r_db r) (cn_flush_update (\<lambda>_. Some \<lparr>fl_rows = rows, fl_delivered = []\<rparr>) c)"
      using relay_inv_conn [OF inv c] rows u [OF c] by (simp add: conn_ok_def)
  qed
  with Inr inv show ?thesis by (simp add: start_flush_def)
qed

text \<open>Before login nothing has been relayed to the connection, so it may become anybody.\<close>

lemma log_in_inv [inv_intros]:
  assumes inv: "relay_inv P r" and c: "r_conns r i = Some c" "cn_authed c = None" "cn_reading c"
    "cn_flush c = None" and reg: "registered (r_db r) u"
  shows "relay_inv P (log_in i uuid u r)"
proof -
  let ?c = "cn_authed_update (\<lambda>_. Some u) c"
  let ?r = "(upd_conn i (cn_authed_update (\<lambda>_. Some u)) r)\<lparr>r_online := AList.update u i (r_online r)\<rparr>"
  note ok = relay_inv_conn [OF inv c(1)]
  have "conn_ok P (r_db r) ?c"
    using ok c reg by (auto simp: conn_ok_def)
  moreover have "presence_ok ?r"
    unfolding presence_ok_def
  proof (intro conjI allI impI)
    show "distinct (map fst (r_online ?r))"
      using inv by (simp add: relay_inv_def presence_ok_def distinct_update)
  next
    fix v j assume v: "map_of (r_online ?r) v = Some j"
    show "\<exists>c. r_conns ?r j = Some c \<and> cn_authed c = Some v \<and> cn_reading c"
    proof (cases "v = u")
      case True
      with v c show ?thesis by (simp add: update_conv')
    next
      case False
      with v have "map_of (r_online r) v = Some j" by (simp add: update_conv')
      from online_conn [OF inv this] obtain d where "r_conns r j = Some d" "cn_authed d = Some v"
          "cn_reading d" by blast
      with c(1,2) show ?thesis by (cases "j = i") auto
    qed
  qed
  ultimately have "relay_inv P ?r"
    using inv c(1) by (auto simp: relay_inv_def)
  then have "relay_inv P (reply i (AuthOk uuid u) ?r)" by (rule reply_inv) simp
  then have "relay_inv P (start_flush i u (reply i (AuthOk uuid u) ?r))"
    by (rule start_flush_inv) (simp add: reply_eq c(1))
  then show ?thesis by (simp add: log_in_def Let_def)
qed

lemma username_exists_registered: "username_exists d u = Inr True \<Longrightarrow> registered d u"
  by (auto simp: username_exists_def query_def registered_def filter_empty_conv split: if_splits)

lemma lookup_registered: "lookup_user d u = Inr (Some rec) \<Longrightarrow> registered d u"
  by (auto simp: lookup_user_def query_def registered_def find_Some_iff in_set_conv_nth
      split: if_splits option.splits intro!: image_eqI)

lemma enqueue_frame_str_inv [inv_intros]:
  assumes inv: "relay_inv P r" and "registered (r_db r) u" "frame_ok P (r_db r) u f"
  shows "relay_inv P (snd (enqueue_frame_str u f ts r))
    \<and> users (r_db (snd (enqueue_frame_str u f ts r))) = users (r_db r)"
proof (cases "enqueue_if_under_cap (r_db r) u f ts MAX_OUTBOX_PER_RECIPIENT MAX_OUTBOX_BYTES_PER_RECIPIENT")
  case (Inl e)
  with inv show ?thesis by (simp add: enqueue_frame_str_def)
next
  case (Inr p)
  obtain b d where p: "p = (b, d)" by (cases p)
  have "users d = users (r_db r)"
    using Inr p by (auto simp: enqueue_if_under_cap_Inr enqueue_def query_def split: if_splits)
  moreover have "db_ok P d"
    using enqueue_ok [OF _ Inr [unfolded p]] assms by (auto simp: relay_inv_def)
  ultimately show ?thesis using Inr p inv by (simp add: enqueue_frame_str_def relay_inv_db)
qed

lemma try_send_to_inv [inv_intros]:
  assumes inv: "relay_inv P r" and on: "map_of (r_online r) u = Some k" and "deliver_ok (r_db r) u m"
  shows "relay_inv P (snd (try_send_to k m r))"
proof -
  obtain c where c: "r_conns r k = Some c" "cn_authed c = Some u"
    using online_conn [OF inv on] by blast
  show ?thesis
    unfolding try_send_to_eq snd_conv
  proof (rule relay_inv_upd [OF inv])
    fix c' assume c': "r_conns r k = Some c'"
    have "conn_ok P (r_db r) (cn_chan_update (push m) c')"
      by (rule conn_ok_push) (use c c' assms relay_inv_conn [OF inv c'] in auto)
    then show "cn_authed (cn_chan_update (push m) c') = cn_authed c' \<and>
        cn_reading (cn_chan_update (push m) c') = cn_reading c' \<and>
        conn_ok P (r_db r) (cn_chan_update (push m) c')" by simp
  qed
qed

subsection \<open>The fan-out\<close>

lemma deliver_one_inv:
  assumes "relay_inv P r" and "registered (r_db r) sender" and "x \<in> set recipients"
    and "json_roundtrip P" and m: "m = Deliver sender recipients ty pl g ts cts"
    and "to_json P m = Some f"
  shows "relay_inv P (fst (deliver_one sender m f t x (r, a, b)))
    \<and> users (r_db (fst (deliver_one sender m f t x (r, a, b)))) = users (r_db r)"
proof (cases "x = sender \<or> username_exists (r_db r) x \<noteq> Inr True")
  case True
  then show ?thesis
    using assms(1) by (auto simp: deliver_one_def Let_def split: sum.split)
next
  case False
  then have x: "x \<noteq> sender" "registered (r_db r) x" "username_exists (r_db r) x = Inr True"
    by (auto intro: username_exists_registered)
  have ok: "deliver_ok (r_db r) x m" using assms x by (simp add: deliver_ok_def)
  then have fok: "frame_ok P (r_db r) x f" using assms by (simp add: frame_ok_def json_roundtrip_def)
  show ?thesis
  proof (cases "map_of (r_online r) x")
    case None
    with x enqueue_frame_str_inv [OF assms(1) x(2) fok, of t] show ?thesis
      by (auto simp: deliver_one_def Let_def split: prod.split)
  next
    case (Some k)
    let ?r = "upd_conn k (cn_chan_update (push m)) r"
    have r: "relay_inv P ?r"
      using try_send_to_inv [OF assms(1) Some ok] by (simp add: try_send_to_eq)
    have "relay_inv P (snd (enqueue_frame_str x f t ?r)) \<and>
        users (r_db (snd (enqueue_frame_str x f t ?r))) = users (r_db r)"
      using enqueue_frame_str_inv [OF r, of x f t] x(2) fok by simp
    with r x Some show ?thesis
      by (auto simp: deliver_one_def Let_def try_send_to_eq split: prod.split bool.split)
  qed
qed

lemma fan_out_inv:
  assumes "json_roundtrip P" and m: "m = Deliver sender recipients ty pl g ts cts"
    and "to_json P m = Some f" and "set xs \<subseteq> set recipients"
    and "relay_inv P (fst st)" and "registered (r_db (fst st)) sender"
  shows "relay_inv P (fst (fan_out sender m f t seen xs st))"
  using assms(4-)
proof (induction xs arbitrary: seen st)
  case Nil
  then show ?case by simp
next
  case (Cons x xs)
  obtain r a b where st: "st = (r, a, b)" by (cases st)
  from deliver_one_inv [OF _ _ _ assms(1) m assms(3), of r x t a b] Cons.prems st
  have "relay_inv P (fst (deliver_one sender m f t x st))"
    "users (r_db (fst (deliver_one sender m f t x st))) = users (r_db r)" by auto
  with Cons.IH [of "deliver_one sender m f t x st" "x # seen"] Cons.IH [of st seen] Cons.prems st
  show ?case by (simp add: registered_def)
qed

lemma handle_send_inv [inv_intros]:
  assumes inv: "relay_inv P r" and c: "r_conns r i = Some c'" "cn_authed c' = cn_authed c"
    and "json_roundtrip P"
  shows "relay_inv P (handle_send P env i c recipients ty pl g cts r)"
proof (cases "cn_authed c")
  case None
  then show ?thesis by (simp add: handle_send_def inv reply_inv)
next
  case (Some sender)
  have reg: "registered (r_db r) sender"
    using relay_inv_conn [OF inv c(1)] c(2) Some by (simp add: conn_ok_def)
  obtain ok rl where al: "allow (cn_send_limiter c) (e_instant env) = (ok, rl)" by fastforce
  let ?r = "upd_conn i (cn_send_limiter_update (\<lambda>_. rl)) r"
  let ?m = "Deliver sender recipients ty pl g (e_now env) cts"
  have r: "relay_inv P ?r" by (rule relay_inv_upd_field(1) [OF inv])
  have fan: "relay_inv P (fst (fan_out sender ?m f (e_now env) [] recipients (?r, False, False)))"
    if "to_json P ?m = Some f" for f
    using reg r by (intro fan_out_inv [OF assms(4) refl that]) simp_all
  show ?thesis
  proof (cases "to_json P ?m")
    case None
    then show ?thesis using r Some al
      by (simp add: handle_send_def Let_def reply_inv)
  next
    case (Some f)
    obtain r' a b where fo: "fan_out sender ?m f (e_now env) [] recipients (?r, False, False) = (r', a, b)"
      by (metis prod_cases3)
    have "relay_inv P r'" using fan [OF Some] fo by simp
    then show ?thesis using r \<open>cn_authed c = Some sender\<close> al Some fo
      by (simp add: handle_send_def Let_def reply_inv)
  qed
qed

subsection \<open>The other arms\<close>

lemma handle_register_inv [inv_intros]:
  assumes inv: "relay_inv P r" and c: "r_conns r i = Some c'" "cn_authed c' = cn_authed c"
    "cn_reading c'" "cn_flush c' = None"
  shows "relay_inv P (handle_register P cfg env i c u ed cv mid r)"
proof -
  have "relay_inv P (log_in i uuid u (r\<lparr>r_db := d\<rparr>))"
    if "register_user (r_db r) env u ed cv mid = Inr (uuid, d)" "cn_authed c = None"
      "is_registerable_username u" "valid_pubkey_b64 P ed" "valid_pubkey_b64 P cv" for uuid d
  proof -
    have ins: "insert_user (r_db r) (e_uuid env) u ed cv mid (e_now env) = Inr d"
      using that(1) by (auto simp: register_user_def split: sum.splits bool.splits)
    have "db_ok P d" using insert_user_ok [OF _ ins that(3-5)] inv by (simp add: relay_inv_def)
    then have "relay_inv P (r\<lparr>r_db := d\<rparr>)"
      using relay_inv_db [OF inv] insert_user_registered [OF ins] by simp
    then show ?thesis
      using c that(2) insert_user_registered [OF ins] by (intro log_in_inv) simp_all
  qed
  then show ?thesis
    by (auto simp: handle_register_def is_registerable_username_def inv reply_inv
        split: sum.split reg_err.split)
qed

lemma handle_auth_finish_inv [inv_intros]:
  assumes inv: "relay_inv P r" and c: "r_conns r i = Some c'" "cn_authed c' = cn_authed c"
    "cn_reading c'" "cn_flush c' = None"
  shows "relay_inv P (handle_auth_finish P cfg i c u sg r)"
proof -
  let ?r = "upd_conn i (cn_pending_nonce_update (\<lambda>_. None)) r"
  have r: "relay_inv P ?r" by (rule relay_inv_upd_field(4) [OF inv])
  have "relay_inv P (log_in i uuid u ?r)"
    if "lookup_user (r_db r) u = Inr (Some rec)" "cn_authed c = None" for rec uuid
    using r c that lookup_registered [OF that(1)]
    by (intro log_in_inv [where c = "c'\<lparr>cn_pending_nonce := None\<rparr>"]) simp_all
  with r inv show ?thesis
    by (auto simp: handle_auth_finish_def Let_def reply_inv split: option.split sum.split)
qed

lemma handle_publish_prekeys_inv [inv_intros]:
  assumes inv: "relay_inv P r"
  shows "relay_inv P (handle_publish_prekeys P env i c keys r)"
proof -
  have "relay_inv P (upd_conn i (cn_prekey_limiter_update f) r\<lparr>r_db := d\<rparr>)"
    if "insert_prekeys (r_db r) user keys = (ok, d)"
      "length (unused_of (r_db r) user) + length keys \<le> MAX_UNUSED_PREKEYS" for user ok d f
  proof (rule relay_inv_db)
    show "relay_inv P (upd_conn i (cn_prekey_limiter_update f) r)"
      by (rule relay_inv_upd_field(2) [OF inv])
    show "db_ok P d" using insert_prekeys_ok [OF _ that] inv by (simp add: relay_inv_def)
  qed (use insert_prekeys_frame [OF that(1)] in simp)
  with relay_inv_upd_field(2) [OF inv] show ?thesis
    by (auto simp: handle_publish_prekeys_def Let_def reply_inv inv count_unused_prekeys_def query_def
        split: option.split prod.split sum.split bool.split)
qed

lemma handle_fetch_prekeys_inv [inv_intros]:
  assumes inv: "relay_inv P r" shows "relay_inv P (handle_fetch_prekeys env i c u r)"
proof -
  have "relay_inv P (r\<lparr>r_gate := g, r_db := d\<rparr>)" if "fetch_bundle (r_db r) u = Inr (x, d)" for x d g
  proof -
    have "relay_inv P (r\<lparr>r_db := d\<rparr>)"
      using relay_inv_db [OF inv] fetch_bundle_ok [OF _ that] fetch_bundle_users [OF that] inv
      by (simp add: relay_inv_def)
    from relay_inv_gate [OF this, of g] show ?thesis by (cases r) simp
  qed
  with inv show ?thesis
    by (auto simp: handle_fetch_prekeys_def Let_def intro!: reply_inv relay_inv_gate
        split: option.split prod.split sum.split)
qed

lemma dispatch_inv [inv_intros]:
  assumes "relay_inv P r" "r_conns r i = Some c'" "cn_authed c' = cn_authed c"
    "cn_reading c'" "cn_flush c' = None" "json_roundtrip P"
  shows "relay_inv P (dispatch P cfg env i c m r)"
proof -
  have pull: "relay_inv P (handle_pull i c r)"
    using assms by (auto simp: handle_pull_def intro!: reply_inv start_flush_inv split: option.split)
  show ?thesis
    using assms pull
    by (cases m) (auto simp: dispatch_def handle_attest_def handle_client_hello_def
        handle_get_server_info_def handle_auth_begin_def intro!: reply_inv relay_inv_upd_field
        handle_register_inv handle_auth_finish_inv handle_publish_prekeys_inv handle_fetch_prekeys_inv
        handle_send_inv split: option.split)
qed

lemma handle_frame_inv [inv_intros]:
  assumes "relay_inv P r" "r_conns r i = Some c" "cn_reading c" "cn_flush c = None" "json_roundtrip P"
  shows "relay_inv P (handle_frame P cfg env i f r)"
proof -
  have "relay_inv P (dispatch P cfg env i c m r)" for m
    using assms by (intro dispatch_inv) auto
  moreover have "relay_inv P (dispatch P cfg env i c m (upd_conn i (cn_preauth_limiter_update g) r))" for m g
    using assms
    by (intro dispatch_inv [where c' = "cn_preauth_limiter_update g c"] relay_inv_upd_field) auto
  ultimately show ?thesis
    using assms(1,2)
    by (auto simp: handle_frame_def Let_def intro!: reply_inv relay_inv_upd_field
        split: frame_in.split prod.split)
qed

section \<open>The other steps keep the invariant\<close>

lemma end_flush_inv [inv_intros]:
  assumes inv: "relay_inv P r" shows "relay_inv P (end_flush i ids r)"
proof -
  have "relay_inv P (upd_conn i (cn_flush_update (\<lambda>_. None)) r')" if "relay_inv P r'" for r'
    by (rule relay_inv_upd [OF that]) (use relay_inv_conn [OF that] in \<open>auto simp: conn_ok_def\<close>)
  moreover have "relay_inv P (r\<lparr>r_db := d\<rparr>)" if "delete_frames (r_db r) ids = Inr d" for d
  proof (rule relay_inv_db [OF inv])
    show "db_ok P d" using delete_frames_ok [OF _ that] inv by (simp add: relay_inv_def)
    show "set (users (r_db r)) \<subseteq> set (users d)"
      using that by (auto simp: delete_frames_def query_def split: if_splits)
  qed
  ultimately show ?thesis using inv by (auto simp: end_flush_def split: sum.split)
qed

lemma flush_step_inv [inv_intros]:
  assumes inv: "relay_inv P r" and st: "flush_step P i r = Some r'" shows "relay_inv P r'"
proof -
  from st obtain c fl where c: "r_conns r i = Some c" "cn_flush c = Some fl"
    by (auto simp: flush_step_def split: option.splits)
  from relay_inv_conn [OF inv c(1)] c(2) obtain u where u: "cn_authed c = Some u"
      "\<forall>(j, f) \<in> set (fl_rows fl). frame_ok P (r_db r) u f"
    unfolding conn_ok_def by blast
  have fl: "relay_inv P (upd_conn i (cn_flush_update (\<lambda>_. Some fl')) r1)"
    if "relay_inv P r1" "r_db r1 = r_db r" "\<And>d. r_conns r1 i = Some d \<Longrightarrow> cn_authed d = Some u"
      "set (fl_rows fl') \<subseteq> set (fl_rows fl)" for fl' r1
    by (rule relay_inv_upd [OF that(1)])
      (use relay_inv_conn [OF that(1)] that(2-) u(2) in \<open>fastforce simp: conn_ok_def\<close>)
  show ?thesis
  proof (cases "fl_rows fl")
    case Nil
    with st c inv show ?thesis by (auto simp: flush_step_def end_flush_inv)
  next
    case (Cons x rows)
    obtain k f where x: "x = (k, f)" by (cases x)
    let ?fl = "\<lparr>fl_rows = rows, fl_delivered = fl_delivered fl @ [k]\<rparr>"
    have push: "relay_inv P (reply i m r)" if "from_json P f = Some m" for m
      unfolding reply_eq
    proof (rule relay_inv_upd [OF inv])
      fix c' assume c': "r_conns r i = Some c'"
      have "deliver_ok (r_db r) u m" using u(2) Cons x that by (auto simp: frame_ok_def)
      then have "conn_ok P (r_db r) (cn_chan_update (push m) c')"
        using relay_inv_conn [OF inv c'] c' c(1) u(1) by (intro conn_ok_push) auto
      then show "cn_authed (cn_chan_update (push m) c') = cn_authed c' \<and>
          cn_reading (cn_chan_update (push m) c') = cn_reading c' \<and>
          conn_ok P (r_db r) (cn_chan_update (push m) c')" by simp
    qed
    have "relay_inv P (upd_conn i (cn_flush_update (\<lambda>_. Some ?fl)) r)"
      by (rule fl [OF inv]) (use c u Cons in auto)
    moreover have "relay_inv P (upd_conn i (cn_flush_update (\<lambda>_. Some ?fl)) (reply i m r))"
      if "from_json P f = Some m" for m
      by (rule fl [OF push [OF that]]) (use c u Cons in \<open>auto simp: reply_eq\<close>)
    ultimately show ?thesis
      using st c Cons x inv
      by (auto simp: flush_step_def Let_def end_flush_inv reply_def split: option.splits if_splits)
  qed
qed

lemma writer_step_inv [inv_intros]: "relay_inv P r \<Longrightarrow> relay_inv P (writer_step ok i r)"
  unfolding writer_step_def
  by (rule relay_inv_upd)
    (auto simp: conn_ok_def dest!: relay_inv_conn split: list.split)

lemma end_reader_inv [inv_intros]:
  assumes inv: "relay_inv P r" and c: "r_conns r i = Some c" "cn_flush c = None"
  shows "relay_inv P (end_reader i r)"
proof -
  let ?f = "\<lambda>c. c\<lparr>cn_authed := None, cn_reading := False\<rparr>"
  have ok: "conn_ok P (r_db r) (?f c)"
    using relay_inv_conn [OF inv c(1)] c(2) by (simp add: conn_ok_def)
  have dist: "distinct (map fst (r_online r))" using inv by (simp add: relay_inv_def presence_ok_def)
  define gone where "gone u \<longleftrightarrow> cn_authed c = Some u \<and> map_of (r_online r) u = Some i" for u
  have on: "map_of (r_online (end_reader i r)) u = (if gone u then None else map_of (r_online r) u)" for u
    using c(1) by (auto simp: end_reader_def Let_def gone_def delete_conv' split: option.split)
  have conns: "r_conns (end_reader i r) = (r_conns r)(i := Some (?f c))" "r_db (end_reader i r) = r_db r"
    using c(1) by (auto simp: end_reader_def Let_def split: option.split)
  have "presence_ok (end_reader i r)"
    unfolding presence_ok_def
  proof (intro conjI allI impI)
    show "distinct (map fst (r_online (end_reader i r)))"
      using c(1) dist by (auto simp: end_reader_def Let_def distinct_AList_delete split: option.split)
  next
    fix u j assume u: "map_of (r_online (end_reader i r)) u = Some j"
    then have "map_of (r_online r) u = Some j" "\<not> gone u" by (auto simp: on split: if_splits)
    moreover from online_conn [OF inv this(1)] obtain d where
      "r_conns r j = Some d" "cn_authed d = Some u" "cn_reading d" by blast
    ultimately show "\<exists>d. r_conns (end_reader i r) j = Some d \<and> cn_authed d = Some u \<and> cn_reading d"
      using c(1) by (auto simp: conns gone_def)
  qed
  then show ?thesis
    using inv ok by (auto simp: relay_inv_def conns)
qed

lemma accept_conn_inv [inv_intros]:
  assumes inv: "relay_inv P r" and "r_conns r i = None"
  shows "relay_inv P (r\<lparr>r_conns := (r_conns r)(i := Some (new_conn now))\<rparr>)"
proof -
  have "conn_ok P d (new_conn now)" for d
    by (simp add: conn_ok_def new_conn_def new_channel_def)
  moreover have "presence_ok (r\<lparr>r_conns := (r_conns r)(i := Some (new_conn now))\<rparr>)"
  proof -
    have "j \<noteq> i" if "map_of (r_online r) u = Some j" for u j
      using online_conn [OF inv that] assms(2) by auto
    then show ?thesis
      using online_conn [OF inv] inv by (auto simp: presence_ok_def relay_inv_def)
  qed
  ultimately show ?thesis
    using inv by (simp add: relay_inv_def)
qed

lemma broadcast_inv [inv_intros]:
  assumes "relay_inv P r" "\<not> is_deliver m" shows "relay_inv P (broadcast m r)"
proof -
  have "relay_inv P (fold (\<lambda>k r. reply k m r) ks r)" for ks
    using assms by (induction ks arbitrary: r) (auto intro: reply_inv)
  then show ?thesis by (simp add: broadcast_def)
qed

lemma relay_step_inv:
  assumes "relay_step P cfg r r'" "relay_inv P r" "json_roundtrip P" shows "relay_inv P r'"
  using assms(1)
proof cases
  case (prune cutoff n d)
  have "users d = users (r_db r)"
    using prune(2) by (auto simp: prune_expired_def query_def split: if_splits)
  moreover have "db_ok P d" using assms(2) prune_expired_ok [OF _ prune(2)] by (simp add: relay_inv_def)
  ultimately show ?thesis unfolding prune(1) by (intro relay_inv_db [OF assms(2)]) auto
next
  case (db_fault up)
  have "db_ok P (r_db r\<lparr>db_up := up\<rparr>)" using assms(2) by (simp add: relay_inv_def db_up_ok)
  then show ?thesis unfolding db_fault by (intro relay_inv_db [OF assms(2)]) auto
qed (use assms(2,3) in \<open>auto intro: accept_conn_inv handle_frame_inv flush_step_inv writer_step_inv
       end_reader_inv broadcast_inv\<close>)

lemma reachable_inv:
  assumes "reachable P cfg d r" and "db_ok P d" and "json_roundtrip P"
  shows "relay_inv P r"
  using assms(1)
proof induction
  case start
  then show ?case using assms(2) by (simp add: init_relay_def relay_inv_def presence_ok_def)
next
  case (next_step r r')
  then show ?case using relay_step_inv assms(3) by blast
qed

section \<open>Running the relay\<close>

text \<open>Events name the steps, so that a concrete history can be evaluated.\<close>

datatype event =
    Connect nat instant
  | Request nat env frame_in
  | FlushRow nat
  | Written nat bool
  | Hangup nat
  | Notice string millis "string option"

definition idle :: "relay \<Rightarrow> nat \<Rightarrow> bool" where
  "idle r i = (case r_conns r i of Some c \<Rightarrow> cn_reading c \<and> cn_flush c = None | None \<Rightarrow> False)"

fun run_event :: "prims \<Rightarrow> server_config \<Rightarrow> event \<Rightarrow> relay \<Rightarrow> relay option" where
  "run_event P cfg (Connect i now) r =
     (if r_conns r i = None then Some (r\<lparr>r_conns := (r_conns r)(i := Some (new_conn now))\<rparr>) else None)"
| "run_event P cfg (Request i env f) r = (if idle r i then Some (handle_frame P cfg env i f r) else None)"
| "run_event P cfg (FlushRow i) r = flush_step P i r"
| "run_event P cfg (Written i ok) r = Some (writer_step ok i r)"
| "run_event P cfg (Hangup i) r = (if idle r i then Some (end_reader i r) else None)"
| "run_event P cfg (Notice x t v) r = Some (broadcast (Maintenance x t v) r)"

fun run_events :: "prims \<Rightarrow> server_config \<Rightarrow> event list \<Rightarrow> relay \<Rightarrow> relay option" where
  "run_events P cfg [] r = Some r"
| "run_events P cfg (e # es) r =
     (case run_event P cfg e r of None \<Rightarrow> None | Some r' \<Rightarrow> run_events P cfg es r')"

lemma run_event_step: "run_event P cfg e r = Some r' \<Longrightarrow> relay_step P cfg r r'"
  by (cases e) (auto simp: idle_def intro: relay_step.intros split: if_splits option.splits)

lemma run_events_reachable:
  "reachable P cfg d r \<Longrightarrow> run_events P cfg es r = Some r' \<Longrightarrow> reachable P cfg d r'"
proof (induction es arbitrary: r)
  case (Cons e es)
  then obtain r1 where "run_event P cfg e r = Some r1" "run_events P cfg es r1 = Some r'"
    by (auto split: option.splits)
  with Cons show ?case by (blast intro: next_step run_event_step)
qed simp

subsection \<open>A small history\<close>

text \<open>Two users; \<open>bob\<close> was sent a message while he was away. The primitives are simple stand-ins.\<close>

definition demo_key :: "char \<Rightarrow> string" where "demo_key c = replicate 32 c"

definition old_msg :: server_msg where
  "old_msg = Deliver ''amy'' [''bob''] OLM ''first'' None 1 1"

definition new_msg :: server_msg where
  "new_msg = Deliver ''amy'' [''bob''] OLM ''second'' None 5 4"

definition demo_prims :: prims where
  "demo_prims = \<lparr>b64_encode = (\<lambda>b. b), b64_decode = Some, verify_ed25519_b64 = (\<lambda>k n s. s = k @ n),
     to_json = (\<lambda>m. if m = old_msg then Some ''O'' else if m = new_msg then Some ''N'' else None),
     from_json = (\<lambda>f. if f = ''O'' then Some old_msg else if f = ''N'' then Some new_msg else None),
     attest_json = (\<lambda>_ _. None), attest_version = ''v''\<rparr>"

definition demo_db :: db where
  "demo_db = empty_db\<lparr>users :=
     [\<lparr>u_uuid = ''1'', u_username = ''amy'', u_ed25519 = demo_key CHR ''A'',
       u_curve25519 = demo_key CHR ''a'', u_machine_id = ''m'', u_is_premium = 0, u_created_ts = 0\<rparr>,
      \<lparr>u_uuid = ''2'', u_username = ''bob'', u_ed25519 = demo_key CHR ''B'',
       u_curve25519 = demo_key CHR ''b'', u_machine_id = ''m'', u_is_premium = 0, u_created_ts = 0\<rparr>],
     outbox := [\<lparr>ob_id = 1, ob_recipient = ''bob'', ob_frame = ''O'', ob_ts = 1\<rparr>],
     outbox_seq := 1\<rparr>"

definition demo_env :: env where
  "demo_env = \<lparr>e_now = 5, e_instant = 0, e_uuid = ''u'', e_nonce = ''nonce''\<rparr>"

definition demo_login :: "nat \<Rightarrow> string \<Rightarrow> char \<Rightarrow> event list" where
  "demo_login i u k = [Connect i 0, Request i demo_env (Frame (AuthBegin u)),
     Request i demo_env (Frame (AuthFinish u (demo_key k @ ''nonce'')))]"

definition demo_events :: "event list" where
  "demo_events = demo_login 0 ''amy'' CHR ''A'' @ demo_login 1 ''bob'' CHR ''B'' @
     [Request 0 demo_env (Frame (SendMsg [''bob''] OLM ''second'' None 4)), FlushRow 1, FlushRow 1]"

definition demo_relay :: relay where
  "demo_relay = the (run_events demo_prims default_config demo_events (init_relay demo_db))"

lemma demo_json [simp]: "json_roundtrip demo_prims"
  by (simp add: json_roundtrip_def demo_prims_def old_msg_def new_msg_def)

lemma demo_db_ok [simp]: "db_ok demo_prims demo_db"
  by (simp add: db_ok_def db_inv_def demo_db_def empty_db_def registered_def frame_ok_def
      deliver_ok_def demo_prims_def old_msg_def rows_of_def chars_queued_def unused_of_def
      sqlite_length_def is_cont_def MAX_OUTBOX_PER_RECIPIENT_def MAX_OUTBOX_BYTES_PER_RECIPIENT_def
      is_registerable_username_def valid_username_def USERNAME_MAX_def is_reserved_username_def
      RESERVED_USERNAMES_def to_ascii_lowercase_def ascii_lower_def ascii_class_defs
      valid_pubkey_b64_def demo_key_def)

lemmas demo_eval = demo_events_def demo_login_def demo_env_def demo_db_def demo_prims_def
  demo_key_def empty_db_def init_relay_def new_fetch_gate_def default_config_def new_conn_def new_channel_def
  idle_def handle_frame_def dispatch_def allow_def new_limiter_def secs_since_def Let_def
  reply_def try_send_to_def try_send_def upd_conn_def OUTBOUND_CAP_def handle_auth_begin_def
  handle_auth_finish_def client_allowed_def lookup_user_def query_def log_in_def start_flush_def
  pending_frames_def rows_of_def handle_send_def MAX_PAYLOAD_def MAX_RECIPIENTS_def
  deliver_one_def username_exists_def new_msg_def old_msg_def flush_step_def end_flush_def
  delete_frames_def

lemma demo_run: "run_events demo_prims default_config demo_events (init_relay demo_db) = Some demo_relay"
proof -
  have "run_events demo_prims default_config demo_events (init_relay demo_db) \<noteq> None"
    by (simp add: demo_eval)
  then show ?thesis by (simp add: demo_relay_def)
qed

lemma demo_reachable [simp]: "reachable demo_prims default_config demo_db demo_relay"
  by (rule run_events_reachable [OF reachable.start demo_run])

section \<open>What holds in every reachable state\<close>

text \<open>C1: Nothing is relayed to the wrong person. In every reachable state of the relay, a message
  waiting for or written to a live connection's socket that claims to be relayed was addressed to the
  user that connection is logged in as, comes from another, registered user, and before login there
  is none; every presence entry is a live connection logged in under that name.\<close>

theorem deliveries_addressed:
  assumes "reachable P cfg d r" and "db_ok P d" and "json_roundtrip P"
  shows "(\<forall>i c sender recipients ty pl g ts cts. r_conns r i = Some c \<longrightarrow> cn_reading c \<longrightarrow>
      Deliver sender recipients ty pl g ts cts \<in> set (ch_queue (cn_chan c)) \<union> set (ch_sent (cn_chan c)) \<longrightarrow>
      (\<exists>u. cn_authed c = Some u \<and> u \<in> set recipients \<and> sender \<noteq> u \<and> registered (r_db r) sender))
    \<and> (\<forall>u i. map_of (r_online r) u = Some i \<longrightarrow>
         (\<exists>c. r_conns r i = Some c \<and> cn_authed c = Some u \<and> cn_reading c))"
proof -
  have inv: "relay_inv P r" by (rule reachable_inv [OF assms])
  have "\<exists>u. cn_authed c = Some u \<and> u \<in> set recipients \<and> sender \<noteq> u \<and> registered (r_db r) sender"
    if c: "r_conns r i = Some c" "cn_reading c" "Deliver sender recipients ty pl g ts cts
        \<in> set (ch_queue (cn_chan c)) \<union> set (ch_sent (cn_chan c))"
    for i c sender recipients ty pl g ts cts
  proof -
    have "is_deliver (Deliver sender recipients ty pl g ts cts)" by (simp add: is_deliver_def)
    with relay_inv_conn [OF inv c(1)] c(2,3) obtain u where "cn_authed c = Some u"
        "deliver_ok (r_db r) u (Deliver sender recipients ty pl g ts cts)"
      unfolding conn_ok_def by blast
    then show ?thesis by (auto simp: deliver_ok_def)
  qed
  then show ?thesis using online_conn [OF inv] by blast
qed

lemma empty_db_ok [simp]: "db_ok P empty_db"
  by (simp add: db_ok_def) (simp add: empty_db_def rows_of_def chars_queued_def unused_of_def)

theorem deliveries_addressed_witness:
  "\<exists>c. r_conns demo_relay 1 = Some c \<and> new_msg \<in> set (ch_queue (cn_chan c)) \<and>
     (\<exists>u. cn_authed c = Some u \<and> u \<in> set [''bob''] \<and> ''amy'' \<noteq> u \<and> registered (r_db demo_relay) ''amy'')"
proof -
  have "case r_conns demo_relay 1 of None \<Rightarrow> False
      | Some c \<Rightarrow> cn_reading c \<and> List.member (ch_queue (cn_chan c)) new_msg"
    by (simp add: demo_relay_def demo_eval)
  then obtain c where c: "r_conns demo_relay 1 = Some c" "cn_reading c" "new_msg \<in> set (ch_queue (cn_chan c))"
    by (auto split: option.splits)
  with conjunct1 [OF deliveries_addressed [OF demo_reachable demo_db_ok demo_json]]
  have "\<exists>u. cn_authed c = Some u \<and> u \<in> set [''bob''] \<and> ''amy'' \<noteq> u \<and> registered (r_db demo_relay) ''amy''"
    unfolding new_msg_def by blast
  with c show ?thesis by blast
qed

text \<open>C28: What one user can make the relay hold is bounded. In every reachable state each recipient has
  at most 10,000 queued frames of at most 64 Mi characters, nothing is queued for a name that is not
  registered, no user has more than 500 unused prekeys, no channel holds more than 512 messages,
  and every registered name and key passed the checks of \<open>Register\<close>.\<close>

theorem relay_storage_bounded:
  assumes "reachable P cfg d r" and "db_ok P d" and "json_roundtrip P"
  shows "length (rows_of (r_db r) u) \<le> 10000 \<and> chars_queued (r_db r) u \<le> 64 * 1024 * 1024
    \<and> (\<not> registered (r_db r) u \<longrightarrow> rows_of (r_db r) u = [])
    \<and> length (unused_of (r_db r) u) \<le> 500
    \<and> (\<forall>i c. r_conns r i = Some c \<longrightarrow> length (ch_queue (cn_chan c)) \<le> 512)
    \<and> (\<forall>row \<in> set (users (r_db r)). is_registerable_username (u_username row)
         \<and> valid_pubkey_b64 P (u_ed25519 row) \<and> valid_pubkey_b64 P (u_curve25519 row))"
proof -
  have inv: "relay_inv P r" by (rule reachable_inv [OF assms])
  then have ok: "db_ok P (r_db r)" by (simp add: relay_inv_def)
  have "rows_of (r_db r) u = []" if "\<not> registered (r_db r) u"
    using ok that by (auto simp: db_ok_def rows_of_def filter_empty_conv)
  moreover have "length (ch_queue (cn_chan c)) \<le> 512" if "r_conns r i = Some c" for i c
    using relay_inv_conn [OF inv that] by (simp add: conn_ok_def OUTBOUND_CAP_def)
  ultimately show ?thesis
    using ok by (simp add: db_ok_def MAX_OUTBOX_PER_RECIPIENT_def MAX_OUTBOX_BYTES_PER_RECIPIENT_def
        MAX_UNUSED_PREKEYS_def)
qed

theorem relay_storage_bounded_witness:
  "length (unused_of (r_db demo_relay) ''bob'') \<le> 500"
  using relay_storage_bounded [OF demo_reachable demo_db_ok demo_json] by blast

section \<open>Who may log in\<close>

definition authed_of :: "relay \<Rightarrow> nat \<Rightarrow> string option" where
  "authed_of r i = Option.bind (r_conns r i) cn_authed"

lemma authed_of_upd [simp]:
  "authed_of (upd_conn i (cn_chan_update f) r) j = authed_of r j"
  "authed_of (upd_conn i (cn_flush_update f1) r) j = authed_of r j"
  "authed_of (upd_conn i (cn_send_limiter_update f2) r) j = authed_of r j"
  "authed_of (upd_conn i (cn_prekey_limiter_update f2) r) j = authed_of r j"
  "authed_of (upd_conn i (cn_preauth_limiter_update f2) r) j = authed_of r j"
  "authed_of (upd_conn i (cn_pending_nonce_update f3) r) j = authed_of r j"
  "authed_of (upd_conn i (cn_build_hash_update f4) r) j = authed_of r j"
  "authed_of (r\<lparr>r_db := d\<rparr>) j = authed_of r j" "authed_of (r\<lparr>r_gate := g\<rparr>) j = authed_of r j"
  "authed_of (r\<lparr>r_online := x\<rparr>) j = authed_of r j"
  by (auto simp: authed_of_def split: bind_split)

lemma authed_of_reply [simp]: "authed_of (reply i m r) j = authed_of r j"
  by (simp add: reply_eq)

lemma authed_of_start_flush [simp]: "authed_of (start_flush i u r) j = authed_of r j"
  by (simp add: start_flush_def split: sum.split)

lemma authed_of_log_in:
  "authed_of (log_in i uuid u r) j = (if j = i \<and> r_conns r i \<noteq> None then Some u else authed_of r j)"
  by (auto simp: log_in_def Let_def) (auto simp: authed_of_def upd_conn_def)

lemma authed_of_enqueue [simp]: "authed_of (snd (enqueue_frame_str x f t r)) j = authed_of r j"
  by (simp add: enqueue_frame_str_def split: sum.split prod.split)

lemma authed_of_deliver_one [simp]:
  "authed_of (fst (deliver_one sender m f t x st)) j = authed_of (fst st) j"
  by (auto simp: deliver_one_def Let_def try_send_to_eq split: prod.split option.split bool.split)
    (metis authed_of_enqueue authed_of_upd(1) snd_conv)+

lemma authed_of_fan_out [simp]:
  "authed_of (fst (fan_out sender m f t seen xs st)) j = authed_of (fst st) j"
  by (induction xs arbitrary: seen st) auto

lemma authed_of_send [simp]: "authed_of (handle_send P env i c to ty pl g cts r) j = authed_of r j"
proof -
  have "authed_of r' j = authed_of r0 j"
    if "fan_out sender m f t seen xs (r0, a, b) = (r', a', b')" for sender m f t seen xs r0 a b r' a' b'
    using authed_of_fan_out [of sender m f t seen xs "(r0, a, b)" j] that by simp
  then show ?thesis
    by (auto simp: handle_send_def Let_def split: option.split prod.split)
qed

lemma authed_of_register:
  assumes "authed_of (handle_register P cfg env i c u ed cv mid r) j = Some v" "authed_of r j \<noteq> Some v"
  shows "j = i \<and> v = u \<and> cn_authed c = None \<and> client_allowed cfg (cn_build_hash c)
    \<and> is_registerable_username u \<and> \<not> registered (r_db r) u"
proof (cases "register_user (r_db r) env u ed cv mid")
  case (Inl e)
  with assms show ?thesis
    by (simp add: handle_register_def split: if_splits reg_err.splits)
next
  case (Inr x)
  then have "\<not> registered (r_db r) u"
    by (auto simp: register_user_def username_exists_def query_def registered_def
        filter_empty_conv split: sum.splits bool.splits if_splits)
  with assms Inr show ?thesis
    by (simp add: handle_register_def is_registerable_username_def authed_of_log_in
        split: if_splits prod.splits)
qed

lemma authed_of_auth_finish:
  assumes "authed_of (handle_auth_finish P cfg i c u sg r) j = Some v" "authed_of r j \<noteq> Some v"
  shows "j = i \<and> v = u \<and> cn_authed c = None \<and> client_allowed cfg (cn_build_hash c)
    \<and> (\<exists>nonce rec. cn_pending_nonce c = Some nonce \<and> lookup_user (r_db r) u = Inr (Some rec)
         \<and> verify_ed25519_b64 P (ur_ed25519 rec) nonce sg)"
  using assms
  by (auto simp: handle_auth_finish_def Let_def authed_of_log_in split: if_splits option.splits sum.splits)

lemma authed_of_other_arms [simp]:
  "authed_of (handle_attest P env i n r) j = authed_of r j"
  "authed_of (handle_client_hello i bh v r) j = authed_of r j"
  "authed_of (handle_get_server_info P cfg i r) j = authed_of r j"
  "authed_of (handle_auth_begin P env i u r) j = authed_of r j"
  "authed_of (handle_publish_prekeys P env i c ks r) j = authed_of r j"
  "authed_of (handle_fetch_prekeys env i c u r) j = authed_of r j"
  "authed_of (handle_pull i c r) j = authed_of r j"
  by (auto simp: handle_attest_def handle_client_hello_def handle_get_server_info_def
      handle_auth_begin_def handle_publish_prekeys_def handle_fetch_prekeys_def handle_pull_def Let_def
      split: option.split prod.split sum.split bool.split)

text \<open>The request of a frame, and what entitles it to log \<open>u\<close> in on the connection \<open>c\<close>.\<close>

definition entitled :: "prims \<Rightarrow> server_config \<Rightarrow> relay \<Rightarrow> conn \<Rightarrow> string \<Rightarrow> bool" where
  "entitled P cfg r c u \<longleftrightarrow> cn_authed c = None \<and> client_allowed cfg (cn_build_hash c) \<and>
     (is_registerable_username u \<and> \<not> registered (r_db r) u \<or>
      (\<exists>nonce rec sg. cn_pending_nonce c = Some nonce \<and> lookup_user (r_db r) u = Inr (Some rec) \<and>
         verify_ed25519_b64 P (ur_ed25519 rec) nonce sg))"

lemma dispatch_entitled:
  "authed_of (dispatch P cfg env i c m r) j = Some u \<Longrightarrow> authed_of r j \<noteq> Some u \<Longrightarrow>
     j = i \<and> entitled P cfg r c u"
proof (cases m)
  case (Register n ed cv mid)
  assume "authed_of (dispatch P cfg env i c m r) j = Some u" "authed_of r j \<noteq> Some u"
  with Register authed_of_register [of P cfg env i c n ed cv mid r j u] show ?thesis
    by (simp add: dispatch_def entitled_def)
next
  case (AuthFinish n sg)
  assume "authed_of (dispatch P cfg env i c m r) j = Some u" "authed_of r j \<noteq> Some u"
  with AuthFinish authed_of_auth_finish [of P cfg i c n sg r j u] show ?thesis
    unfolding entitled_def dispatch_def by auto
qed (simp_all add: dispatch_def)

lemma handle_frame_entitled:
  assumes "authed_of (handle_frame P cfg env i f r) j = Some u" "authed_of r j \<noteq> Some u"
  shows "j = i \<and> (\<exists>c. r_conns r i = Some c \<and> entitled P cfg r c u)"
proof -
  obtain c where c: "r_conns r i = Some c"
    using assms by (auto simp: handle_frame_def split: option.splits)
  have plain: "j = i \<and> entitled P cfg r c u" if "authed_of (dispatch P cfg env i c m r) j = Some u" for m
    by (rule dispatch_entitled [OF that assms(2)])
  have "j = i \<and> entitled P cfg r c u"
    if "authed_of (dispatch P cfg env i c m (upd_conn i (cn_preauth_limiter_update g) r)) j = Some u" for m g
    using dispatch_entitled [OF that] assms(2) by (simp add: entitled_def)
  with plain have "j = i \<and> entitled P cfg r c u"
    using assms c by (auto simp: handle_frame_def Let_def split: frame_in.splits prod.splits if_splits)
  with c show ?thesis by blast
qed

lemma authed_of_flush_step: "flush_step P i r = Some r' \<Longrightarrow> authed_of r' j = authed_of r j"
  by (auto simp: flush_step_def end_flush_def Let_def try_send_to_eq
      split: option.splits list.splits if_splits sum.splits)

lemma authed_of_writer [simp]: "authed_of (writer_step ok i r) j = authed_of r j"
  by (auto simp: writer_step_def authed_of_def split: list.split bind_split)

lemma authed_of_end_reader: "authed_of (end_reader i r) j = Some u \<Longrightarrow> authed_of r j = Some u"
  by (auto simp: end_reader_def Let_def authed_of_def upd_conn_def split: option.splits if_splits bind_splits)

lemma authed_of_broadcast [simp]: "authed_of (broadcast m r) j = authed_of r j"
proof -
  have "authed_of (fold (\<lambda>k r. reply k m r) ks r) j = authed_of r j" for ks
    by (induction ks arbitrary: r) auto
  then show ?thesis by (simp add: broadcast_def)
qed

text \<open>C2: Only the owner gets in. Whatever step the relay takes, a connection that becomes \<open>u\<close> was not
  logged in before, runs a build the operator accepts, and either \<open>u\<close> was a free, well-formed name
  that it has just registered, or it answered the challenge pending on this very connection with a
  signature that verifies under the key registered for \<open>u\<close>.\<close>

theorem login_needs_proof:
  assumes "relay_step P cfg r r'" and "authed_of r' i = Some u" and "authed_of r i \<noteq> Some u"
  shows "\<exists>c. r_conns r i = Some c \<and> cn_authed c = None \<and> client_allowed cfg (cn_build_hash c) \<and>
     (is_registerable_username u \<and> \<not> registered (r_db r) u \<or>
      (\<exists>nonce rec sg. cn_pending_nonce c = Some nonce \<and> lookup_user (r_db r) u = Inr (Some rec) \<and>
         verify_ed25519_b64 P (ur_ed25519 rec) nonce sg))"
  using assms(1)
proof cases
  case (accept_conn j now)
  with assms(2,3) show ?thesis by (auto simp: authed_of_def new_conn_def split: if_splits)
next
  case (read_frame j c env f)
  with assms(2,3) handle_frame_entitled [of P cfg env j f r i u] show ?thesis
    unfolding entitled_def by auto
next
  case (flush j)
  with assms(2,3) authed_of_flush_step [OF flush] show ?thesis by simp
next
  case (close j c)
  with assms(2,3) authed_of_end_reader [of j r i u] show ?thesis by simp
qed (use assms(2,3) in simp_all)

theorem login_needs_proof_witness:
  "\<exists>r r' c nonce sg. relay_step demo_prims default_config r r' \<and> r_conns r 1 = Some c \<and>
     cn_pending_nonce c = Some nonce \<and> authed_of r' 1 = Some ''bob'' \<and>
     verify_ed25519_b64 demo_prims (demo_key CHR ''B'') nonce sg"
proof -
  define r where "r = the (run_events demo_prims default_config (take 2 (demo_login 1 ''bob'' CHR ''B'')) (init_relay demo_db))"
  define e where "e = Request 1 demo_env (Frame (AuthFinish ''bob'' (demo_key CHR ''B'' @ ''nonce'')))"
  define r' where "r' = the (run_event demo_prims default_config e r)"
  have step: "run_event demo_prims default_config e r = Some r'"
    by (simp add: r_def e_def r'_def demo_eval)
  have a: "authed_of r' 1 = Some ''bob''" "authed_of r 1 \<noteq> Some ''bob''"
    by (simp_all add: r_def e_def r'_def authed_of_def demo_eval)
  have l: "lookup_user (r_db r) ''bob'' = Inr (Some \<lparr>ur_uuid = ''2'', ur_username = ''bob'',
      ur_ed25519 = demo_key CHR ''B'', ur_curve25519 = demo_key CHR ''b''\<rparr>)"
    and g: "registered (r_db r) ''bob''"
    by (simp_all add: r_def registered_def demo_eval)
  from login_needs_proof [OF run_event_step [OF step] a] g l
  obtain c nonce sg where "r_conns r 1 = Some c" "cn_pending_nonce c = Some nonce"
      "verify_ed25519_b64 demo_prims (demo_key CHR ''B'') nonce sg" by auto
  with run_event_step [OF step] a(1) show ?thesis by blast
qed

end
