(* ===== verification/Server_Delivery.thy ===== *)
theory Server_Delivery
  imports Server_Relay
begin

text \<open>
  What the relay's fan-out and flush do to a recipient's channel and queue: each addressee of a
  \<open>Send\<close> gets the message once, and where the order of two messages is lost.
\<close>

section \<open>The fan-out, recipient by recipient\<close>

definition outbox_has_room :: "db \<Rightarrow> string \<Rightarrow> string \<Rightarrow> bool" where
  "outbox_has_room d u f \<longleftrightarrow> length (rows_of d u) < MAX_OUTBOX_PER_RECIPIENT \<and>
     chars_queued d u + length f \<le> MAX_OUTBOX_BYTES_PER_RECIPIENT"

definition queue_of :: "relay \<Rightarrow> nat \<Rightarrow> server_msg list" where
  "queue_of r k = (case r_conns r k of Some c \<Rightarrow> ch_queue (cn_chan c) | None \<Rightarrow> [])"

definition frames_of :: "relay \<Rightarrow> string \<Rightarrow> string list" where
  "frames_of r u = map ob_frame (rows_of (r_db r) u)"

text \<open>Whether a message for \<open>u\<close> goes straight to a channel.\<close>

definition direct :: "relay \<Rightarrow> string \<Rightarrow> bool" where
  "direct r u = (case map_of (r_online r) u of Some k \<Rightarrow> accepts r k | None \<Rightarrow> False)"

lemma enqueue_frame_str_props:
  assumes "db_up (r_db r)"
  shows "frames_of (snd (enqueue_frame_str u f t r)) v =
      frames_of r v @ (if v = u \<and> outbox_has_room (r_db r) u f then [f] else [])"
    and "r_conns (snd (enqueue_frame_str u f t r)) = r_conns r"
    and "r_online (snd (enqueue_frame_str u f t r)) = r_online r"
    and "users (r_db (snd (enqueue_frame_str u f t r))) = users (r_db r)"
    and "db_up (r_db (snd (enqueue_frame_str u f t r)))"
    and "v \<noteq> u \<Longrightarrow> rows_of (r_db (snd (enqueue_frame_str u f t r))) v = rows_of (r_db r) v"
proof -
  obtain d where d: "enqueue (r_db r) u f t = Inr d" "users d = users (r_db r)" "db_up d"
    using assms by (simp add: enqueue_def query_def)
  have e: "enqueue_if_under_cap (r_db r) u f t MAX_OUTBOX_PER_RECIPIENT MAX_OUTBOX_BYTES_PER_RECIPIENT
      = Inr (if outbox_has_room (r_db r) u f then (True, d) else (False, r_db r))"
    using assms d by (auto simp: enqueue_if_under_cap_def res_bind_Inr_iff outbox_count_def
        outbox_bytes_def query_def outbox_has_room_def chars_queued_def)
  show "frames_of (snd (enqueue_frame_str u f t r)) v =
      frames_of r v @ (if v = u \<and> outbox_has_room (r_db r) u f then [f] else [])"
    using rows_of_enqueue [OF d(1), of v] by (auto simp: enqueue_frame_str_def e frames_of_def)
  show "r_conns (snd (enqueue_frame_str u f t r)) = r_conns r"
    "r_online (snd (enqueue_frame_str u f t r)) = r_online r"
    "users (r_db (snd (enqueue_frame_str u f t r))) = users (r_db r)"
    "db_up (r_db (snd (enqueue_frame_str u f t r)))"
    using assms d by (simp_all add: enqueue_frame_str_def e)
  show "v \<noteq> u \<Longrightarrow> rows_of (r_db (snd (enqueue_frame_str u f t r))) v = rows_of (r_db r) v"
    using rows_of_enqueue [OF d(1), of v] by (simp add: enqueue_frame_str_def e)
qed

lemma username_exists_iff:
  "db_up d \<Longrightarrow> username_exists d u = Inr (registered d u)"
  by (auto simp: username_exists_def query_def registered_def filter_empty_conv)

text \<open>The effect of one turn of the loop.\<close>

lemma deliver_one_cases:
  assumes "db_up (r_db r)"
  shows "fst (deliver_one s m f t x (r, a, b)) =
    (if x = s \<or> \<not> registered (r_db r) x then r
     else case map_of (r_online r) x of
       None \<Rightarrow> snd (enqueue_frame_str x f t r)
     | Some k \<Rightarrow>
         if accepts r k then upd_conn k (cn_chan_update (push m)) r
         else snd (enqueue_frame_str x f t (upd_conn k (cn_chan_update (push m)) r)))"
  using assms
  by (auto simp: deliver_one_def Let_def try_send_to_eq username_exists_iff
      split: prod.split bool.split option.split)

lemma push_full: "\<not> accepts r k \<Longrightarrow> r_conns r k = Some c \<Longrightarrow> cn_chan_update (push m) c = c"
  by (cases c) (auto simp: accepts_def push_def try_send_def)

lemma upd_full: "\<not> accepts r k \<Longrightarrow> upd_conn k (cn_chan_update (push m)) r = r"
proof -
  assume "\<not> accepts r k"
  then have "(r_conns r)(k := map_option (cn_chan_update (push m)) (r_conns r k)) = r_conns r"
    using push_full by (cases "r_conns r k") (auto simp: fun_eq_iff)
  then show ?thesis by (simp add: upd_conn_def)
qed

lemma deliver_one_simple:
  "db_up (r_db r) \<Longrightarrow> fst (deliver_one s m f t x (r, a, b)) =
    (if x = s \<or> \<not> registered (r_db r) x then r
     else if direct r x then upd_conn (the (map_of (r_online r) x)) (cn_chan_update (push m)) r
     else snd (enqueue_frame_str x f t r))"
  by (auto simp: deliver_one_cases direct_def upd_full split: option.split)

lemma deliver_one_frame:
  assumes "db_up (r_db r)"
  shows "r_online (fst (deliver_one s m f t x (r, a, b))) = r_online r"
    and "users (r_db (fst (deliver_one s m f t x (r, a, b)))) = users (r_db r)"
    and "db_up (r_db (fst (deliver_one s m f t x (r, a, b))))"
    and "u \<noteq> x \<Longrightarrow> rows_of (r_db (fst (deliver_one s m f t x (r, a, b)))) u = rows_of (r_db r) u"
    and "map_of (r_online r) x \<noteq> Some k \<Longrightarrow>
      r_conns (fst (deliver_one s m f t x (r, a, b))) k = r_conns r k"
    and "u = s \<Longrightarrow> rows_of (r_db (fst (deliver_one s m f t x (r, a, b)))) u = rows_of (r_db r) u"
  using assms
  by (auto simp: deliver_one_simple enqueue_frame_str_props direct_def split: option.splits)

text \<open>The loop leaves alone what no recipient still to come concerns.\<close>

lemma fan_out_frame:
  "db_up (r_db (fst st)) \<Longrightarrow>
     r_online (fst (fan_out s m f t seen xs st)) = r_online (fst st) \<and>
     users (r_db (fst (fan_out s m f t seen xs st))) = users (r_db (fst st)) \<and>
     db_up (r_db (fst (fan_out s m f t seen xs st))) \<and>
     (\<forall>k. (\<forall>v \<in> set xs - set seen. v \<noteq> s \<longrightarrow> map_of (r_online (fst st)) v \<noteq> Some k) \<longrightarrow>
        r_conns (fst (fan_out s m f t seen xs st)) k = r_conns (fst st) k) \<and>
     (\<forall>u. u \<notin> set xs - set seen \<or> u = s \<longrightarrow>
        rows_of (r_db (fst (fan_out s m f t seen xs st))) u = rows_of (r_db (fst st)) u)"
proof (induction xs arbitrary: seen st)
  case Nil
  then show ?case by simp
next
  case (Cons x xs)
  show ?case
  proof (cases "x \<in> set seen")
    case True
    with Cons.IH [OF Cons.prems, of seen] show ?thesis by auto
  next
    case False
    obtain r a b where st: "st = (r, a, b)" by (cases st)
    have up: "db_up (r_db r)" using Cons.prems st by simp
    let ?st = "deliver_one s m f t x (r, a, b)"
    note fr = deliver_one_frame [OF up, where s = s and m = m and f = f and t = t and x = x
        and a = a and b = b]
    have conns: "r_conns (fst ?st) k = r_conns r k" if "x = s \<or> map_of (r_online r) x \<noteq> Some k" for k
    proof (cases "x = s")
      case True
      then show ?thesis
        using deliver_one_simple [OF up, where s = s and m = m and f = f and t = t and x = x
          and a = a and b = b] by simp
    next
      case False
      with that fr(5) show ?thesis by blast
    qed
    have rows: "rows_of (r_db (fst ?st)) u = rows_of (r_db r) u" if "u \<noteq> x \<or> u = s" for u
      using that fr(4,6) by blast
    let ?r = "fst (fan_out s m f t (x # seen) xs ?st)"
    note ih = Cons.IH [OF fr(3), of "x # seen", unfolded fr(1,2)]
    have "r_conns ?r k = r_conns r k"
      if "\<forall>v \<in> set (x # xs) - set seen. v \<noteq> s \<longrightarrow> map_of (r_online r) v \<noteq> Some k" for k
    proof -
      have "x = s \<or> map_of (r_online r) x \<noteq> Some k" using that False by auto
      moreover have "\<forall>v \<in> set xs - set (x # seen). v \<noteq> s \<longrightarrow> map_of (r_online r) v \<noteq> Some k"
        using that by auto
      ultimately show ?thesis using ih conns [of k] by metis
    qed
    moreover have "rows_of (r_db ?r) u = rows_of (r_db r) u"
      if "u \<notin> set (x # xs) - set seen \<or> u = s" for u
    proof -
      have "u \<noteq> x \<or> u = s" "u \<notin> set xs - set (x # seen) \<or> u = s" using that False by auto
      then show ?thesis using ih rows [of u] by metis
    qed
    ultimately show ?thesis using ih False st by simp
  qed
qed

definition served :: "bool \<Rightarrow> server_msg \<Rightarrow> conn option \<Rightarrow> conn option" where
  "served b m co = (if b then map_option (cn_chan_update (push m)) co else co)"

text \<open>A recipient that comes up in the loop is served exactly once.\<close>

lemma fan_out_serves:
  assumes "db_up (r_db r)" and "u \<in> set xs" and "u \<notin> set seen" and "u \<noteq> s" and "registered (r_db r) u"
    and uniq: "\<And>v k. map_of (r_online r) u = Some k \<Longrightarrow> map_of (r_online r) v = Some k \<Longrightarrow> v = u"
  shows "frames_of (fst (fan_out s m f t seen xs (r, a, b))) u = frames_of r u @ (if \<not> direct r u \<and> outbox_has_room (r_db r) u f then [f] else [])
    \<and> (\<forall>k. map_of (r_online r) u = Some k \<longrightarrow>
         r_conns (fst (fan_out s m f t seen xs (r, a, b))) k = served (direct r u) m (r_conns r k))"
  using assms
proof (induction xs arbitrary: seen r a b)
  case Nil
  then show ?case by simp
next
  case (Cons x xs)
  note up = Cons.prems(1)
  obtain r1 a1 b1 where r1: "deliver_one s m f t x (r, a, b) = (r1, a1, b1)" by (metis prod_cases3)
  note fr = deliver_one_frame [OF up, where s = s and m = m and f = f and t = t and x = x
        and a = a and b = b, unfolded r1 fst_conv]
  show ?case
  proof (cases "x = u")
    case False
    show ?thesis
    proof (cases "x \<in> set seen")
      case True
      have "u \<in> set xs" using Cons.prems(2) False by simp
      have "frames_of (fst (fan_out s m f t seen xs (r, a, b))) u =
          frames_of r u @ (if \<not> direct r u \<and> outbox_has_room (r_db r) u f then [f] else [])
        \<and> (\<forall>k. map_of (r_online r) u = Some k \<longrightarrow>
             r_conns (fst (fan_out s m f t seen xs (r, a, b))) k = served (direct r u) m (r_conns r k))"
        by (rule Cons.IH [OF up \<open>u \<in> set xs\<close> Cons.prems(3-6)])
      with True show ?thesis by simp
    next
      case nseen: False
      have k: "r_conns r1 k = r_conns r k" if on: "map_of (r_online r) u = Some k" for k
      proof (rule fr(5))
        show "map_of (r_online r) x \<noteq> Some k" using Cons.prems(6) [OF on, of x] False by blast
      qed
      have "accepts r1 k = accepts r k" if "map_of (r_online r) u = Some k" for k
        unfolding accepts_def k [OF that] by (rule refl)
      then have "direct r1 u = direct r u"
        unfolding direct_def fr(1) by (auto split: option.split)
      moreover have "rows_of (r_db r1) u = rows_of (r_db r) u"
        by (rule fr(4)) (use False in simp)
      moreover have reg: "registered (r_db r1) u" using Cons.prems(5) by (simp add: registered_def fr(2))
      moreover have mem: "u \<in> set xs" "u \<notin> set (x # seen)" using Cons.prems(2,3) False by simp_all
      moreover have "frames_of (fst (fan_out s m f t (x # seen) xs (r1, a1, b1))) u =
          frames_of r1 u @ (if \<not> direct r1 u \<and> outbox_has_room (r_db r1) u f then [f] else [])
        \<and> (\<forall>k. map_of (r_online r1) u = Some k \<longrightarrow>
             r_conns (fst (fan_out s m f t (x # seen) xs (r1, a1, b1))) k
               = served (direct r1 u) m (r_conns r1 k))"
        by (rule Cons.IH [OF fr(3) mem Cons.prems(4) reg]) (rule Cons.prems(6) [folded fr(1)])
      ultimately show ?thesis
        using nseen r1 k
        by (simp add: fr(1) queue_of_def frames_of_def outbox_has_room_def chars_queued_def)
    qed
  next
    case True
    have r1': "r1 = (if direct r u then upd_conn (the (map_of (r_online r) u)) (cn_chan_update (push m)) r
        else snd (enqueue_frame_str u f t r))"
      using deliver_one_simple [OF up, where s = s and m = m and f = f and t = t and x = x
          and a = a and b = b] r1 True Cons.prems(4,5) by simp
    have st: "fst (fan_out s m f t seen (x # xs) (r, a, b)) = fst (fan_out s m f t (u # seen) xs (r1, a1, b1))"
      using True Cons.prems(3) r1 by simp
    have rest: "rows_of (r_db (fst (fan_out s m f t (u # seen) xs (r1, a1, b1)))) u = rows_of (r_db r1) u"
      "map_of (r_online r) u = Some k \<Longrightarrow>
        r_conns (fst (fan_out s m f t (u # seen) xs (r1, a1, b1))) k = r_conns r1 k" for k
    proof -
      note ff = fan_out_frame [of "(r1, a1, b1)" s m f t "u # seen" xs, unfolded fst_conv, OF fr(3),
          unfolded fr(1)]
      from ff show "rows_of (r_db (fst (fan_out s m f t (u # seen) xs (r1, a1, b1)))) u = rows_of (r_db r1) u"
        by simp
      assume on: "map_of (r_online r) u = Some k"
      have "\<forall>v \<in> set xs - set (u # seen). v \<noteq> s \<longrightarrow> map_of (r_online r) v \<noteq> Some k"
      proof (intro ballI impI notI)
        fix v assume "v \<in> set xs - set (u # seen)" "map_of (r_online r) v = Some k"
        then show False using Cons.prems(6) [OF on, of v] by simp
      qed
      with ff show "r_conns (fst (fan_out s m f t (u # seen) xs (r1, a1, b1))) k = r_conns r1 k"
        by blast
    qed
    have "r_conns r1 k = served (direct r u) m (r_conns r k)"
      if "map_of (r_online r) u = Some k" for k
      using that r1' enqueue_frame_str_props(2) [OF up] by (auto simp: served_def direct_def)
    moreover have "frames_of r1 u = frames_of r u @
        (if \<not> direct r u \<and> outbox_has_room (r_db r) u f then [f] else [])"
      using r1' enqueue_frame_str_props(1) [OF up, of u f t u] by (simp add: frames_of_def)
    ultimately show ?thesis unfolding st using rest by (simp add: frames_of_def queue_of_def)
  qed
qed

section \<open>A Send, seen by its addressees\<close>

lemma online_unique:
  "relay_inv P r \<Longrightarrow> map_of (r_online r) u = Some k \<Longrightarrow> map_of (r_online r) v = Some k \<Longrightarrow> v = u"
  using online_conn [of P r u k] online_conn [of P r v k] by auto

lemma direct_upd [simp]:
  "direct (upd_conn i (cn_send_limiter_update g) r) u = direct r u"
  by (auto simp: direct_def accepts_def split: option.split)

lemma queue_of_upd [simp]:
  "queue_of (upd_conn i (cn_send_limiter_update g) r) k = queue_of r k"
  by (auto simp: queue_of_def split: option.split)

lemma queue_of_reply [simp]: "k \<noteq> i \<Longrightarrow> queue_of (reply i m r) k = queue_of r k"
  by (simp add: reply_eq queue_of_def)

lemma frames_of_conns [simp]:
  "frames_of (upd_conn i h r) u = frames_of r u" "frames_of (reply i m r) u = frames_of r u"
  by (simp_all add: frames_of_def reply_eq)

lemma handle_send_effect:
  assumes inv: "relay_inv P r" and up: "db_up (r_db r)" and c: "r_conns r i = Some c"
    and auth: "cn_authed c = Some s" and rate: "fst (allow (cn_send_limiter c) (e_instant env))"
    and size: "length pl \<le> MAX_PAYLOAD" "length recipients \<le> MAX_RECIPIENTS"
    and m: "m = Deliver s recipients ty pl g (e_now env) cts" and ser: "to_json P m = Some f"
    and r'_def: "r' = handle_frame P cfg env i (Frame (SendMsg recipients ty pl g cts)) r"
  shows "u \<in> set recipients \<Longrightarrow> u \<noteq> s \<Longrightarrow> registered (r_db r) u \<Longrightarrow>
      frames_of r' u = frames_of r u @ (if \<not> direct r u \<and> outbox_has_room (r_db r) u f then [f] else [])
      \<and> (\<forall>k. map_of (r_online r) u = Some k \<longrightarrow>
           r_conns r' k = served (direct r u) m (r_conns r k))"
    and "u \<notin> set recipients \<or> u = s \<Longrightarrow> frames_of r' u = frames_of r u"
    and "k \<noteq> i \<Longrightarrow> (\<forall>v \<in> set recipients. v \<noteq> s \<longrightarrow> map_of (r_online r) v \<noteq> Some k) \<Longrightarrow>
      r_conns r' k = r_conns r k"
proof -
  obtain rl where al: "allow (cn_send_limiter c) (e_instant env) = (True, rl)"
    using rate by (metis prod.collapse)
  let ?r = "upd_conn i (cn_send_limiter_update (\<lambda>_. rl)) r"
  obtain r1 a b where fo: "fan_out s m f (e_now env) [] recipients (?r, False, False) = (r1, a, b)"
    by (metis prod_cases3)
  define x where "x = (if \<not> a \<and> b then err UNKNOWN_USER ''no such recipient'' else OkMsg None)"
  have r': "r' = reply i x r1"
    unfolding r'_def x_def using c auth al size m ser fo
    by (simp add: handle_frame_def dispatch_def handle_send_def Let_def)
  note ff = fan_out_frame [of "(?r, False, False)" s m f "e_now env" "[]" recipients, unfolded fo]
  have up': "db_up (r_db ?r)" using up by simp
  {
    assume u: "u \<in> set recipients" "u \<noteq> s" "registered (r_db r) u"
    have "frames_of (fst (r1, a, b)) u = frames_of ?r u
          @ (if \<not> direct ?r u \<and> outbox_has_room (r_db ?r) u f then [f] else [])
        \<and> (\<forall>k. map_of (r_online ?r) u = Some k \<longrightarrow>
             r_conns (fst (r1, a, b)) k = served (direct ?r u) m (r_conns ?r k))"
      unfolding fo [symmetric]
      by (rule fan_out_serves [OF up' u(1) _ u(2)]) (use u(3) online_unique [OF inv] in auto)
    moreover have "k \<noteq> i" if "map_of (r_online r) u = Some k" for k
      using online_conn [OF inv that] c auth u(2) by auto
    ultimately show "frames_of r' u = frames_of r u
          @ (if \<not> direct r u \<and> outbox_has_room (r_db r) u f then [f] else [])
        \<and> (\<forall>k. map_of (r_online r) u = Some k \<longrightarrow>
           r_conns r' k = served (direct r u) m (r_conns r k))"
      by (simp add: r' reply_eq frames_of_def)
  next
    assume "u \<notin> set recipients \<or> u = s"
    with ff up show "frames_of r' u = frames_of r u" by (simp add: r' frames_of_def reply_eq)
  next
    assume k: "k \<noteq> i" "\<forall>v \<in> set recipients. v \<noteq> s \<longrightarrow> map_of (r_online r) v \<noteq> Some k"
    with ff up have "r_conns r1 k = r_conns r k" by simp
    with k(1) show "r_conns r' k = r_conns r k" by (simp add: r' reply_eq)
  }
qed

lemma queue_served:
  "map_of (r_online r) u = Some k \<Longrightarrow> r_conns r' k = served (direct r u) m (r_conns r k) \<Longrightarrow>
     queue_of r' k = queue_of r k @ (if direct r u then [m] else [])"
  by (auto simp: queue_of_def served_def direct_def accepts_def push_def try_send_def split: option.splits)

text \<open>C14: A relayed message reaches each addressee once and unchanged. When a logged-in user's \<open>Send\<close>
  passes the limits, every other registered user it names gets exactly one copy, however often it is
  named: the \<open>Deliver\<close> made from the sender's login and the payload as it came, at the end of the
  channel if that takes it, otherwise at the end of the stored queue if that has room. The queue of
  everybody else, the sender included, is as before.\<close>

theorem send_exactly_once:
  assumes "reachable P cfg d r" and "db_ok P d" and "json_roundtrip P" and "db_up (r_db r)"
    and "r_conns r i = Some c" and "cn_authed c = Some s"
    and "fst (allow (cn_send_limiter c) (e_instant env))"
    and "length pl \<le> MAX_PAYLOAD" and "length recipients \<le> MAX_RECIPIENTS"
    and "to_json P (Deliver s recipients ty pl g (e_now env) cts) = Some f"
    and "r' = handle_frame P cfg env i (Frame (SendMsg recipients ty pl g cts)) r"
  shows "(\<forall>u \<in> set recipients. u \<noteq> s \<and> registered (r_db r) u \<longrightarrow>
      frames_of r' u = frames_of r u @ (if \<not> direct r u \<and> outbox_has_room (r_db r) u f then [f] else [])
      \<and> (\<forall>k. map_of (r_online r) u = Some k \<longrightarrow> queue_of r' k = queue_of r k
           @ (if direct r u then [Deliver s recipients ty pl g (e_now env) cts] else [])))
    \<and> (\<forall>u. u \<notin> set recipients \<or> u = s \<longrightarrow> frames_of r' u = frames_of r u)"
proof -
  let ?m = "Deliver s recipients ty pl g (e_now env) cts"
  note eff = handle_send_effect [OF reachable_inv [OF assms(1-3)] assms(4-9) refl assms(10,11)]
  have "queue_of r' k = queue_of r k @ (if direct r u then [?m] else [])"
    if "u \<in> set recipients" "u \<noteq> s" "registered (r_db r) u" "map_of (r_online r) u = Some k" for u k
    using queue_served [OF that(4)] eff(1) [OF that(1-3)] that(4) by blast
  with eff show ?thesis by blast
qed

definition before_send :: relay where
  "before_send = the (run_events demo_prims default_config (take 6 demo_events) (init_relay demo_db))"

lemma before_send_reachable [simp]: "reachable demo_prims default_config demo_db before_send"
proof -
  have "run_events demo_prims default_config (take 6 demo_events) (init_relay demo_db) \<noteq> None"
    by (simp add: demo_eval)
  then show ?thesis
    by (intro run_events_reachable [OF reachable.start]) (auto simp: before_send_def)
qed

lemma before_send_amy:
  "\<exists>c. r_conns before_send 0 = Some c \<and> cn_authed c = Some ''amy'' \<and> fst (allow (cn_send_limiter c) 0)"
  by (simp add: before_send_def demo_eval)

lemma before_send_bob:
  "registered (r_db before_send) ''bob''" "map_of (r_online before_send) ''bob'' = Some 1"
  "db_up (r_db before_send)" "direct before_send ''bob''"
  by (simp_all add: before_send_def demo_eval registered_def direct_def accepts_def)

theorem send_exactly_once_witness:
  "queue_of (handle_frame demo_prims default_config demo_env 0
      (Frame (SendMsg [''bob''] OLM ''second'' None 4)) before_send) 1
   = queue_of before_send 1 @ [new_msg]"
proof -
  obtain c where c: "r_conns before_send 0 = Some c" "cn_authed c = Some ''amy''"
      "fst (allow (cn_send_limiter c) (e_instant demo_env))"
    using before_send_amy by (auto simp: demo_env_def)
  have ser: "to_json demo_prims (Deliver ''amy'' [''bob''] OLM ''second'' None (e_now demo_env) 4) = Some ''N''"
    by (simp add: demo_prims_def demo_env_def new_msg_def old_msg_def)
  have size: "length ''second'' \<le> MAX_PAYLOAD" "length [''bob''] \<le> MAX_RECIPIENTS"
    by (simp_all add: MAX_PAYLOAD_def MAX_RECIPIENTS_def)
  from send_exactly_once [OF before_send_reachable demo_db_ok demo_json before_send_bob(3) c size ser refl]
  show ?thesis using before_send_bob by (simp add: new_msg_def demo_env_def)
qed

section \<open>Order is not kept\<close>

lemma flush_step_push:
  assumes "r_conns r k = Some c" and "cn_flush c = Some fl" and "fl_rows fl = (rid, f0) # rows"
    and "from_json P f0 = Some m0" and "accepts r k"
  shows "\<exists>r'. flush_step P k r = Some r' \<and> queue_of r' k = queue_of r k @ [m0]"
  using assms
  by (auto simp: flush_step_def Let_def accepts_def try_send_to_eq queue_of_def push_def try_send_def)

text \<open>C40: A new message overtakes the backlog. While a login's flush still has a stored message to hand
  over, a message sent meanwhile goes straight into the channel (the presence entry is made before the
  flush), so the client reads the newer message before the older one.\<close>

theorem live_overtakes_backlog:
  assumes "reachable P cfg d r" and "db_ok P d" and "json_roundtrip P" and "db_up (r_db r)"
    and "r_conns r i = Some c" and "cn_authed c = Some s"
    and "fst (allow (cn_send_limiter c) (e_instant env))"
    and "length pl \<le> MAX_PAYLOAD" and "length recipients \<le> MAX_RECIPIENTS"
    and "to_json P (Deliver s recipients ty pl g (e_now env) cts) = Some f"
    and "u \<in> set recipients" and "u \<noteq> s" and "registered (r_db r) u"
    and "map_of (r_online r) u = Some k" and "direct r u" and "length (queue_of r k) + 1 < OUTBOUND_CAP"
    and "r_conns r k = Some ck" and "cn_flush ck = Some fl" and "fl_rows fl = (rid, f0) # rows"
    and "from_json P f0 = Some m0"
    and "r' = handle_frame P cfg env i (Frame (SendMsg recipients ty pl g cts)) r"
  shows "\<exists>r''. flush_step P k r' = Some r'' \<and>
    queue_of r'' k = queue_of r k @ [Deliver s recipients ty pl g (e_now env) cts, m0]"
proof -
  let ?m = "Deliver s recipients ty pl g (e_now env) cts"
  have k: "r_conns r' k = served (direct r u) ?m (r_conns r k)"
    using handle_send_effect(1) [OF reachable_inv [OF assms(1-3)] assms(4-9) refl assms(10,21,11-13)]
      assms(14) by blast
  have q: "queue_of r' k = queue_of r k @ [?m]"
    using queue_served [OF assms(14) k] assms(15) by simp
  have ck: "r_conns r' k = Some (cn_chan_update (push ?m) ck)"
    using k assms(15,17) by (simp add: served_def)
  have "accepts r' k"
    using q ck assms(14-17) by (auto simp: accepts_def direct_def queue_of_def)
  with flush_step_push [OF ck _ assms(19,20)] q assms(18) show ?thesis by auto
qed

theorem live_overtakes_backlog_witness:
  "\<exists>r''. flush_step demo_prims 1 (handle_frame demo_prims default_config demo_env 0
      (Frame (SendMsg [''bob''] OLM ''second'' None 4)) before_send) = Some r''
    \<and> queue_of r'' 1 = queue_of before_send 1 @ [new_msg, old_msg]"
proof -
  obtain c where c: "r_conns before_send 0 = Some c" "cn_authed c = Some ''amy''"
      "fst (allow (cn_send_limiter c) (e_instant demo_env))"
    using before_send_amy by (auto simp: demo_env_def)
  have ser: "to_json demo_prims (Deliver ''amy'' [''bob''] OLM ''second'' None (e_now demo_env) 4) = Some ''N''"
    by (simp add: demo_prims_def demo_env_def new_msg_def old_msg_def)
  have size: "length ''second'' \<le> MAX_PAYLOAD" "length [''bob''] \<le> MAX_RECIPIENTS"
    by (simp_all add: MAX_PAYLOAD_def MAX_RECIPIENTS_def)
  have room: "length (queue_of before_send 1) + 1 < OUTBOUND_CAP"
    by (simp add: before_send_def demo_eval queue_of_def)
  have "case r_conns before_send 1 of None \<Rightarrow> False
      | Some ck \<Rightarrow> cn_flush ck = Some \<lparr>fl_rows = [(1, ''O'')], fl_delivered = []\<rparr>"
    by (simp add: before_send_def demo_eval)
  then obtain ck where ck: "r_conns before_send 1 = Some ck"
      "cn_flush ck = Some \<lparr>fl_rows = [(1, ''O'')], fl_delivered = []\<rparr>"
    by (auto split: option.splits)
  have old: "from_json demo_prims ''O'' = Some old_msg" by (simp add: demo_prims_def)
  have bob: "''bob'' \<in> set [''bob'']" "''bob'' \<noteq> ''amy''" by simp_all
  have rows: "fl_rows \<lparr>fl_rows = [(1, ''O'')], fl_delivered = []\<rparr> = (1, ''O'') # []" by simp
  from live_overtakes_backlog [OF before_send_reachable demo_db_ok demo_json before_send_bob(3) c size ser
      bob before_send_bob(1,2,4) room ck rows old refl]
  show ?thesis by (simp add: new_msg_def demo_env_def)
qed

text \<open>Logging out elsewhere silences a live session. When a user is logged in twice and the newer
  connection ends, the presence entry goes with it: the older connection is still logged in and
  reading, but nothing is pushed to it any more; messages for the user are stored instead.\<close>

theorem newer_session_end_hides_older:
  assumes "r_conns r i = Some c" and "cn_authed c = Some u" and "cn_reading c"
    and "r_conns r j = Some c'" and "cn_authed c' = Some u" and "i \<noteq> j"
    and "map_of (r_online r) u = Some j"
  shows "r_conns (end_reader j r) i = Some c \<and> \<not> direct (end_reader j r) u
    \<and> map_of (r_online (end_reader j r)) u = None"
  using assms
  by (auto simp: end_reader_def Let_def direct_def delete_conv')

theorem newer_session_end_hides_older_witness:
  "\<exists>r i c. reachable demo_prims default_config demo_db r \<and> r_conns r i = Some c \<and>
     cn_authed c = Some ''bob'' \<and> cn_reading c \<and> \<not> direct r ''bob''"
proof -
  let ?es = "demo_login 1 ''bob'' CHR ''B'' @ [FlushRow 1, FlushRow 1] @ demo_login 2 ''bob'' CHR ''B''"
  define r where "r = the (run_events demo_prims default_config ?es (init_relay demo_db))"
  have run: "run_events demo_prims default_config ?es (init_relay demo_db) = Some r"
    by (simp add: r_def demo_eval)
  obtain c c' where c: "r_conns r 1 = Some c" "cn_authed c = Some ''bob''" "cn_reading c"
      "r_conns r 2 = Some c'" "cn_authed c' = Some ''bob''" and on: "map_of (r_online r) ''bob'' = Some 2"
      and idle: "idle r 2"
    by (simp add: r_def demo_eval)
  have "reachable demo_prims default_config demo_db (end_reader 2 r)"
    using run_events_reachable [OF reachable.start run] run_event_step [of _ _ "Hangup 2" r] idle
    by (auto intro: next_step)
  with newer_session_end_hides_older [OF c(1-5) _ on] c(2,3) show ?thesis by auto
qed

section \<open>A flush that is not held up\<close>

fun flush_n :: "prims \<Rightarrow> nat \<Rightarrow> nat \<Rightarrow> relay \<Rightarrow> relay option" where
  "flush_n P i 0 r = Some r"
| "flush_n P i (Suc n) r =
     (case flush_step P i r of None \<Rightarrow> None | Some r' \<Rightarrow> flush_n P i n r')"

definition parsed :: "prims \<Rightarrow> (nat \<times> string) list \<Rightarrow> server_msg list" where
  "parsed P rows = List.map_filter (\<lambda>(rid, f). from_json P f) rows"

lemma parsed_Nil [simp]: "parsed P [] = []"
  by (simp add: parsed_def map_filter_simps)

lemma parsed_Cons [simp]:
  "parsed P ((rid, f) # rows) = (case from_json P f of None \<Rightarrow> parsed P rows | Some m \<Rightarrow> m # parsed P rows)"
  by (simp add: parsed_def map_filter_simps split: option.split)

definition db_without :: "db \<Rightarrow> nat list \<Rightarrow> db" where
  "db_without d ids = (case delete_frames d ids of Inl e \<Rightarrow> d | Inr d' \<Rightarrow> d')"

lemma flush_n_rows:
  assumes "r_conns r i = Some c" and "cn_flush c = Some \<lparr>fl_rows = rows, fl_delivered = ids\<rparr>"
    and "\<not> ch_closed (cn_chan c)" and "length (ch_queue (cn_chan c)) + length rows \<le> OUTBOUND_CAP"
  shows "\<exists>r'. flush_n P i (Suc (length rows)) r = Some r'
    \<and> queue_of r' i = ch_queue (cn_chan c) @ parsed P rows
    \<and> (\<exists>c'. r_conns r' i = Some c' \<and> cn_flush c' = None \<and> cn_reading c' = cn_reading c)
    \<and> r_db r' = (if ids @ map fst rows = [] then r_db r
                 else db_without (r_db r) (ids @ map fst rows))"
  using assms
proof (induction rows arbitrary: r c ids)
  case Nil
  then show ?case
    by (auto simp: flush_step_def end_flush_def queue_of_def db_without_def split: sum.split)
next
  case (Cons x rows)
  obtain rid f where x: "x = (rid, f)" by (cases x)
  let ?fl = "\<lparr>fl_rows = rows, fl_delivered = ids @ [rid]\<rparr>"
  show ?case
  proof (cases "from_json P f")
    case None
    let ?r = "upd_conn i (cn_flush_update (\<lambda>_. Some ?fl)) r"
    have s: "flush_step P i r = Some ?r"
      using Cons.prems x None by (simp add: flush_step_def Let_def)
    from Cons.IH [of ?r "c\<lparr>cn_flush := Some ?fl\<rparr>" "ids @ [rid]"] Cons.prems s x None
    show ?thesis by (auto simp del: flush_n.simps simp: flush_n.simps(2) [of P i "Suc _"])
  next
    case (Some m)
    let ?r = "upd_conn i (cn_flush_update (\<lambda>_. Some ?fl)) (upd_conn i (cn_chan_update (push m)) r)"
    have q: "ch_queue (push m (cn_chan c)) = ch_queue (cn_chan c) @ [m]"
      using Cons.prems by (simp add: push_def try_send_def)
    have s: "flush_step P i r = Some ?r"
      using Cons.prems x Some by (simp add: flush_step_def Let_def try_send_to_eq)
    from Cons.IH [of ?r "c\<lparr>cn_chan := push m (cn_chan c), cn_flush := Some ?fl\<rparr>" "ids @ [rid]"] Cons.prems s x Some q
    show ?thesis by (auto simp del: flush_n.simps simp: flush_n.simps(2) [of P i "Suc _"])
  qed
qed

text \<open>C34: A flush delivers the backlog. If the channel is open with room for the stored rows, the flush
  that a login or a \<open>Pull\<close> starts ends after one step per row and one more: all stored messages that
  parse are in the channel in the order they were stored, and the stored queue is empty.\<close>

theorem flush_delivers_backlog:
  assumes "db_inv (r_db r)" and "db_up (r_db r)" and "pending_frames (r_db r) u = Inr rows" and "rows \<noteq> []"
    and "r_conns r i = Some c" and "\<not> ch_closed (cn_chan c)"
    and "length (ch_queue (cn_chan c)) + length rows \<le> OUTBOUND_CAP"
  shows "\<exists>r'. flush_n P i (Suc (length rows)) (start_flush i u r) = Some r'
    \<and> queue_of r' i = queue_of r i @ parsed P rows \<and> frames_of r' u = [] \<and> idle r' i = cn_reading c"
proof -
  let ?r = "start_flush i u r"
  have c: "r_conns ?r i = Some (c\<lparr>cn_flush := Some \<lparr>fl_rows = rows, fl_delivered = []\<rparr>\<rparr>)"
    using assms by (simp add: start_flush_def)
  from flush_n_rows [OF c, where rows = rows and ids = "[]" and P = P] assms(4,6,7) obtain r' c' where r':
      "flush_n P i (Suc (length rows)) ?r = Some r'"
      "queue_of r' i = ch_queue (cn_chan c) @ parsed P rows" "r_conns r' i = Some c'" "cn_flush c' = None" "cn_reading c' = cn_reading c"
      "r_db r' = db_without (r_db r) (map fst rows)"
    by auto
  obtain d where d: "delete_frames (r_db r) (map fst rows) = Inr d"
    using assms(2) by (simp add: delete_frames_def query_def)
  have "map fst rows = map ob_id (rows_of (r_db r) u)"
    using assms(1-3) by (auto simp: pending_frames_inv query_def)
  then have "rows_of d u = []"
    using d assms(2) by (auto simp: delete_frames_def query_def rows_of_def filter_empty_conv)
  then have "frames_of r' u = []" using r'(6) d by (simp add: frames_of_def db_without_def)
  then show ?thesis using r' assms(5) by (auto simp: queue_of_def idle_def)
qed

theorem flush_delivers_backlog_witness:
  "\<exists>r'. flush_n demo_prims 0 2 (start_flush 0 ''bob'' ((init_relay demo_db)\<lparr>r_conns := [0 \<mapsto> new_conn 0]\<rparr>))
      = Some r' \<and> queue_of r' 0 = [old_msg] \<and> frames_of r' ''bob'' = []"
proof -
  let ?r = "(init_relay demo_db)\<lparr>r_conns := [0 \<mapsto> new_conn 0]\<rparr>"
  have d: "db_inv (r_db ?r)" "db_up (r_db ?r)" "pending_frames (r_db ?r) ''bob'' = Inr [(1, ''O'')]"
    "[(1 :: nat, ''O'')] \<noteq> []" "r_conns ?r 0 = Some (new_conn 0)" "\<not> ch_closed (cn_chan (new_conn 0))"
    "length (ch_queue (cn_chan (new_conn 0))) + length [(1 :: nat, ''O'')] \<le> OUTBOUND_CAP"
    using demo_db_ok by (simp_all add: demo_eval db_ok_def del: demo_db_ok)
  have "parsed demo_prims [(1, ''O'')] = [old_msg]" by (simp add: demo_prims_def)
  with flush_delivers_backlog [OF d, of demo_prims] show ?thesis
    by (auto simp: numeral_2_eq_2 queue_of_def new_conn_def new_channel_def)
qed

end
