(* ===== verification/Crypto_Util.thy ===== *)
theory Crypto_Util
  imports Prelude
begin

text \<open>
  The repository's own parts of backend/crypto/src/lib.rs: group keys, the safety-number fingerprint,
  key derivation and the sealed form of stored secrets. BLAKE3 and the AEAD are arguments; the
  ratchets themselves are vodozemac and appear in the client's theories as operations on pickles.
\<close>

section \<open>Group keys\<close>

definition GROUP_KEY_CHARSET :: string where
  "GROUP_KEY_CHARSET = ''ABCDEFGHIJKLMNOPQRSTUVWXYZabcdefghijklmnopqrstuvwxyz0123456789''"

definition GROUP_KEY_LEN :: nat where "GROUP_KEY_LEN = 8"

text \<open>The random indices \<open>gen_range\<close> gives are an argument; each is below the charset's length.\<close>

definition gerar_codigo :: "nat \<Rightarrow> (nat \<Rightarrow> nat) \<Rightarrow> string" where
  "gerar_codigo tamanho rng =
     map (\<lambda>i. GROUP_KEY_CHARSET ! (rng i mod length GROUP_KEY_CHARSET)) [0..<tamanho]"

definition gen_group_key :: "(nat \<Rightarrow> nat) \<Rightarrow> string" where
  "gen_group_key rng = gerar_codigo GROUP_KEY_LEN rng"

definition valid_group_key :: "string \<Rightarrow> bool" where
  "valid_group_key s = (length s = GROUP_KEY_LEN \<and> list_all is_ascii_alphanumeric s)"

lemma charset_alphanumeric: "list_all is_ascii_alphanumeric GROUP_KEY_CHARSET"
  by (simp add: GROUP_KEY_CHARSET_def ascii_class_defs)

lemma gen_group_key_valid: "valid_group_key (gen_group_key rng)"
proof -
  have "0 < length GROUP_KEY_CHARSET" by (simp add: GROUP_KEY_CHARSET_def)
  then have "is_ascii_alphanumeric (GROUP_KEY_CHARSET ! (n mod length GROUP_KEY_CHARSET))" for n
    using charset_alphanumeric by (metis list_all_length mod_less_divisor)
  then show ?thesis
    by (simp add: valid_group_key_def gen_group_key_def gerar_codigo_def list_all_iff)
qed

section \<open>Fingerprints and derived keys\<close>

text \<open>Two decimal digits of \<open>b * 100 / 256\<close>, which is below 100.\<close>

definition two_digits :: "nat \<Rightarrow> string" where
  "two_digits n = [hex_digit (n div 10), hex_digit (n mod 10)]"

definition fingerprint_digits :: "bytes \<Rightarrow> string" where
  "fingerprint_digits bs =
     concat (map (\<lambda>(i, b). (if i > 0 \<and> i mod 5 = 0 then '' '' else []) @ two_digits (byte b * 100 div 256))
       (enumerate 0 (take 15 bs)))"

definition safety_number :: "(bytes \<Rightarrow> bytes) \<Rightarrow> string \<Rightarrow> string" where
  "safety_number blake3 ed25519_b64 = fingerprint_digits (blake3 ed25519_b64)"

definition server_id :: "(bytes \<Rightarrow> bytes) \<Rightarrow> string \<Rightarrow> string" where
  "server_id blake3 addr = hex_encode (take 16 (blake3 addr))"

definition derive_vault_key :: "(bytes \<Rightarrow> bytes \<Rightarrow> bytes) \<Rightarrow> bytes \<Rightarrow> string \<Rightarrow> bytes" where
  "derive_vault_key keyed_blake3 master sid = keyed_blake3 master (''cherm-vault'' @ CHR 0x00 # sid)"

definition vault_key_sqlcipher :: "bytes \<Rightarrow> string" where
  "vault_key_sqlcipher key = ''x'' @ [CHR 0x27] @ hex_encode key @ [CHR 0x27]"

section \<open>Sealed blobs\<close>

definition PICKLE_NONCE :: nat where "PICKLE_NONCE = 24"

record aead =
  ae_seal :: "bytes \<Rightarrow> bytes \<Rightarrow> bytes \<Rightarrow> string + bytes"
  ae_open :: "bytes \<Rightarrow> bytes \<Rightarrow> bytes \<Rightarrow> string + bytes"

definition encrypt_blob :: "aead \<Rightarrow> bytes \<Rightarrow> bytes \<Rightarrow> bytes \<Rightarrow> string + bytes" where
  "encrypt_blob E nonce key plaintext =
     res_bind (map_err (\<lambda>e. ''encrypt: '' @ e) (ae_seal E key nonce plaintext)) (\<lambda>ct. Inr (nonce @ ct))"

definition decrypt_blob :: "aead \<Rightarrow> bytes \<Rightarrow> bytes \<Rightarrow> string + bytes" where
  "decrypt_blob E key blob =
     (if length blob < PICKLE_NONCE then Inl ''blob too short''
      else map_err (\<lambda>e. ''decrypt (wrong key or tampered): '' @ e)
             (ae_open E key (take PICKLE_NONCE blob) (drop PICKLE_NONCE blob)))"

lemma blob_roundtrip:
  assumes "encrypt_blob E nonce key pt = Inr blob" and "length nonce = PICKLE_NONCE"
    and "\<And>ct. ae_seal E key nonce pt = Inr ct \<Longrightarrow> ae_open E key nonce ct = Inr pt"
  shows "decrypt_blob E key blob = Inr pt"
  using assms by (auto simp: encrypt_blob_def decrypt_blob_def res_bind_Inr_iff map_err_def split: sum.splits)

section \<open>Ratchets\<close>

text \<open>
  The wrapper around vodozemac: devices (accounts), pairwise Olm sessions and Megolm group sessions. A
  session is its pickle; what vodozemac does on pickles is the record \<open>vodozemac\<close>, an argument. The wrapper
  parses keys and messages, refuses what does not parse and hands back the session that moved on.
\<close>

datatype olm_message = PreKey bytes | Normal bytes

record vodozemac =
  vz_ed25519 :: "bytes \<Rightarrow> string"
  vz_curve25519 :: "bytes \<Rightarrow> string"
  vz_sign :: "bytes \<Rightarrow> bytes \<Rightarrow> string"
  vz_generate_otks :: "bytes \<Rightarrow> nat \<Rightarrow> bytes"
  vz_one_time_keys :: "bytes \<Rightarrow> (string \<times> string) list"
  vz_mark_published :: "bytes \<Rightarrow> bytes"
  vz_curve_key :: "string \<Rightarrow> string + bytes"
  vz_outbound :: "bytes \<Rightarrow> bytes \<Rightarrow> bytes \<Rightarrow> string + bytes"
  vz_olm_message :: "nat \<Rightarrow> bytes \<Rightarrow> string + olm_message"
  vz_inbound :: "bytes \<Rightarrow> bytes \<Rightarrow> bytes \<Rightarrow> string + bytes \<times> bytes \<times> bytes"
  vz_encrypt :: "bytes \<Rightarrow> bytes \<Rightarrow> string + (nat \<times> bytes) \<times> bytes"
  vz_decrypt :: "bytes \<Rightarrow> olm_message \<Rightarrow> string + bytes \<times> bytes"
  vz_group_key :: "bytes \<Rightarrow> string"
  vz_group_encrypt :: "bytes \<Rightarrow> bytes \<Rightarrow> bytes \<times> bytes"
  vz_session_key :: "string \<Rightarrow> string + bytes"
  vz_inbound_group :: "bytes \<Rightarrow> bytes"
  vz_group_session_id :: "bytes \<Rightarrow> string"
  vz_megolm_message :: "bytes \<Rightarrow> string + bytes"
  vz_group_decrypt :: "bytes \<Rightarrow> bytes \<Rightarrow> string + (bytes \<times> nat) \<times> bytes"

definition ed25519_b64 :: "vodozemac \<Rightarrow> bytes \<Rightarrow> string" where
  "ed25519_b64 Z device = vz_ed25519 Z device"

definition curve25519_b64 :: "vodozemac \<Rightarrow> bytes \<Rightarrow> string" where
  "curve25519_b64 Z device = vz_curve25519 Z device"

definition generate_one_time_keys :: "vodozemac \<Rightarrow> bytes \<Rightarrow> nat \<Rightarrow> (string \<times> string) list \<times> bytes" where
  "generate_one_time_keys Z device n =
     (let device' = vz_generate_otks Z device n in (vz_one_time_keys Z device', device'))"

definition start_session :: "vodozemac \<Rightarrow> bytes \<Rightarrow> string \<Rightarrow> string \<Rightarrow> string + bytes" where
  "start_session Z device their_curve their_otk =
     res_bind (map_err (\<lambda>_. ''peer curve key'') (vz_curve_key Z their_curve)) (\<lambda>ident.
     res_bind (map_err (\<lambda>_. ''peer one-time key'') (vz_curve_key Z their_otk)) (\<lambda>otk.
     map_err (\<lambda>e. ''outbound session: '' @ e) (vz_outbound Z device ident otk)))"

text \<open>The new session, the first plaintext, and the account with the one-time key used up.\<close>

definition create_inbound ::
    "vodozemac \<Rightarrow> bytes \<Rightarrow> string \<Rightarrow> nat \<Rightarrow> bytes \<Rightarrow> string + (bytes \<times> bytes) \<times> bytes" where
  "create_inbound Z device their_curve olm_type olm_body =
     res_bind (map_err (\<lambda>_. ''peer curve key'') (vz_curve_key Z their_curve)) (\<lambda>ident.
     res_bind (map_err (\<lambda>e. ''olm message: '' @ e) (vz_olm_message Z olm_type olm_body)) (\<lambda>msg. case msg of
         Normal _ \<Rightarrow> Inl ''expected a prekey message to start a session''
       | PreKey pre \<Rightarrow>
           res_bind (map_err (\<lambda>e. ''inbound session: '' @ e) (vz_inbound Z device ident pre))
             (\<lambda>(session, plaintext, device'). Inr ((session, plaintext), device'))))"

definition olm_encrypt :: "vodozemac \<Rightarrow> bytes \<Rightarrow> bytes \<Rightarrow> string + (nat \<times> bytes) \<times> bytes" where
  "olm_encrypt Z session plaintext = map_err (\<lambda>e. ''olm encrypt: '' @ e) (vz_encrypt Z session plaintext)"

definition olm_decrypt :: "vodozemac \<Rightarrow> bytes \<Rightarrow> nat \<Rightarrow> bytes \<Rightarrow> string + bytes \<times> bytes" where
  "olm_decrypt Z session olm_type body =
     res_bind (map_err (\<lambda>e. ''olm message: '' @ e) (vz_olm_message Z olm_type body)) (\<lambda>msg.
     map_err (\<lambda>e. ''olm decrypt: '' @ e) (vz_decrypt Z session msg))"

definition session_key_b64 :: "vodozemac \<Rightarrow> bytes \<Rightarrow> string" where
  "session_key_b64 Z sender = vz_group_key Z sender"

definition group_encrypt :: "vodozemac \<Rightarrow> bytes \<Rightarrow> bytes \<Rightarrow> bytes \<times> bytes" where
  "group_encrypt Z sender plaintext = vz_group_encrypt Z sender plaintext"

definition from_session_key_b64 :: "vodozemac \<Rightarrow> string \<Rightarrow> string + bytes" where
  "from_session_key_b64 Z key =
     res_bind (map_err (\<lambda>_. ''megolm session key'') (vz_session_key Z key)) (\<lambda>k. Inr (vz_inbound_group Z k))"

definition group_decrypt :: "vodozemac \<Rightarrow> bytes \<Rightarrow> bytes \<Rightarrow> string + (bytes \<times> nat) \<times> bytes" where
  "group_decrypt Z receiver body =
     res_bind (map_err (\<lambda>e. ''megolm message: '' @ e) (vz_megolm_message Z body)) (\<lambda>msg.
     map_err (\<lambda>e. ''megolm decrypt: '' @ e) (vz_group_decrypt Z receiver msg))"

section \<open>The safety number\<close>

text \<open>The safety number has three groups. For a digest of at least 15 bytes the text is three groups
  of ten decimal digits, 32 characters, not the six groups of five that the source announces.\<close>

theorem safety_number_shape:
  assumes "15 \<le> length (blake3 k)"
  shows "\<exists>a b c. safety_number blake3 k = a @ '' '' @ b @ '' '' @ c \<and>
    length a = 10 \<and> length b = 10 \<and> length c = 10 \<and> list_all is_ascii_digit (a @ b @ c)"
proof -
  let ?t = "take 15 (blake3 k)"
  have len: "length ?t = 15" using assms by simp
  have dig: "length (two_digits n) = 2" for n by (simp add: two_digits_def)
  have dec: "list_all is_ascii_digit (two_digits n)" if "n < 100" for n
    using that by (simp add: two_digits_def hex_digit_decimal less_mult_imp_div_less)
  have small: "byte b * 100 div 256 < 100" for b
    by (rule less_mult_imp_div_less) (use byte_less_256 [of b] in linarith)
  define x where "x i = ?t ! i" for i
  have "?t = map x [0..<15]"
    using map_nth [of ?t] len by (simp add: x_def [abs_def])
  moreover have "[0..<15] = [0, 1, 2, 3, 4, 5, 6, 7, 8, 9, 10, 11, 12, 13, 14]"
    by (simp add: upt_rec)
  ultimately have t: "?t = map x [0, 1, 2, 3, 4, 5, 6, 7, 8, 9, 10, 11, 12, 13, 14]" by simp
  let ?d = "\<lambda>i. two_digits (byte (x i) * 100 div 256)"
  have "safety_number blake3 k =
      (?d 0 @ ?d 1 @ ?d 2 @ ?d 3 @ ?d 4) @ '' '' @ (?d 5 @ ?d 6 @ ?d 7 @ ?d 8 @ ?d 9) @ '' '' @
      (?d 10 @ ?d 11 @ ?d 12 @ ?d 13 @ ?d 14)"
    unfolding safety_number_def fingerprint_digits_def t by simp
  then show ?thesis
    using dig dec [OF small]
    by (intro exI [of _ "?d 0 @ ?d 1 @ ?d 2 @ ?d 3 @ ?d 4"] exI [of _ "?d 5 @ ?d 6 @ ?d 7 @ ?d 8 @ ?d 9"]
        exI [of _ "?d 10 @ ?d 11 @ ?d 12 @ ?d 13 @ ?d 14"]) simp
qed

theorem safety_number_shape_witness:
  "\<exists>a b c. safety_number (\<lambda>_. replicate 15 CHR 0xFF) ''k'' = a @ '' '' @ b @ '' '' @ c \<and> length a = 10"
  using safety_number_shape [of "\<lambda>_. replicate 15 CHR 0xFF" "''k''"] by auto

end
