(* ===== verification/Vault.thy ===== *)
theory Vault
  imports Crypto_Util Interfaces "HOL-Library.AList"
begin

text \<open>
  The client's vault, backend/core/src/vault.rs: its tables, one definition per operation, and what
  the rest of the client relies on. A table with a primary key is an association list in row order
  (\<open>INSERT .. ON CONFLICT DO UPDATE\<close> replaces the row in place), the others are lists of rows.
  The file's AES layer, the mutex and SQL itself are not modelled; \<open>v_up\<close> says whether SQLite answers.
\<close>

section \<open>Tables\<close>

record contact =
  c_uuid :: string
  c_ed25519 :: "string option"
  c_curve25519 :: "string option"

record chat_row =
  ch_id :: string
  ch_kind :: string
  ch_title :: string
  ch_created :: millis

record message_row =
  m_id :: nat
  m_chat :: string
  m_sender :: string
  m_body :: string
  m_ts :: millis
  m_outgoing :: int
  m_recv_ts :: millis

record group_meta =
  group_id :: string
  group_key :: string
  access_mode :: string
  owner :: string

record vault =
  v_up :: bool
  meta :: "(string \<times> string) list"
  contacts :: "(string \<times> contact) list"
  olm_sessions :: "(string \<times> bytes) list"
  chats :: "chat_row list"
  chat_members :: "(string \<times> string) list"
  group_out :: "(string \<times> bytes) list"
  group_in :: "((string \<times> string) \<times> bytes) list"
  messages :: "message_row list"
  next_message_id :: nat
  groups :: "group_meta list"
  group_bans :: "((string \<times> string) \<times> millis) list"
  group_suspensions :: "((string \<times> string) \<times> millis) list"
  group_join_requests :: "((string \<times> string) \<times> millis) list"
  megolm_seen :: "((string \<times> string \<times> string) \<times> int) list"

definition empty_vault :: vault where
  "empty_vault = \<lparr>v_up = True, meta = [], contacts = [], olm_sessions = [], chats = [], chat_members = [],
     group_out = [], group_in = [], messages = [], next_message_id = 1, groups = [], group_bans = [],
     group_suspensions = [], group_join_requests = [], megolm_seen = []\<rparr>"

text \<open>A query or statement: its value, or SQLite's error.\<close>

definition vq :: "vault \<Rightarrow> 'a \<Rightarrow> string + 'a" where
  "vq v x = (if v_up v then Inr x else Inl ''database error'')"

lemma vq_Inr [simp]: "vq v x = Inr y \<longleftrightarrow> v_up v \<and> y = x"
  by (auto simp: vq_def)

lemma vq_up [simp]: "v_up v \<Longrightarrow> vq v x = Inr x"
  by (simp add: vq_def)

section \<open>Meta data, the account and the ratchet sessions\<close>

definition meta_get :: "vault \<Rightarrow> string \<Rightarrow> string + string option" where
  "meta_get v key = vq v (map_of (meta v) key)"

definition meta_set :: "vault \<Rightarrow> string \<Rightarrow> string \<Rightarrow> string + vault" where
  "meta_set v key value = vq v (v\<lparr>meta := AList.update key value (meta v)\<rparr>)"

text \<open>
  A pickle is sealed before it is stored and opened when it is loaded: \<open>to_pickle_encrypted\<close> and
  \<open>from_pickle_encrypted\<close> under the vault's key, and base64 for the account.
\<close>

record sealer =
  to_pickle_encrypted :: "bytes \<Rightarrow> string + bytes"
  from_pickle_encrypted :: "bytes \<Rightarrow> string + bytes"
  b64_enc :: "bytes \<Rightarrow> string"
  b64_dec :: "string \<Rightarrow> string + bytes"

definition vault_sealer ::
    "aead \<Rightarrow> bytes \<Rightarrow> bytes \<Rightarrow> (bytes \<Rightarrow> string) \<Rightarrow> (string \<Rightarrow> string + bytes) \<Rightarrow> sealer" where
  "vault_sealer E nonce key enc dec =
     \<lparr>to_pickle_encrypted = encrypt_blob E nonce key, from_pickle_encrypted = decrypt_blob E key,
      b64_enc = enc, b64_dec = dec\<rparr>"

definition seals :: "sealer \<Rightarrow> bool" where
  "seals K = ((\<forall>p. \<exists>b. to_pickle_encrypted K p = Inr b) \<and>
     (\<forall>p b. to_pickle_encrypted K p = Inr b \<longrightarrow> from_pickle_encrypted K b = Inr p) \<and>
     (\<forall>b. b64_dec K (b64_enc K b) = Inr b))"

definition save_account :: "vault \<Rightarrow> sealer \<Rightarrow> bytes \<Rightarrow> string + vault" where
  "save_account v K device =
     res_bind (to_pickle_encrypted K device) (\<lambda>blob. meta_set v ''account_pickle'' (b64_enc K blob))"

definition load_account :: "vault \<Rightarrow> sealer \<Rightarrow> string + bytes option" where
  "load_account v K =
     res_bind (meta_get v ''account_pickle'') (\<lambda>r. case r of
         None \<Rightarrow> Inr None
       | Some s \<Rightarrow> res_bind (b64_dec K s) (\<lambda>blob.
           res_bind (from_pickle_encrypted K blob) (\<lambda>d. Inr (Some d))))"

text \<open>The body the three session tables share: look the blob up, open it if there is one.\<close>

definition open_row :: "vault \<Rightarrow> sealer \<Rightarrow> bytes option \<Rightarrow> string + bytes option" where
  "open_row v K row = res_bind (vq v row) (\<lambda>r. case r of
       None \<Rightarrow> Inr None
     | Some b \<Rightarrow> res_bind (from_pickle_encrypted K b) (\<lambda>s. Inr (Some s)))"

definition save_olm :: "vault \<Rightarrow> sealer \<Rightarrow> string \<Rightarrow> bytes \<Rightarrow> string + vault" where
  "save_olm v K peer session = res_bind (to_pickle_encrypted K session) (\<lambda>blob.
     vq v (v\<lparr>olm_sessions := AList.update peer blob (olm_sessions v)\<rparr>))"

definition load_olm :: "vault \<Rightarrow> sealer \<Rightarrow> string \<Rightarrow> string + bytes option" where
  "load_olm v K peer = open_row v K (map_of (olm_sessions v) peer)"

definition save_group_out :: "vault \<Rightarrow> sealer \<Rightarrow> string \<Rightarrow> bytes \<Rightarrow> string + vault" where
  "save_group_out v K gid s = res_bind (to_pickle_encrypted K s) (\<lambda>blob.
     vq v (v\<lparr>group_out := AList.update gid blob (group_out v)\<rparr>))"

definition load_group_out :: "vault \<Rightarrow> sealer \<Rightarrow> string \<Rightarrow> string + bytes option" where
  "load_group_out v K gid = open_row v K (map_of (group_out v) gid)"

definition save_group_in :: "vault \<Rightarrow> sealer \<Rightarrow> string \<Rightarrow> string \<Rightarrow> bytes \<Rightarrow> string + vault" where
  "save_group_in v K gid sender r = res_bind (to_pickle_encrypted K r) (\<lambda>blob.
     vq v (v\<lparr>group_in := AList.update (gid, sender) blob (group_in v)\<rparr>))"

definition delete_group_in :: "vault \<Rightarrow> string \<Rightarrow> string \<Rightarrow> string + vault" where
  "delete_group_in v gid sender = vq v (v\<lparr>group_in := AList.delete (gid, sender) (group_in v)\<rparr>)"

definition load_group_in :: "vault \<Rightarrow> sealer \<Rightarrow> string \<Rightarrow> string \<Rightarrow> string + bytes option" where
  "load_group_in v K gid sender = open_row v K (map_of (group_in v) (gid, sender))"

section \<open>Contacts\<close>

datatype identity_check = FirstContact | Match | Conflict

definition get_contact_curve :: "vault \<Rightarrow> string \<Rightarrow> string + string option" where
  "get_contact_curve v username = vq v (Option.bind (map_of (contacts v) username) c_curve25519)"

definition get_contact_ed :: "vault \<Rightarrow> string \<Rightarrow> string + string option" where
  "get_contact_ed v username = vq v (Option.bind (map_of (contacts v) username) c_ed25519)"

definition check_identity :: "vault \<Rightarrow> string \<Rightarrow> string \<Rightarrow> string + identity_check" where
  "check_identity v username ed =
     res_bind (get_contact_ed v username) (\<lambda>r. case r of
         None \<Rightarrow> Inr FirstContact
       | Some e \<Rightarrow> if e = [] then Inr FirstContact else if e = ed then Inr Match else Inr Conflict)"

definition unpinned :: "contact \<Rightarrow> bool" where
  "unpinned c = (c_ed25519 c = None \<or> c_ed25519 c = Some [])"

definition merge_contact :: "contact option \<Rightarrow> string \<Rightarrow> string \<Rightarrow> string \<Rightarrow> contact" where
  "merge_contact old uuid ed curve = (case old of
       None \<Rightarrow> \<lparr>c_uuid = uuid, c_ed25519 = Some ed, c_curve25519 = Some curve\<rparr>
     | Some c \<Rightarrow> \<lparr>c_uuid = uuid,
          c_ed25519 = (if unpinned c then Some ed else c_ed25519 c),
          c_curve25519 = (if unpinned c \<or> c_ed25519 c = Some ed then Some curve else c_curve25519 c)\<rparr>)"

definition upsert_contact :: "vault \<Rightarrow> string \<Rightarrow> string \<Rightarrow> string \<Rightarrow> string \<Rightarrow> string + vault" where
  "upsert_contact v username uuid ed curve =
     vq v (v\<lparr>contacts := AList.update username
            (merge_contact (map_of (contacts v) username) uuid ed curve) (contacts v)\<rparr>)"

section \<open>The replay guard\<close>

definition megolm_accept :: "vault \<Rightarrow> string \<Rightarrow> string \<Rightarrow> string \<Rightarrow> nat \<Rightarrow> string + bool \<times> vault" where
  "megolm_accept v gid sender session_id index =
     res_bind (vq v (map_of (megolm_seen v) (gid, sender, session_id))) (\<lambda>prev.
       let idx = int index in
       if (case prev of Some mx \<Rightarrow> idx \<le> mx | None \<Rightarrow> False) then Inr (False, v)
       else vq v (True, v\<lparr>megolm_seen := AList.update (gid, sender, session_id) idx (megolm_seen v)\<rparr>))"

section \<open>Chats and members\<close>

definition upsert_chat :: "millis \<Rightarrow> vault \<Rightarrow> string \<Rightarrow> string \<Rightarrow> string \<Rightarrow> string + vault" where
  "upsert_chat now v cid kind title =
     vq v (if \<exists>c \<in> set (chats v). ch_id c = cid
       then v\<lparr>chats := map (\<lambda>c. if ch_id c = cid then c\<lparr>ch_kind := kind, ch_title := title\<rparr> else c) (chats v)\<rparr>
       else v\<lparr>chats := chats v @ [\<lparr>ch_id = cid, ch_kind = kind, ch_title = title, ch_created = now\<rparr>]\<rparr>)"

definition chat_exists :: "vault \<Rightarrow> string \<Rightarrow> string + bool" where
  "chat_exists v cid = vq v (\<exists>c \<in> set (chats v). ch_id c = cid)"

definition get_chat :: "vault \<Rightarrow> string \<Rightarrow> string + (string \<times> string) option" where
  "get_chat v cid = vq v (map_option (\<lambda>c. (ch_kind c, ch_title c)) (find (\<lambda>c. ch_id c = cid) (chats v)))"

definition last_ts :: "vault \<Rightarrow> string \<Rightarrow> millis" where
  "last_ts v cid = (let ts = map m_ts (filter (\<lambda>m. m_chat m = cid) (messages v))
     in if ts = [] then 0 else Max (set ts))"

text \<open>\<open>ORDER BY last_ts DESC, c.title ASC\<close>, ties in row order.\<close>

definition list_chats :: "vault \<Rightarrow> string + (string \<times> string \<times> string \<times> millis) list" where
  "list_chats v = vq v (map (\<lambda>c. (ch_id c, ch_kind c, ch_title c, last_ts v (ch_id c)))
     (sort_key (\<lambda>c. - last_ts v (ch_id c)) (sort_key ch_title (chats v))))"

definition add_member :: "vault \<Rightarrow> string \<Rightarrow> string \<Rightarrow> string + vault" where
  "add_member v cid username = vq v
     (if (cid, username) \<in> set (chat_members v) then v
      else v\<lparr>chat_members := chat_members v @ [(cid, username)]\<rparr>)"

definition remove_member :: "vault \<Rightarrow> string \<Rightarrow> string \<Rightarrow> string + vault" where
  "remove_member v cid username =
     vq v (v\<lparr>chat_members := filter (\<lambda>r. r \<noteq> (cid, username)) (chat_members v)\<rparr>)"

definition get_members :: "vault \<Rightarrow> string \<Rightarrow> string + string list" where
  "get_members v cid = vq v (map snd (filter (\<lambda>r. fst r = cid) (chat_members v)))"

definition is_member :: "vault \<Rightarrow> string \<Rightarrow> string \<Rightarrow> string + bool" where
  "is_member v cid username = vq v ((cid, username) \<in> set (chat_members v))"

definition delete_chat :: "vault \<Rightarrow> string \<Rightarrow> string + vault" where
  "delete_chat v cid = vq v (v\<lparr>
     chats := filter (\<lambda>c. ch_id c \<noteq> cid) (chats v),
     chat_members := filter (\<lambda>r. fst r \<noteq> cid) (chat_members v),
     messages := filter (\<lambda>m. m_chat m \<noteq> cid) (messages v),
     olm_sessions := filter (\<lambda>r. fst r \<noteq> cid) (olm_sessions v),
     group_out := filter (\<lambda>r. fst r \<noteq> cid) (group_out v),
     group_in := filter (\<lambda>r. fst (fst r) \<noteq> cid) (group_in v),
     groups := filter (\<lambda>g. group_id g \<noteq> cid) (groups v),
     group_bans := filter (\<lambda>r. fst (fst r) \<noteq> cid) (group_bans v),
     group_suspensions := filter (\<lambda>r. fst (fst r) \<noteq> cid) (group_suspensions v),
     group_join_requests := filter (\<lambda>r. fst (fst r) \<noteq> cid) (group_join_requests v),
     megolm_seen := filter (\<lambda>r. fst (fst r) \<noteq> cid) (megolm_seen v)\<rparr>)"

section \<open>Group access metadata\<close>

datatype key_insert = Inserted vault | KeyTaken | GroupExists

definition get_group_meta :: "vault \<Rightarrow> string \<Rightarrow> string + group_meta option" where
  "get_group_meta v gid = vq v (find (\<lambda>g. group_id g = gid) (groups v))"

definition get_group_by_key :: "vault \<Rightarrow> string \<Rightarrow> string + group_meta option" where
  "get_group_by_key v key = vq v (find (\<lambda>g. group_key g = key) (groups v))"

text \<open>SQLite looks at the upsert's target first, so an existing group wins over a taken key.\<close>

definition try_insert_group :: "vault \<Rightarrow> string \<Rightarrow> string \<Rightarrow> string \<Rightarrow> string \<Rightarrow> string + key_insert" where
  "try_insert_group v gid key mode own = vq v
     (if \<exists>g \<in> set (groups v). group_id g = gid then GroupExists
      else if \<exists>g \<in> set (groups v). group_key g = key then KeyTaken
      else Inserted (v\<lparr>groups := groups v @ [\<lparr>group_id = gid, group_key = key, access_mode = mode, owner = own\<rparr>]\<rparr>))"

text \<open>The retry loop with \<open>n\<close> tries left; \<open>gen i\<close> is the \<open>i\<close>-th candidate.\<close>

fun mint_group_key ::
    "nat \<Rightarrow> nat \<Rightarrow> vault \<Rightarrow> string \<Rightarrow> string \<Rightarrow> string \<Rightarrow> (nat \<Rightarrow> string) \<Rightarrow> string + string \<times> vault" where
  "mint_group_key 0 i v gid mode own gen = Inl ''could not mint a unique group key after 64 tries''"
| "mint_group_key (Suc n) i v gid mode own gen =
     res_bind (try_insert_group v gid (gen i) mode own) (\<lambda>k. case k of
         Inserted v' \<Rightarrow> Inr (gen i, v')
       | GroupExists \<Rightarrow> res_bind (get_group_meta v gid) (\<lambda>m.
           ok_or ''group row missing after conflict'' (map_option (\<lambda>g. (group_key g, v)) m))
       | KeyTaken \<Rightarrow> mint_group_key n (Suc i) v gid mode own gen)"

definition create_group_meta ::
    "vault \<Rightarrow> string \<Rightarrow> string \<Rightarrow> string \<Rightarrow> (nat \<Rightarrow> string) \<Rightarrow> string + string \<times> vault" where
  "create_group_meta v gid mode own gen = mint_group_key 64 0 v gid mode own gen"

definition upsert_group_meta :: "vault \<Rightarrow> string \<Rightarrow> string \<Rightarrow> string \<Rightarrow> string \<Rightarrow> string + vault" where
  "upsert_group_meta v gid key mode own = vq v
     (if \<exists>g \<in> set (groups v). group_id g \<noteq> gid \<and> group_key g = key then v
      else if \<exists>g \<in> set (groups v). group_id g = gid
      then v\<lparr>groups := map (\<lambda>g. if group_id g = gid
             then g\<lparr>group_key := key, access_mode := mode, owner := own\<rparr> else g) (groups v)\<rparr>
      else v\<lparr>groups := groups v @ [\<lparr>group_id = gid, group_key = key, access_mode = mode, owner = own\<rparr>]\<rparr>)"

definition set_access_mode :: "vault \<Rightarrow> string \<Rightarrow> string \<Rightarrow> string + vault" where
  "set_access_mode v gid mode = vq v
     (v\<lparr>groups := map (\<lambda>g. if group_id g = gid then g\<lparr>access_mode := mode\<rparr> else g) (groups v)\<rparr>)"

fun backfill :: "string list \<Rightarrow> vault \<Rightarrow> (string \<Rightarrow> nat \<Rightarrow> string) \<Rightarrow> string + vault" where
  "backfill [] v gen = Inr v"
| "backfill (gid # gids) v gen =
     res_bind (create_group_meta v gid ''open'' [] (gen gid)) (\<lambda>(_, v'). backfill gids v' gen)"

definition backfill_group_keys :: "vault \<Rightarrow> (string \<Rightarrow> nat \<Rightarrow> string) \<Rightarrow> string + vault" where
  "backfill_group_keys v gen =
     res_bind (vq v (map ch_id (filter (\<lambda>c. ch_kind c = ''group'' \<and>
         ch_id c \<notin> group_id ` set (groups v)) (chats v)))) (\<lambda>gids. backfill gids v gen)"

definition migrate_recv_ts :: "vault \<Rightarrow> string + vault" where
  "migrate_recv_ts v = vq v
     (v\<lparr>messages := map (\<lambda>m. if m_recv_ts m = 0 then m\<lparr>m_recv_ts := m_ts m\<rparr> else m) (messages v)\<rparr>)"

text \<open>Opening: a wrong key makes the first statement fail; then the two migrations.\<close>

definition open_vault :: "bool \<Rightarrow> vault \<Rightarrow> (string \<Rightarrow> nat \<Rightarrow> string) \<Rightarrow> string + vault" where
  "open_vault key_ok v gen =
     (if \<not> key_ok then Inl ''file is not a database''
      else res_bind (migrate_recv_ts v) (\<lambda>v'. backfill_group_keys v' gen))"

section \<open>Bans, suspensions and join requests\<close>

definition ban_user :: "vault \<Rightarrow> string \<Rightarrow> string \<Rightarrow> millis \<Rightarrow> string + vault" where
  "ban_user v gid username ts = vq v (v\<lparr>group_bans := AList.update (gid, username) ts (group_bans v)\<rparr>)"

definition unban_user :: "vault \<Rightarrow> string \<Rightarrow> string \<Rightarrow> string + vault" where
  "unban_user v gid username = vq v (v\<lparr>group_bans := AList.delete (gid, username) (group_bans v)\<rparr>)"

definition is_banned :: "vault \<Rightarrow> string \<Rightarrow> string \<Rightarrow> string + bool" where
  "is_banned v gid username = vq v (map_of (group_bans v) (gid, username) \<noteq> None)"

definition list_bans :: "vault \<Rightarrow> string \<Rightarrow> string + string list" where
  "list_bans v gid = vq v (sort (map (\<lambda>r. snd (fst r)) (filter (\<lambda>r. fst (fst r) = gid) (group_bans v))))"

definition suspend_user :: "vault \<Rightarrow> string \<Rightarrow> string \<Rightarrow> millis \<Rightarrow> string + vault" where
  "suspend_user v gid username until_ts =
     vq v (v\<lparr>group_suspensions := AList.update (gid, username) until_ts (group_suspensions v)\<rparr>)"

definition clear_suspension :: "vault \<Rightarrow> string \<Rightarrow> string \<Rightarrow> string + vault" where
  "clear_suspension v gid username =
     vq v (v\<lparr>group_suspensions := AList.delete (gid, username) (group_suspensions v)\<rparr>)"

definition suspended_until :: "vault \<Rightarrow> string \<Rightarrow> string \<Rightarrow> string + millis option" where
  "suspended_until v gid username = vq v (map_of (group_suspensions v) (gid, username))"

definition is_suspended :: "vault \<Rightarrow> string \<Rightarrow> string \<Rightarrow> millis \<Rightarrow> string + bool \<times> vault" where
  "is_suspended v gid username now =
     res_bind (suspended_until v gid username) (\<lambda>r. case r of
         Some until_ts \<Rightarrow>
           if until_ts > now then Inr (True, v)
           else res_bind (clear_suspension v gid username) (\<lambda>v'. Inr (False, v'))
       | None \<Rightarrow> Inr (False, v))"

definition add_join_request :: "vault \<Rightarrow> string \<Rightarrow> string \<Rightarrow> millis \<Rightarrow> string + vault" where
  "add_join_request v gid username ts =
     vq v (v\<lparr>group_join_requests := AList.update (gid, username) ts (group_join_requests v)\<rparr>)"

definition has_join_request :: "vault \<Rightarrow> string \<Rightarrow> string \<Rightarrow> string + bool" where
  "has_join_request v gid username = vq v (map_of (group_join_requests v) (gid, username) \<noteq> None)"

definition remove_join_request :: "vault \<Rightarrow> string \<Rightarrow> string \<Rightarrow> string + vault" where
  "remove_join_request v gid username =
     vq v (v\<lparr>group_join_requests := AList.delete (gid, username) (group_join_requests v)\<rparr>)"

definition list_join_requests :: "vault \<Rightarrow> string \<Rightarrow> string + string list" where
  "list_join_requests v gid = vq v (map (\<lambda>r. snd (fst r))
     (sort_key snd (filter (\<lambda>r. fst (fst r) = gid) (group_join_requests v))))"

section \<open>Messages\<close>

definition insert_message ::
    "millis \<Rightarrow> vault \<Rightarrow> string \<Rightarrow> string \<Rightarrow> string \<Rightarrow> millis \<Rightarrow> int \<Rightarrow> string + vault" where
  "insert_message recv_ts v cid sender body ts outgoing = vq v
     (v\<lparr>messages := messages v @ [\<lparr>m_id = next_message_id v, m_chat = cid, m_sender = sender, m_body = body,
          m_ts = ts, m_outgoing = outgoing, m_recv_ts = recv_ts\<rparr>],
        next_message_id := next_message_id v + 1\<rparr>)"

text \<open>\<open>ORDER BY recv_ts DESC, id DESC\<close>; a negative \<open>LIMIT\<close> means none.\<close>

definition newest_first :: "message_row list \<Rightarrow> message_row list" where
  "newest_first ms = rev (sort_key m_recv_ts (sort_key m_id ms))"

definition get_messages :: "vault \<Rightarrow> string \<Rightarrow> int \<Rightarrow> string + (string \<times> string \<times> millis \<times> int) list" where
  "get_messages v cid lim = vq v
     (let ms = newest_first (filter (\<lambda>m. m_chat m = cid) (messages v))
      in rev (map (\<lambda>m. (m_sender m, m_body m, m_ts m, m_outgoing m))
           (if lim < 0 then ms else take (nat lim) ms)))"

section \<open>Trust on first use\<close>

definition pinned_key :: "vault \<Rightarrow> string \<Rightarrow> string option" where
  "pinned_key v username = Option.bind (map_of (contacts v) username) c_ed25519"

definition pinned_curve :: "vault \<Rightarrow> string \<Rightarrow> string option" where
  "pinned_curve v username = Option.bind (map_of (contacts v) username) c_curve25519"

text \<open>A directory answer as the clients take it: uuid, Ed25519 key and Curve25519 key.\<close>

definition learn_contact :: "vault \<Rightarrow> string \<Rightarrow> string \<times> string \<times> string \<Rightarrow> string + vault" where
  "learn_contact v username b = (case b of (uuid, ed, curve) \<Rightarrow> upsert_contact v username uuid ed curve)"

lemma map_of_alist_update [simp]: "map_of (AList.update k x al) = (map_of al)(k \<mapsto> x)"
  by (rule update_conv')

lemma map_of_alist_delete [simp]: "map_of (AList.delete k al) = (map_of al)(k := None)"
  by (rule delete_conv')

lemma upsert_contact_pin:
  assumes "pinned_key v u = Some k" and "k \<noteq> []" and "upsert_contact v w uuid ed curve = Inr v'"
  shows "pinned_key v' u = Some k"
  using assms
  by (auto simp: pinned_key_def upsert_contact_def merge_contact_def unpinned_def Option.bind_eq_Some_conv
      split: option.splits)

lemma upsert_contact_curve:
  assumes "pinned_key v u = Some k" and "k \<noteq> []" and "upsert_contact v w uuid ed curve = Inr v'"
    and "w = u \<longrightarrow> ed \<noteq> k"
  shows "pinned_curve v' u = pinned_curve v u"
  using assms
  by (auto simp: pinned_key_def pinned_curve_def upsert_contact_def merge_contact_def unpinned_def
      Option.bind_eq_Some_conv split: option.splits)

interpretation contact_pins: pinned learn_contact pinned_key "\<lambda>k. k \<noteq> []"
  by unfold_locales (auto simp: learn_contact_def intro: upsert_contact_pin)

lemma upsert_contact_up: "upsert_contact v w uuid ed curve = Inr v' \<Longrightarrow> v_up v' = v_up v"
  by (auto simp: upsert_contact_def)

lemma learn_all_up: "v_up (learn_all learn_contact v xs) = v_up v"
  by (induction learn_contact v xs rule: learn_all.induct)
    (auto simp: learn_contact_def split: sum.split dest: upsert_contact_up)

lemma learn_all_curve:
  assumes "pinned_key v u = Some k" and "k \<noteq> []" and "\<forall>(w, uuid, ed, curve) \<in> set xs. w = u \<longrightarrow> ed \<noteq> k"
  shows "pinned_curve (learn_all learn_contact v xs) u = pinned_curve v u"
  using assms(1,3)
proof (induction xs arbitrary: v)
  case Nil
  then show ?case by simp
next
  case (Cons x xs)
  obtain w uuid ed curve where x: "x = (w, uuid, ed, curve)" by (cases x)
  show ?case
  proof (cases "upsert_contact v w uuid ed curve")
    case (Inl e)
    with Cons x show ?thesis by (simp add: learn_contact_def)
  next
    case (Inr v')
    have "pinned_key v' u = Some k" using Cons.prems(1) assms(2) Inr by (rule upsert_contact_pin)
    moreover have "pinned_curve v' u = pinned_curve v u"
      using upsert_contact_curve [OF Cons.prems(1) assms(2) Inr] Cons.prems(2) x by simp
    ultimately show ?thesis using Cons.IH [of v'] Cons.prems(2) x Inr by (simp add: learn_contact_def)
  qed
qed

lemma check_pinned:
  "v_up v \<Longrightarrow> pinned_key v u = Some k \<Longrightarrow> k \<noteq> [] \<Longrightarrow>
     check_identity v u ed = Inr (if ed = k then Match else Conflict)"
  by (simp add: check_identity_def get_contact_ed_def pinned_key_def)

text \<open>C6: Once a non-empty identity key is pinned for a name, no sequence of directory answers, of
  whatever contents and for whatever names, changes it: afterwards exactly that key matches and any other
  is a conflict. As long as no answer for the name carries the pinned key, the stored Curve25519 key does
  not change either, so substituted bundles cannot poison later sessions.\<close>

theorem tofu_pin_is_final:
  assumes "pinned_key v u = Some k" and "k \<noteq> []" and "v_up v"
  shows "pinned_key (learn_all learn_contact v xs) u = Some k \<and>
    check_identity (learn_all learn_contact v xs) u ed = Inr (if ed = k then Match else Conflict) \<and>
    ((\<forall>(w, uuid, ed, curve) \<in> set xs. w = u \<longrightarrow> ed \<noteq> k) \<longrightarrow>
      pinned_curve (learn_all learn_contact v xs) u = pinned_curve v u)"
proof (intro conjI impI)
  show pin: "pinned_key (learn_all learn_contact v xs) u = Some k"
    using assms(1,2) by (rule contact_pins.learn_all_pin)
  show "check_identity (learn_all learn_contact v xs) u ed = Inr (if ed = k then Match else Conflict)"
    using learn_all_up assms(3) pin assms(2) by (intro check_pinned) simp_all
  assume "\<forall>(w, uuid, ed, curve) \<in> set xs. w = u \<longrightarrow> ed \<noteq> k"
  with assms(1,2) show "pinned_curve (learn_all learn_contact v xs) u = pinned_curve v u"
    by (rule learn_all_curve)
qed

definition demo_vault :: vault where
  "demo_vault = empty_vault\<lparr>contacts := [(''bob'', \<lparr>c_uuid = ''u1'', c_ed25519 = Some ''K1'', c_curve25519 = Some ''C1''\<rparr>)]\<rparr>"

theorem tofu_pin_is_final_witness:
  "pinned_key (learn_all learn_contact demo_vault [(''bob'', ''u2'', ''K2'', ''C2'')]) ''bob'' = Some ''K1'' \<and>
   check_identity (learn_all learn_contact demo_vault [(''bob'', ''u2'', ''K2'', ''C2'')]) ''bob'' ''K2'' = Inr Conflict \<and>
   pinned_curve (learn_all learn_contact demo_vault [(''bob'', ''u2'', ''K2'', ''C2'')]) ''bob'' = Some ''C1''"
proof -
  have a: "pinned_key demo_vault ''bob'' = Some ''K1''" "v_up demo_vault"
    "pinned_curve demo_vault ''bob'' = Some ''C1''"
    by (simp_all add: demo_vault_def empty_vault_def pinned_key_def pinned_curve_def)
  show ?thesis
    using tofu_pin_is_final [OF a(1) _ a(2), of "[(''bob'', ''u2'', ''K2'', ''C2'')]" "''K2''"] a(3)
    by simp
qed

section \<open>Replays\<close>

text \<open>One delivered Megolm frame of a sender session, by its index (a \<open>u32\<close>, so not negative).\<close>

definition accept_frame :: "vault \<Rightarrow> string \<times> string \<times> string \<Rightarrow> int \<Rightarrow> string + bool \<times> vault" where
  "accept_frame v k i = (case k of (gid, sender, sid) \<Rightarrow>
     if i < 0 then Inl ''not a u32'' else megolm_accept v gid sender sid (nat i))"

definition seen_index :: "vault \<Rightarrow> string \<times> string \<times> string \<Rightarrow> int option" where
  "seen_index v = map_of (megolm_seen v)"

lemma accept_frame_cases:
  assumes "v_up v" and "0 \<le> i"
  shows "accept_frame v k i = (if (\<exists>m. seen_index v k = Some m \<and> i \<le> m) then Inr (False, v)
    else Inr (True, v\<lparr>megolm_seen := AList.update k i (megolm_seen v)\<rparr>))"
  using assms
  by (cases k) (auto simp: accept_frame_def megolm_accept_def seen_index_def Let_def split: option.splits)

lemma accept_frame_Inr: "accept_frame v k i = Inr r \<Longrightarrow> v_up v \<and> 0 \<le> i"
  by (auto simp: accept_frame_def megolm_accept_def vq_def split: prod.splits if_splits)

interpretation replay: high_water accept_frame seen_index
proof
  show "(\<forall>m. seen_index v k = Some m \<longrightarrow> m < i) \<and> seen_index v' = (seen_index v)(k \<mapsto> i)"
    if "accept_frame v k i = Inr (True, v')" for v k i v'
    using that accept_frame_cases [of v i k] accept_frame_Inr [OF that]
    by (auto simp: seen_index_def split: if_splits)
  show "v' = v \<and> (\<exists>m. seen_index v k = Some m \<and> i \<le> m)" if "accept_frame v k i = Inr (False, v')" for v k i v'
    using that accept_frame_cases [of v i k] accept_frame_Inr [OF that] by (auto split: if_splits)
qed

lemma accepted_in_order:
  assumes "v_up v" and "sorted_wrt (\<lambda>(k, i) (k', j). k = k' \<longrightarrow> i < j) xs"
    and "\<forall>(k, i) \<in> set xs. 0 \<le> i \<and> (\<forall>m. seen_index v k = Some m \<longrightarrow> m < i)"
  shows "accepted accept_frame v xs = xs"
  using assms
proof (induction xs arbitrary: v)
  case Nil
  then show ?case by simp
next
  case (Cons x xs)
  obtain k i where x: "x = (k, i)" by (cases x)
  let ?v = "v\<lparr>megolm_seen := AList.update k i (megolm_seen v)\<rparr>"
  have "0 \<le> i" and "\<not> (\<exists>m. seen_index v k = Some m \<and> i \<le> m)"
    using Cons.prems(3) x by fastforce+
  then have acc: "accept_frame v k i = Inr (True, ?v)"
    using accept_frame_cases [of v i k] Cons.prems(1) by simp
  have "accepted accept_frame ?v xs = xs"
  proof (rule Cons.IH)
    show "v_up ?v" using Cons.prems(1) by simp
    show "sorted_wrt (\<lambda>(k, i) (k', j). k = k' \<longrightarrow> i < j) xs" using Cons.prems(2) by simp
    show "\<forall>(k, i) \<in> set xs. 0 \<le> i \<and> (\<forall>m. seen_index ?v k = Some m \<longrightarrow> m < i)"
    proof (intro ballI, clarsimp)
      fix a b c j
      assume j: "((a, b, c), j) \<in> set xs"
      then have "k = (a, b, c) \<longrightarrow> i < j" using Cons.prems(2) x by fastforce
      moreover have "0 \<le> j \<and> (\<forall>m. seen_index v (a, b, c) = Some m \<longrightarrow> m < j)"
        using Cons.prems(3) j by fastforce
      ultimately show "0 \<le> j \<and> (\<forall>m. seen_index ?v (a, b, c) = Some m \<longrightarrow> m < j)"
        by (auto simp: seen_index_def)
    qed
  qed
  with acc x show ?case by simp
qed

text \<open>C25: Whatever frames are delivered and in whatever order or multiplicity, the indices the guard
  lets through for one sender session are strictly increasing, so no frame is applied twice; and frames
  that arrive in order, each above what was seen before, are all let through.\<close>

theorem replay_guard:
  shows "sorted_wrt (\<lambda>(k, i) (k', j). k = k' \<longrightarrow> i < j) (accepted accept_frame v xs) \<and>
    (v_up v \<and> sorted_wrt (\<lambda>(k, i) (k', j). k = k' \<longrightarrow> i < j) xs \<and>
       (\<forall>(k, i) \<in> set xs. 0 \<le> i \<and> (\<forall>m. seen_index v k = Some m \<longrightarrow> m < i)) \<longrightarrow>
     accepted accept_frame v xs = xs)"
proof (intro conjI impI)
  show "sorted_wrt (\<lambda>(k, i) (k', j). k = k' \<longrightarrow> i < j) (accepted accept_frame v xs)"
    by (rule replay.accepted_increasing)
qed (elim conjE, rule accepted_in_order)

theorem replay_guard_witness:
  "sorted_wrt (\<lambda>p q. fst p = fst q \<longrightarrow> snd p < snd q)
     (accepted accept_frame demo_vault [((''g'', ''b'', ''s''), 4), ((''g'', ''b'', ''s''), 4)]) \<and>
   accepted accept_frame demo_vault [((''g'', ''b'', ''s''), 4), ((''g'', ''b'', ''s''), 5)] =
     [((''g'', ''b'', ''s''), 4), ((''g'', ''b'', ''s''), 5)]"
proof -
  have up: "v_up demo_vault" and none: "seen_index demo_vault = Map.empty"
    by (simp_all add: demo_vault_def empty_vault_def seen_index_def)
  show ?thesis
    using replay_guard [of demo_vault "[((''g'', ''b'', ''s''), 4), ((''g'', ''b'', ''s''), 4)]"]
      replay_guard [of demo_vault "[((''g'', ''b'', ''s''), 4), ((''g'', ''b'', ''s''), 5)]"] up
    by (simp add: none case_prod_unfold)
qed

section \<open>Leaving a chat\<close>

text \<open>Everything the vault holds about one chat: its row, members, messages, sessions and group records.\<close>

definition chat_view :: "vault \<Rightarrow> string \<Rightarrow>
    (chat_row list \<times> string list \<times> message_row list) \<times>
    (bytes option \<times> bytes option \<times> (string \<Rightarrow> bytes option)) \<times>
    (group_meta list \<times> (string \<Rightarrow> millis option) \<times> (string \<Rightarrow> millis option) \<times> (string \<Rightarrow> millis option)) \<times>
    (string \<times> string \<Rightarrow> int option)" where
  "chat_view v cid =
     ((filter (\<lambda>c. ch_id c = cid) (chats v), map snd (filter (\<lambda>r. fst r = cid) (chat_members v)),
       filter (\<lambda>m. m_chat m = cid) (messages v)),
      (map_of (olm_sessions v) cid, map_of (group_out v) cid, \<lambda>u. map_of (group_in v) (cid, u)),
      (filter (\<lambda>g. group_id g = cid) (groups v), \<lambda>u. map_of (group_bans v) (cid, u),
       \<lambda>u. map_of (group_suspensions v) (cid, u), \<lambda>u. map_of (group_join_requests v) (cid, u)),
      \<lambda>(u, sid). map_of (megolm_seen v) (cid, u, sid))"

definition empty_chat_view where
  "empty_chat_view = chat_view empty_vault"

lemma map_of_filter_keys: "map_of (filter (\<lambda>r. P (fst r)) al) k = (if P k then map_of al k else None)"
  by (induction al) auto

lemma map_of_filter_at: "map_of (filter (\<lambda>r. fst r \<noteq> c) al) k = (if k \<noteq> c then map_of al k else None)"
  by (rule map_of_filter_keys)

lemma map_of_filter_at2: "map_of (filter (\<lambda>r. fst (fst r) \<noteq> c) al) k = (if fst k \<noteq> c then map_of al k else None)"
  by (rule map_of_filter_keys)

text \<open>C31: Leaving a chat removes every trace of it from the vault, members, messages, sessions, group
  record, bans, suspensions, join requests and replay marks included; no other chat is touched. The contact
  book and the account stay as they are, so the pinned key of a left peer stays pinned.\<close>

theorem delete_chat_purges:
  assumes "delete_chat v cid = Inr v'"
  shows "chat_view v' cid = empty_chat_view cid \<and> (d \<noteq> cid \<longrightarrow> chat_view v' d = chat_view v d) \<and>
    contacts v' = contacts v \<and> meta v' = meta v"
proof (intro conjI impI)
  have v': "v' = v\<lparr>chats := chats v', chat_members := chat_members v', messages := messages v',
      olm_sessions := olm_sessions v', group_out := group_out v', group_in := group_in v', groups := groups v',
      group_bans := group_bans v', group_suspensions := group_suspensions v',
      group_join_requests := group_join_requests v', megolm_seen := megolm_seen v'\<rparr>"
    using assms by (simp add: delete_chat_def)
  then show "contacts v' = contacts v" and "meta v' = meta v"
    using assms by (simp_all add: delete_chat_def)
  show "chat_view v' cid = empty_chat_view cid"
    using assms by (simp add: delete_chat_def chat_view_def empty_chat_view_def empty_vault_def
        map_of_filter_at map_of_filter_at2 fun_eq_iff)
  show "chat_view v' d = chat_view v d" if "d \<noteq> cid"
    using assms that by (auto simp: delete_chat_def chat_view_def map_of_filter_at map_of_filter_at2
        fun_eq_iff intro!: filter_cong arg_cong [where f = "map snd"])
qed

definition demo_chats :: vault where
  "demo_chats = demo_vault\<lparr>chats := [\<lparr>ch_id = ''bob'', ch_kind = ''dm'', ch_title = ''bob'', ch_created = 1\<rparr>,
       \<lparr>ch_id = ''g'', ch_kind = ''group'', ch_title = ''devs'', ch_created = 2\<rparr>],
     chat_members := [(''bob'', ''bob''), (''g'', ''al''), (''g'', ''bob'')], olm_sessions := [(''bob'', ''S'')],
     groups := [\<lparr>group_id = ''g'', group_key = ''AAAAAAA1'', access_mode = ''open'', owner = ''al''\<rparr>]\<rparr>"

theorem delete_chat_purges_witness:
  "\<exists>v'. delete_chat demo_chats ''bob'' = Inr v' \<and> chat_view v' ''bob'' = empty_chat_view ''bob'' \<and>
     chat_view v' ''g'' = chat_view demo_chats ''g'' \<and> pinned_key v' ''bob'' = Some ''K1'' \<and>
     chat_view demo_chats ''bob'' \<noteq> empty_chat_view ''bob''"
proof -
  have "v_up demo_chats" by (simp add: demo_chats_def demo_vault_def empty_vault_def)
  then obtain v' where v': "delete_chat demo_chats ''bob'' = Inr v'" by (simp add: delete_chat_def)
  have "chat_view demo_chats ''bob'' \<noteq> empty_chat_view ''bob''"
    by (simp add: chat_view_def empty_chat_view_def empty_vault_def demo_chats_def)
  then show ?thesis
    using v' delete_chat_purges [OF v'] by (simp add: pinned_key_def demo_chats_def demo_vault_def)
qed

section \<open>Group keys\<close>

definition groups_ok :: "vault \<Rightarrow> bool" where
  "groups_ok v = (distinct (map group_id (groups v)) \<and> distinct (map group_key (groups v)))"

definition group_keys :: "vault \<Rightarrow> string set" where
  "group_keys v = group_key ` set (groups v)"

lemma mint_group_key_spec:
  assumes "v_up v" and "\<forall>g \<in> set (groups v). group_id g \<noteq> gid"
  shows "mint_group_key n i v gid mode own gen =
    (case find (\<lambda>j. gen j \<notin> group_keys v) [i..<i + n] of
       None \<Rightarrow> Inl ''could not mint a unique group key after 64 tries''
     | Some j \<Rightarrow> Inr (gen j, v\<lparr>groups := groups v @
         [\<lparr>group_id = gid, group_key = gen j, access_mode = mode, owner = own\<rparr>]\<rparr>))"
  using assms
proof (induction n arbitrary: i)
  case 0
  then show ?case by simp
next
  case (Suc n)
  have r: "[i..<i + Suc n] = i # [Suc i..<Suc i + n]" by (simp add: upt_conv_Cons del: upt_Suc)
  have "(\<exists>g \<in> set (groups v). group_key g = gen i) \<longleftrightarrow> gen i \<in> group_keys v"
    by (force simp: group_keys_def)
  then show ?case
    unfolding r using Suc by (simp add: try_insert_group_def del: upt_Suc)
qed

lemma find_distinct_key:
  "distinct (map f xs) \<Longrightarrow> x \<in> set xs \<Longrightarrow> find (\<lambda>y. f y = f x) xs = Some x"
  by (induction xs) (auto simp: rev_image_eqI)

lemma mint_group_key_exists:
  assumes "v_up v" and "groups_ok v" and "g \<in> set (groups v)" and "group_id g = gid" and "0 < n"
  shows "mint_group_key n i v gid mode own gen = Inr (group_key g, v)"
proof -
  obtain m where n: "n = Suc m" using assms(5) by (cases n) auto
  have "find (\<lambda>g. group_id g = gid) (groups v) = Some g"
    using assms(2,3) assms(4) [symmetric] unfolding groups_ok_def by (simp add: find_distinct_key)
  then show ?thesis
    using assms n by (auto simp: try_insert_group_def get_group_meta_def)
qed

definition minted :: "vault \<Rightarrow> string \<Rightarrow> string \<Rightarrow> string \<Rightarrow> string \<Rightarrow> vault" where
  "minted v gid key mode own =
     v\<lparr>groups := groups v @ [\<lparr>group_id = gid, group_key = key, access_mode = mode, owner = own\<rparr>]\<rparr>"

lemma groups_ok_upsert: "groups_ok v \<Longrightarrow> upsert_group_meta v gid key mode own = Inr v' \<Longrightarrow> groups_ok v'"
proof -
  assume ok: "groups_ok v" and u: "upsert_group_meta v gid key mode own = Inr v'"
  let ?f = "\<lambda>g :: group_meta. if group_id g = gid then g\<lparr>group_key := key, access_mode := mode, owner := own\<rparr> else g"
  have ids: "map group_id (map ?f gs) = map group_id gs" for gs by simp
  have keys: "distinct (map group_key (map ?f gs))"
    if "distinct (map group_id gs)" "distinct (map group_key gs)"
      "\<not> (\<exists>g \<in> set gs. group_id g \<noteq> gid \<and> group_key g = key)" for gs
    using that
  proof (induction gs)
    case Nil
    then show ?case by simp
  next
    case (Cons g gs)
    show ?case
    proof (cases "group_id g = gid")
      case True
      then have "\<forall>x \<in> set gs. group_id x \<noteq> gid" using Cons.prems(1) by (auto simp: rev_image_eqI)
      then have "map ?f gs = gs" and "key \<notin> group_key ` set gs" using Cons.prems(3) by (auto intro: map_idI)
      with True Cons.prems(2) show ?thesis by simp
    next
      case False
      have "group_key ` set (map ?f gs) \<subseteq> insert key (group_key ` set gs)" by auto
      moreover have "group_key g \<noteq> key" "group_key g \<notin> group_key ` set gs" using Cons.prems(2,3) False by auto
      ultimately have "group_key g \<notin> set (map group_key (map ?f gs))" by (simp only: set_map) blast
      moreover have "distinct (map group_key (map ?f gs))" using Cons by simp
      moreover have "?f g = g" using False by simp
      ultimately show ?thesis by (simp only: list.map distinct.simps simp_thms)
    qed
  qed
  show "groups_ok v'"
    using ok u keys [of "groups v"] unfolding groups_ok_def upsert_group_meta_def
    by (auto simp: o_def if_distrib [of group_id] cong: if_cong split: if_splits)
qed

lemma groups_ok_set_access: "groups_ok v \<Longrightarrow> set_access_mode v gid mode = Inr v' \<Longrightarrow> groups_ok v'"
proof -
  let ?f = "\<lambda>g :: group_meta. if group_id g = gid then g\<lparr>access_mode := mode\<rparr> else g"
  have "group_id \<circ> ?f = group_id" "group_key \<circ> ?f = group_key"
    by auto
  then show "groups_ok v \<Longrightarrow> set_access_mode v gid mode = Inr v' \<Longrightarrow> groups_ok v'"
    by (auto simp: groups_ok_def set_access_mode_def)
qed

lemma groups_ok_delete_chat: "groups_ok v \<Longrightarrow> delete_chat v cid = Inr v' \<Longrightarrow> groups_ok v'"
  by (auto simp: groups_ok_def delete_chat_def distinct_map_filter)

lemma groups_ok_minted:
  "groups_ok v \<Longrightarrow> \<forall>g \<in> set (groups v). group_id g \<noteq> gid \<Longrightarrow> key \<notin> group_keys v \<Longrightarrow>
     groups_ok (minted v gid key mode own)"
  by (auto simp: groups_ok_def minted_def group_keys_def)

text \<open>The reference: an existing group keeps its key; otherwise the first of 64 candidates that is free.\<close>

definition mint_spec ::
    "vault \<Rightarrow> string \<Rightarrow> string \<Rightarrow> string \<Rightarrow> (nat \<Rightarrow> string) \<Rightarrow> string + string \<times> vault" where
  "mint_spec v gid mode own gen =
     (case find (\<lambda>g. group_id g = gid) (groups v) of
        Some g \<Rightarrow> Inr (group_key g, v)
      | None \<Rightarrow> (case find (\<lambda>j. gen j \<notin> group_keys v) [0..<64] of
          None \<Rightarrow> Inl ''could not mint a unique group key after 64 tries''
        | Some j \<Rightarrow> Inr (gen j, minted v gid (gen j) mode own)))"

lemma create_group_meta_spec:
  assumes "v_up v" and "groups_ok v"
  shows "create_group_meta v gid mode own gen = mint_spec v gid mode own gen"
proof (cases "find (\<lambda>g. group_id g = gid) (groups v)")
  case None
  then have "\<forall>g \<in> set (groups v). group_id g \<noteq> gid" by (auto simp: find_None_iff)
  with None show ?thesis
    using mint_group_key_spec [OF assms(1), of gid 64 0]
    by (simp add: create_group_meta_def mint_spec_def minted_def del: upt_Suc split: option.split)
next
  case (Some g)
  then have "g \<in> set (groups v)" "group_id g = gid" by (auto simp: find_Some_iff)
  with Some show ?thesis
    using mint_group_key_exists [OF assms, of g gid 64 0]
    by (simp add: create_group_meta_def mint_spec_def)
qed

lemma mint_spec_ok:
  assumes "groups_ok v" and "mint_spec v gid mode own gen = Inr (k, v')"
  shows "groups_ok v'" and "\<exists>g. g \<in> set (groups v') \<and> group_id g = gid \<and> group_key g = k"
    and "v_up v' = v_up v"
proof -
  from assms(2) consider (old) g where "find (\<lambda>g. group_id g = gid) (groups v) = Some g" "k = group_key g" "v' = v"
    | (fresh) j where "find (\<lambda>g. group_id g = gid) (groups v) = None"
        "find (\<lambda>j. gen j \<notin> group_keys v) [0..<64] = Some j" "k = gen j" "v' = minted v gid (gen j) mode own"
    by (auto simp: mint_spec_def simp del: upt_Suc split: option.splits)
  then show "groups_ok v'" and "\<exists>g. g \<in> set (groups v') \<and> group_id g = gid \<and> group_key g = k"
    and "v_up v' = v_up v"
  proof (atomize (full), cases)
    case old
    then show "groups_ok v' \<and> (\<exists>g. g \<in> set (groups v') \<and> group_id g = gid \<and> group_key g = k) \<and> v_up v' = v_up v"
      using assms(1) by (auto simp: find_Some_iff intro: nth_mem)
  next
    case fresh
    have "gen j \<notin> group_keys v" using fresh(2) by (auto simp: find_Some_iff simp del: upt_Suc)
    then have "groups_ok v'"
      using fresh assms(1) groups_ok_minted [of v gid "gen j"] by (auto simp: find_None_iff)
    then show "groups_ok v' \<and> (\<exists>g. g \<in> set (groups v') \<and> group_id g = gid \<and> group_key g = k) \<and> v_up v' = v_up v"
      using fresh by (auto simp: minted_def)
  qed
qed

lemma group_by_key:
  assumes "groups_ok v" and "v_up v" and "g \<in> set (groups v)"
  shows "get_group_by_key v (group_key g) = Inr (Some g)"
  using assms find_distinct_key [of group_key "groups v" g] by (simp add: get_group_by_key_def groups_ok_def)

text \<open>C32: The retry loop equals its reference: an existing group keeps its key, otherwise the first of 64
  candidates that no group of the vault has is stored, and only if all 64 are taken it fails. After success
  group ids and group keys are still unique and the returned key leads back to the group.\<close>

theorem group_key_minting:
  assumes "v_up v" and "groups_ok v"
  shows "create_group_meta v gid mode own gen = mint_spec v gid mode own gen \<and>
    (create_group_meta v gid mode own gen = Inr (k, v') \<longrightarrow>
      groups_ok v' \<and> (\<exists>g. get_group_by_key v' k = Inr (Some g) \<and> group_id g = gid \<and> group_key g = k))"
proof (rule conjI, rule_tac [2] impI)
  show spec: "create_group_meta v gid mode own gen = mint_spec v gid mode own gen"
    using assms by (rule create_group_meta_spec)
  assume "create_group_meta v gid mode own gen = Inr (k, v')"
  then have m: "mint_spec v gid mode own gen = Inr (k, v')" by (simp add: spec)
  obtain g where g: "g \<in> set (groups v')" "group_id g = gid" "group_key g = k"
    using mint_spec_ok(2) [OF assms(2) m] by blast
  have "get_group_by_key v' (group_key g) = Inr (Some g)"
    using group_by_key [OF mint_spec_ok(1) [OF assms(2) m] _ g(1)] mint_spec_ok(3) [OF assms(2) m] assms(1) by simp
  with g mint_spec_ok(1) [OF assms(2) m]
  show "groups_ok v' \<and> (\<exists>g. get_group_by_key v' k = Inr (Some g) \<and> group_id g = gid \<and> group_key g = k)"
    by auto
qed

theorem group_key_minting_witness:
  "\<exists>v' g. create_group_meta demo_chats ''h'' ''open'' ''al'' (\<lambda>i. if i = 0 then ''AAAAAAA1'' else ''BBBBBBB2'') =
       Inr (''BBBBBBB2'', v') \<and>
     groups_ok v' \<and> get_group_by_key v' ''BBBBBBB2'' = Inr (Some g) \<and> group_id g = ''h''"
proof -
  let ?gen = "\<lambda>i::nat. if i = 0 then ''AAAAAAA1'' else ''BBBBBBB2''"
  have ok: "v_up demo_chats" "groups_ok demo_chats"
    by (simp_all add: demo_chats_def demo_vault_def empty_vault_def groups_ok_def)
  have keys: "group_keys demo_chats = {''AAAAAAA1''}" "\<forall>g \<in> set (groups demo_chats). group_id g \<noteq> ''h''"
    by (simp_all add: demo_chats_def demo_vault_def group_keys_def)
  have "find (\<lambda>j. ?gen j \<notin> group_keys demo_chats) [0..<64] = Some 1"
    by (simp add: keys upt_rec)
  moreover have "find (\<lambda>g. group_id g = ''h'') (groups demo_chats) = None"
    using keys(2) by (auto simp: find_None_iff)
  ultimately have "mint_spec demo_chats ''h'' ''open'' ''al'' ?gen =
      Inr (''BBBBBBB2'', minted demo_chats ''h'' ''BBBBBBB2'' ''open'' ''al'')"
    by (simp add: mint_spec_def)
  then show ?thesis
    using group_key_minting [OF ok, of "''h''" "''open''" "''al''" ?gen] by fastforce
qed

section \<open>History\<close>

text \<open>Storing a list of messages: receipt time, chat, sender, body, the sender's time stamp, direction.\<close>

fun store_all :: "vault \<Rightarrow> (millis \<times> string \<times> string \<times> string \<times> millis \<times> int) list \<Rightarrow> string + vault" where
  "store_all v [] = Inr v"
| "store_all v ((now, cid, sender, body, ts, out) # xs) =
     res_bind (insert_message now v cid sender body ts out) (\<lambda>v'. store_all v' xs)"

definition in_receipt_order :: "vault \<Rightarrow> bool" where
  "in_receipt_order v =
     (sorted_wrt (\<lambda>a b. m_id a < m_id b \<and> m_recv_ts a \<le> m_recv_ts b) (messages v) \<and>
      (\<forall>m \<in> set (messages v). m_id m < next_message_id v))"

definition row_view :: "message_row \<Rightarrow> string \<times> string \<times> millis \<times> int" where
  "row_view m = (m_sender m, m_body m, m_ts m, m_outgoing m)"

lemma sort_key_weakly_sorted: "sorted_wrt (\<lambda>a b. f a \<le> f b) xs \<Longrightarrow> sort_key f xs = xs"
  by (induction xs) (auto simp: insort_is_Cons)

lemma newest_first_rev:
  assumes "sorted_wrt (\<lambda>a b. m_id a < m_id b \<and> m_recv_ts a \<le> m_recv_ts b) ms"
  shows "newest_first ms = rev ms"
proof -
  have "sorted_wrt (\<lambda>a b. m_id a \<le> m_id b) ms" "sorted_wrt (\<lambda>a b. m_recv_ts a \<le> m_recv_ts b) ms"
    using assms by (auto elim: sorted_wrt_mono_rel [rotated])
  then show ?thesis by (simp add: newest_first_def sort_key_weakly_sorted)
qed

lemma get_messages_tail:
  assumes "in_receipt_order v" and "v_up v"
  shows "get_messages v cid (int n) =
    (let ms = filter (\<lambda>m. m_chat m = cid) (messages v) in Inr (map row_view (drop (length ms - n) ms)))"
proof -
  let ?ms = "filter (\<lambda>m. m_chat m = cid) (messages v)"
  have "newest_first ?ms = rev ?ms"
    using assms(1) by (intro newest_first_rev) (simp add: in_receipt_order_def sorted_wrt_filter)
  then show ?thesis
    using assms(2) by (simp add: get_messages_def Let_def row_view_def take_rev rev_map)
qed

lemma store_all_order:
  assumes "in_receipt_order v" and "sorted (map fst xs)" and "store_all v xs = Inr v'"
    and "\<forall>m \<in> set (messages v). \<forall>x \<in> set xs. m_recv_ts m \<le> fst x"
  shows "in_receipt_order v' \<and> v_up v' = v_up v \<and>
    map (\<lambda>m. (m_chat m, row_view m)) (messages v') = map (\<lambda>m. (m_chat m, row_view m)) (messages v) @
      map (\<lambda>(now, cid, sender, body, ts, out). (cid, sender, body, ts, out)) xs"
  using assms
proof (induction v xs rule: store_all.induct)
  case (1 v)
  then show ?case by simp
next
  case (2 v now cid sender body ts out xs)
  obtain w where w: "insert_message now v cid sender body ts out = Inr w" and rest: "store_all w xs = Inr v'"
    using "2.prems"(3) by (auto simp: res_bind_Inr_iff)
  have up: "v_up v"
    and m: "messages w = messages v @ [\<lparr>m_id = next_message_id v, m_chat = cid, m_sender = sender,
      m_body = body, m_ts = ts, m_outgoing = out, m_recv_ts = now\<rparr>]"
    and nx: "next_message_id w = next_message_id v + 1" "v_up w = v_up v"
    using w by (auto simp: insert_message_def)
  have "in_receipt_order w"
    using "2.prems"(1,4) unfolding in_receipt_order_def m nx by (auto simp: sorted_wrt_append)
  moreover have "\<forall>m \<in> set (messages w). \<forall>x \<in> set xs. m_recv_ts m \<le> fst x"
    using "2.prems"(2,4) by (auto simp: m)
  ultimately show ?case
    using "2.IH" [of w] w rest "2.prems"(2) nx m by (auto simp: row_view_def)
qed

text \<open>History is shown in the order of local receipt. If the local clock does not run backwards,
  the last \<open>n\<close> messages of a chat are the last \<open>n\<close> stored for it, oldest first, whatever time
  stamps the senders or the relay put on them; the stamps are only labels.\<close>

theorem history_in_receipt_order:
  assumes "sorted (map fst xs)" and "store_all empty_vault xs = Inr v"
  shows "get_messages v cid (int n) =
    (let ms = [(sender, body, ts, out). (now, c, sender, body, ts, out) \<leftarrow> xs, c = cid]
     in Inr (drop (length ms - n) ms))"
proof -
  let ?row = "\<lambda>(now, cid, sender, body, ts, out). (cid, sender, body, ts, out)"
  let ?ms = "filter (\<lambda>m. m_chat m = cid) (messages v)"
  have ord: "in_receipt_order v" "v_up v"
    and rows: "map (\<lambda>m. (m_chat m, row_view m)) (messages v) = map ?row xs"
    using store_all_order [OF _ assms] by (auto simp: in_receipt_order_def empty_vault_def)
  have "map row_view ?ms = map snd (filter (\<lambda>p. fst p = cid) (map (\<lambda>m. (m_chat m, row_view m)) (messages v)))"
    by (simp add: filter_map o_def)
  also have "\<dots> = [(sender, body, ts, out). (now, c, sender, body, ts, out) \<leftarrow> xs, c = cid]"
    unfolding rows by (induction xs) auto
  finally have eq: "map row_view ?ms = [(sender, body, ts, out). (now, c, sender, body, ts, out) \<leftarrow> xs, c = cid]" .
  then have "length ?ms = length [(sender, body, ts, out). (now, c, sender, body, ts, out) \<leftarrow> xs, c = cid]"
    by (metis length_map)
  then show ?thesis
    unfolding get_messages_tail [OF ord] Let_def drop_map [symmetric] eq by simp
qed

theorem history_in_receipt_order_witness:
  "\<exists>v. store_all empty_vault [(1, ''c'', ''b'', ''first'', 9, 0), (2, ''c'', ''b'', ''second'', 5, 0)] = Inr v \<and>
     get_messages v ''c'' (int 2) = Inr [(''b'', ''first'', 9, 0), (''b'', ''second'', 5, 0)]"
proof -
  obtain v where v: "store_all empty_vault [(1, ''c'', ''b'', ''first'', 9, 0), (2, ''c'', ''b'', ''second'', 5, 0)] = Inr v"
    by (simp add: insert_message_def empty_vault_def)
  show ?thesis
    using v history_in_receipt_order [OF _ v, of "''c''" 2] by (intro exI [of _ v]) simp
qed

end
