(* ===== verification/Effects.thy ===== *)
theory Effects
  imports Prelude
begin

text \<open>
  How the client's code is read: a function that may fail with an error and acts on a state is an
  action, from a state to a result and the state it leaves. An error keeps the effects made before
  it, as the code's \<open>?\<close> does (there are no roll-backs in the client). The rules below push
  statements about the state (a field is kept, an invariant is preserved, a relation holds between
  before and after) through sequencing, case distinctions and loops.
\<close>

type_synonym ('s, 'a) act = "'s \<Rightarrow> (string + 'a) \<times> 's"

section \<open>Actions\<close>

definition ret :: "'a \<Rightarrow> ('s, 'a) act" where
  "ret x s = (Inr x, s)"

definition raise :: "string \<Rightarrow> ('s, 'a) act" where
  "raise e s = (Inl e, s)"

definition bnd :: "('s, 'a) act \<Rightarrow> ('a \<Rightarrow> ('s, 'b) act) \<Rightarrow> ('s, 'b) act" where
  "bnd m f s = (case m s of (Inl e, s') \<Rightarrow> (Inl e, s') | (Inr x, s') \<Rightarrow> f x s')"

definition andthen :: "('s, 'a) act \<Rightarrow> ('s, 'b) act \<Rightarrow> ('s, 'b) act" where
  "andthen m n = bnd m (\<lambda>_. n)"

definition lift :: "string + 'a \<Rightarrow> ('s, 'a) act" where
  "lift r s = (r, s)"

definition gets :: "('s \<Rightarrow> 'a) \<Rightarrow> ('s, 'a) act" where
  "gets f s = (Inr (f s), s)"

definition modify :: "('s \<Rightarrow> 's) \<Rightarrow> ('s, unit) act" where
  "modify f s = (Inr (), f s)"

text \<open>An error is dropped (\<open>let _ =\<close>), and its effects stay.\<close>

definition ignoring :: "('s, 'a) act \<Rightarrow> ('s, unit) act" where
  "ignoring m s = (Inr (), snd (m s))"

fun for_each :: "'x list \<Rightarrow> ('x \<Rightarrow> ('s, unit) act) \<Rightarrow> ('s, unit) act" where
  "for_each [] f = ret ()"
| "for_each (x # xs) f = andthen (f x) (for_each xs f)"

text \<open>An action on a part of the state, given how the part is read and put back.\<close>

definition zoom :: "('s \<Rightarrow> 't) \<Rightarrow> ('t \<Rightarrow> 's \<Rightarrow> 's) \<Rightarrow> ('t, 'a) act \<Rightarrow> ('s, 'a) act" where
  "zoom get put m s = (case m (get s) of (r, t) \<Rightarrow> (r, put t s))"

lemmas act_defs = ret_def raise_def bnd_def andthen_def lift_def gets_def modify_def ignoring_def

lemma bnd_ret [simp]: "bnd (ret x) f = f x"
  by (rule ext) (simp add: act_defs)

lemma bnd_raise [simp]: "bnd (raise e) f = raise e"
  by (rule ext) (simp add: act_defs)

lemma bnd_Inr: "m s = (Inr x, s') \<Longrightarrow> bnd m f s = f x s'"
  by (simp add: bnd_def)

lemma bnd_Inl: "m s = (Inl e, s') \<Longrightarrow> bnd m f s = (Inl e, s')"
  by (simp add: bnd_def)

lemma bnd_ok:
  "bnd m f s = (Inr y, t) \<longleftrightarrow> (\<exists>x s'. m s = (Inr x, s') \<and> f x s' = (Inr y, t))"
  by (auto simp: bnd_def split: prod.split sum.split)

section \<open>Relations between the state before and after\<close>

text \<open>
  \<open>acts P R m\<close>: from a state with \<open>P\<close>, whatever the result, the state after \<open>m\<close> is related by
  \<open>R\<close> to the one before. The rules decompose an action along its syntax when \<open>R\<close> is a preorder
  that keeps \<open>P\<close>. \<open>steps R\<close> is the case without a condition.
\<close>

named_theorems act_intros \<open>rules that decompose actions\<close>

definition acts :: "('s \<Rightarrow> bool) \<Rightarrow> ('s \<Rightarrow> 's \<Rightarrow> bool) \<Rightarrow> ('s, 'a) act \<Rightarrow> bool" where
  "acts P R m = (\<forall>s. P s \<longrightarrow> R s (snd (m s)))"

definition preorder_rel :: "('s \<Rightarrow> 's \<Rightarrow> bool) \<Rightarrow> bool" where
  "preorder_rel R = (reflp R \<and> transp R)"

definition coherent :: "('s \<Rightarrow> bool) \<Rightarrow> ('s \<Rightarrow> 's \<Rightarrow> bool) \<Rightarrow> bool" where
  "coherent P R = (preorder_rel R \<and> (\<forall>s t. P s \<longrightarrow> R s t \<longrightarrow> P t))"

abbreviation steps :: "('s \<Rightarrow> 's \<Rightarrow> bool) \<Rightarrow> ('s, 'a) act \<Rightarrow> bool" where
  "steps R \<equiv> acts (\<lambda>_. True) R"

lemma actsD: "acts P R m \<Longrightarrow> P s \<Longrightarrow> R s (snd (m s))"
  by (simp add: acts_def)

lemma preorder_refl: "preorder_rel R \<Longrightarrow> R s s"
  by (simp add: preorder_rel_def reflpD)

lemma coherent_refl: "coherent P R \<Longrightarrow> R s s"
  by (simp add: coherent_def preorder_refl)

lemma coherent_trans: "coherent P R \<Longrightarrow> R s t \<Longrightarrow> R t u \<Longrightarrow> R s u"
  by (auto simp: coherent_def preorder_rel_def dest: transpD)

lemma coherent_True [simp]: "coherent (\<lambda>_. True) R \<longleftrightarrow> preorder_rel R"
  by (simp add: coherent_def)

lemma acts_ret [act_intros]: "coherent P R \<Longrightarrow> acts P R (ret x)"
  by (simp add: acts_def ret_def coherent_refl)

lemma acts_raise [act_intros]: "coherent P R \<Longrightarrow> acts P R (raise e)"
  by (simp add: acts_def raise_def coherent_refl)

lemma acts_lift [act_intros]: "coherent P R \<Longrightarrow> acts P R (lift r)"
  by (simp add: acts_def lift_def coherent_refl)

lemma acts_gets [act_intros]: "coherent P R \<Longrightarrow> acts P R (gets f)"
  by (simp add: acts_def gets_def coherent_refl)

lemma acts_bnd [act_intros]:
  assumes c: "coherent P R" and m: "acts P R m" and f: "\<And>x. acts P R (f x)"
  shows "acts P R (bnd m f)"
proof (unfold acts_def, intro allI impI)
  fix s
  assume P: "P s"
  obtain r s' where ms: "m s = (r, s')" by (cases "m s")
  have R: "R s s'" using actsD [OF m P] ms by simp
  then have "P s'" using c P by (auto simp: coherent_def)
  then have "R s' (snd (f x s'))" for x by (rule actsD [OF f])
  then have "R s (snd (f x s'))" for x using coherent_trans [OF c R] by blast
  with R show "R s (snd (bnd m f s))" using ms by (cases r) (simp_all add: bnd_def)
qed

lemma acts_andthen [act_intros]: "coherent P R \<Longrightarrow> acts P R m \<Longrightarrow> acts P R n \<Longrightarrow> acts P R (andthen m n)"
  unfolding andthen_def by (rule acts_bnd)

lemma acts_ignoring [act_intros]: "acts P R m \<Longrightarrow> acts P R (ignoring m)"
  by (simp add: acts_def ignoring_def)

lemma acts_for_each [act_intros]: "coherent P R \<Longrightarrow> (\<And>x. acts P R (f x)) \<Longrightarrow> acts P R (for_each xs f)"
  by (induction xs) (auto intro: act_intros)

lemma acts_if [act_intros]: "(b \<Longrightarrow> acts P R m) \<Longrightarrow> (\<not> b \<Longrightarrow> acts P R n) \<Longrightarrow> acts P R (if b then m else n)"
  by simp

lemma acts_option [act_intros]:
  "(x = None \<Longrightarrow> acts P R m) \<Longrightarrow> (\<And>y. x = Some y \<Longrightarrow> acts P R (f y)) \<Longrightarrow>
     acts P R (case x of None \<Rightarrow> m | Some y \<Rightarrow> f y)"
  by (cases x) simp_all

lemma acts_sum [act_intros]:
  "(\<And>e. acts P R (f e)) \<Longrightarrow> (\<And>y. acts P R (g y)) \<Longrightarrow> acts P R (case x of Inl e \<Rightarrow> f e | Inr y \<Rightarrow> g y)"
  by (cases x) simp_all

lemma acts_prod [act_intros]: "(\<And>a b. acts P R (f a b)) \<Longrightarrow> acts P R (case p of (a, b) \<Rightarrow> f a b)"
  by (cases p) simp

lemma acts_prod_app [act_intros]:
  "(\<And>a b. acts P R (f a b x)) \<Longrightarrow> acts P R ((case p of (a, b) \<Rightarrow> f a b) x)"
  by (cases p) simp

lemma acts_let [act_intros]: "(\<And>y. y = x \<Longrightarrow> acts P R (f y)) \<Longrightarrow> acts P R (let y = x in f y)"
  by simp

text \<open>A result that is known to have a property.\<close>

lemma acts_bnd_fact:
  assumes c: "coherent P R" and m: "acts P R m"
    and fact: "\<And>s x s'. P s \<Longrightarrow> m s = (Inr x, s') \<Longrightarrow> Q x" and f: "\<And>x. Q x \<Longrightarrow> acts P R (f x)"
  shows "acts P R (bnd m f)"
proof (unfold acts_def, intro allI impI)
  fix s
  assume P: "P s"
  obtain r s' where ms: "m s = (r, s')" by (cases "m s")
  have R: "R s s'" using actsD [OF m P] ms by simp
  then have P': "P s'" using c P by (auto simp: coherent_def)
  show "R s (snd (bnd m f s))"
  proof (cases r)
    case (Inl e)
    then show ?thesis using R ms by (simp add: bnd_def)
  next
    case (Inr x)
    have "Q x" by (rule fact [OF P]) (simp add: ms Inr)
    then have "R s' (snd (f x s'))" using P' by (intro actsD [OF f])
    with R show ?thesis using ms Inr coherent_trans [OF c] by (simp add: bnd_def)
  qed
qed

lemma acts_weaken: "acts P R m \<Longrightarrow> (\<And>s. P' s \<Longrightarrow> P s) \<Longrightarrow> (\<And>s t. P' s \<Longrightarrow> R s t \<Longrightarrow> R' s t) \<Longrightarrow> acts P' R' m"
  by (simp add: acts_def)

lemma preorder_rel_eq: "preorder_rel (\<lambda>s t. f t = f s)"
  by (auto simp: preorder_rel_def intro!: reflpI transpI)

lemma preorder_relI: "(\<And>s. R s s) \<Longrightarrow> (\<And>s t u. R s t \<Longrightarrow> R t u \<Longrightarrow> R s u) \<Longrightarrow> preorder_rel R"
  by (auto simp: preorder_rel_def intro!: reflpI transpI)

end
