(* ===== verification/Plugin_Format.thy ===== *)
theory Plugin_Format
  imports Prelude
begin

text \<open>
  The declarative plugin format of backend/core/src/plugins.rs: the permission model, manifests and
  packages, and the pure helpers (version order, display text, colours, path segments) that stand
  between a plugin store that is not trusted and the user's disk and terminal.
\<close>

section \<open>Permissions\<close>

definition ALLOWED_PERMISSIONS :: "string list" where
  "ALLOWED_PERMISSIONS = [''tui.theme'', ''tui.widget'', ''tui.statusbar'', ''tui.panel'', ''tui.renderer'', ''tui.command'',
     ''notify'', ''wallet.read.status'', ''wallet.read.address'', ''wallet.read.balance'', ''wallet.convert.fiat'']"

definition FORBIDDEN_PERMISSIONS :: "string list" where
  "FORBIDDEN_PERMISSIONS = [''wallet.read.seed'', ''wallet.read.privatekey'', ''wallet.read.privatekeys'', ''wallet.sign'',
     ''wallet.send'', ''wallet.broadcast'', ''wallet.write'', ''wallet.address.modify'', ''wallet.destination.modify'',
     ''wallet.fees.hide'', ''wallet.confirm'', ''wallet.confirm.modify'', ''wallet.core'', ''notify.bypass'', ''ui.system'',
     ''ui.official'']"

definition permission_help :: "string \<Rightarrow> string" where
  "permission_help p =
     (if p = ''tui.theme'' then ''change the color theme''
      else if p = ''tui.widget'' then ''add a small TUI widget (clock / status indicator)''
      else if p = ''tui.statusbar'' then ''add an item to the status bar''
      else if p = ''tui.panel'' then ''add an optional side panel''
      else if p = ''tui.renderer'' then ''render custom previews for matching messages''
      else if p = ''tui.command'' then ''add a safe local-only utility command''
      else if p = ''notify'' then ''request notifications through the notification core''
      else if p = ''wallet.read.status'' then ''read-only: show whether a wallet is configured''
      else if p = ''wallet.read.address'' then ''read-only: show an approved public wallet address''
      else if p = ''wallet.read.balance'' then ''read-only: show an approved balance''
      else if p = ''wallet.convert.fiat'' then ''read-only: convert a visible balance to fiat''
      else ''unknown permission'')"

fun validate_permissions :: "string list \<Rightarrow> string + unit" where
  "validate_permissions [] = Inr ()"
| "validate_permissions (q # ps) =
     (let p = trim q in
      if p \<in> set FORBIDDEN_PERMISSIONS
      then Inl (''permission '' @ [CHR 0x27] @ p @ [CHR 0x27] @ '' is forbidden for plugins (privileged/unsafe)'')
      else if prefix ''wallet.'' p \<and> p \<notin> set ALLOWED_PERMISSIONS
      then Inl (''wallet permission '' @ [CHR 0x27] @ p @ [CHR 0x27] @ '' is not allowed - wallet access is read-only and limited'')
      else if p \<notin> set ALLOWED_PERMISSIONS
      then Inl (''permission '' @ [CHR 0x27] @ p @ [CHR 0x27] @ '' is not recognised'')
      else validate_permissions ps)"

lemma allowed_not_forbidden: "p \<in> set ALLOWED_PERMISSIONS \<Longrightarrow> p \<notin> set FORBIDDEN_PERMISSIONS"
  by (auto simp: ALLOWED_PERMISSIONS_def FORBIDDEN_PERMISSIONS_def)

lemma validate_permissions_iff [simp]:
  "validate_permissions ps = Inr u \<longleftrightarrow> trim ` set ps \<subseteq> set ALLOWED_PERMISSIONS"
  by (induction ps) (auto simp: Let_def allowed_not_forbidden)

section \<open>Manifests and packages\<close>

record manifest =
  mf_name :: string
  mf_display_name :: string
  mf_version :: string
  mf_kind :: string
  mf_category :: string
  mf_description :: string
  mf_author :: string
  mf_license :: string
  mf_source_url :: string
  mf_permissions :: "string list"
  mf_min_client :: string
  mf_package_sha256 :: string
  mf_updated_ts :: int

record theme =
  th_magenta :: "string option"
  th_pink :: "string option"
  th_dark :: "string option"
  th_white :: "string option"
  th_border :: "string option"
  th_muted :: "string option"
  th_green :: "string option"
  th_yellow :: "string option"
  th_red :: "string option"

record widget =
  wd_slot :: string
  wd_kind :: string
  wd_value :: "string option"
  wd_format :: "string option"

record package =
  pk_theme :: "theme option"
  pk_widgets :: "widget list"

record installed =
  in_manifest :: manifest
  in_active :: bool

section \<open>Versions\<close>

fun split_where :: "(char \<Rightarrow> bool) \<Rightarrow> string \<Rightarrow> string list" where
  "split_where f [] = [[]]"
| "split_where f (x # xs) =
     (if f x then [] # split_where f xs
      else case split_where f xs of [] \<Rightarrow> [[x]] | p # ps \<Rightarrow> (x # p) # ps)"

definition version_parts :: "string \<Rightarrow> int list" where
  "version_parts s = map (\<lambda>p. case parse_i64 p of Some n \<Rightarrow> n | None \<Rightarrow> - 1)
     (split_where (\<lambda>c. c = CHR ''.'' \<or> c = CHR ''+'' \<or> c = CHR ''-'') s)"

definition part_at :: "int list \<Rightarrow> nat \<Rightarrow> int" where
  "part_at v i = (if i < length v then v ! i else 0)"

definition is_newer :: "string \<Rightarrow> string \<Rightarrow> bool" where
  "is_newer a b =
     (let va = version_parts a; vb = version_parts b in
      case find (\<lambda>i. part_at va i \<noteq> part_at vb i) [0..<max (length va) (length vb)] of
        None \<Rightarrow> False
      | Some i \<Rightarrow> part_at va i > part_at vb i)"

section \<open>Text for the terminal\<close>

text \<open>The C0 controls, DEL and the C1 controls (two bytes in UTF-8).\<close>

definition control_char :: "string \<Rightarrow> bool" where
  "control_char ch = (case ch of
       [c] \<Rightarrow> byte c < 32 \<or> byte c = 127
     | [a, b] \<Rightarrow> byte a = 194 \<and> 128 \<le> byte b \<and> byte b \<le> 159
     | _ \<Rightarrow> False)"

definition clean_display :: "string \<Rightarrow> nat \<Rightarrow> string" where
  "clean_display s n = concat (take n (filter (\<lambda>ch. \<not> control_char ch) (chars s)))"

definition hex_color :: "string \<Rightarrow> bool" where
  "hex_color s = (length s = 7 \<and> hd s = CHR 0x23 \<and> list_all is_ascii_hexdigit (tl s))"

definition clean_hex :: "string \<Rightarrow> string \<Rightarrow> string" where
  "clean_hex s dflt = (if hex_color s then s else dflt)"

definition pick :: "string option \<Rightarrow> string \<Rightarrow> string" where
  "pick c dflt = (case c of Some v \<Rightarrow> clean_hex v dflt | None \<Rightarrow> dflt)"

definition theme_to_palette :: "theme \<Rightarrow> (string \<times> string) list" where
  "theme_to_palette t =
     [(''magenta'', pick (th_magenta t) ''#EE00FF''), (''pink'', pick (th_pink t) ''#FF007B''),
      (''dark'', pick (th_dark t) ''#17191D''), (''white'', pick (th_white t) ''#FFFFFF''),
      (''border'', pick (th_border t) ''#3A2E3F''), (''muted'', pick (th_muted t) ''#8A8D93''),
      (''green'', pick (th_green t) ''#2ECC71''), (''yellow'', pick (th_yellow t) ''#F1C40F''),
      (''red'', pick (th_red t) ''#E74C3C'')]"

text \<open>A manifest as the user interface sees it.\<close>

record plugin_view =
  pv_name :: string
  pv_display_name :: string
  pv_version :: string
  pv_kind :: string
  pv_category :: string
  pv_description :: string
  pv_author :: string
  pv_license :: string
  pv_source_url :: string
  pv_permissions :: "(string \<times> string) list"
  pv_installed :: bool

definition manifest_to_value :: "manifest \<Rightarrow> installed list \<Rightarrow> plugin_view" where
  "manifest_to_value m idx =
     \<lparr>pv_name = clean_display (mf_name m) 64,
      pv_display_name = (if mf_display_name m = [] then clean_display (mf_name m) 64 else clean_display (mf_display_name m) 64),
      pv_version = clean_display (mf_version m) 32, pv_kind = clean_display (mf_kind m) 32,
      pv_category = clean_display (mf_category m) 32, pv_description = clean_display (mf_description m) 2000,
      pv_author = clean_display (mf_author m) 128, pv_license = clean_display (mf_license m) 64,
      pv_source_url = clean_display (mf_source_url m) 512,
      pv_permissions = map (\<lambda>p. (p, permission_help p)) (mf_permissions m),
      pv_installed = list_ex (\<lambda>p. mf_name (in_manifest p) = mf_name m) idx\<rparr>"

section \<open>Path segments\<close>

definition segment_char :: "char \<Rightarrow> bool" where
  "segment_char c = (is_ascii_alphanumeric c \<or> c = CHR ''-'' \<or> c = CHR ''_'' \<or> c = CHR ''.'')"

definition segment_edge :: "char \<Rightarrow> bool" where
  "segment_edge c = (c = CHR ''.'' \<or> c = CHR ''-'' \<or> c = CHR ''_'')"

definition trim_matches :: "(char \<Rightarrow> bool) \<Rightarrow> string \<Rightarrow> string" where
  "trim_matches f s = rev (dropWhile f (rev (dropWhile f s)))"

definition sanitize :: "string \<Rightarrow> string" where
  "sanitize name = trim_matches segment_edge
     (map (\<lambda>ch. case ch of [c] \<Rightarrow> if segment_char c then ascii_lower c else CHR ''-'' | _ \<Rightarrow> CHR ''-'') (chars name))"

section \<open>Events about plugins\<close>

datatype plugin_event =
    StorePlugins "plugin_view list"
  | InstalledPlugins "(plugin_view \<times> bool) list"
  | PluginInstalled string string string
  | PluginUpdateAvailable string string string string
  | PluginSubmitted string string string
  | ThemeEvent "string option"
  | WidgetsEvent string
  | ClientUpdateAvailable string string string string string

end
