(* ===== verification/Client_Base.thy ===== *)
theory Client_Base
  imports Vault Effects Proto Plugin_Format
begin

text \<open>
  What the client's network layer and session share: the events of backend/core/src/ipc.rs, the
  payloads of its control messages, the state one server connection works on, and the surroundings
  (clock, randomness, the relay's answers, JSON) as an argument.
\<close>

section \<open>Events\<close>

datatype event =
    ErrorEvent string string
  | InfoEvent string
  | ChatsEvent string "(string \<times> string \<times> string \<times> millis) list"
  | MessageEvent string string string millis bool bool
  | FingerprintEvent string string
  | HistoryEvent string "(string \<times> string \<times> millis \<times> bool \<times> bool) list"
  | OpenChatEvent string
  | RegisteredEvent string string string
  | ConnectedEvent string string
  | NeedUsernameEvent string
  | DisconnectedEvent string string
  | MaintenanceEvent string string millis string
  | PongEvent millis string
  | AttestEvent string string string string string string string string string
  | ReadyEvent "(string \<times> string \<times> string \<times> string option \<times> string option \<times> string option \<times> bool) list" string
  | PluginEvent plugin_event
  | ServersEvent "(string \<times> string \<times> string \<times> string option \<times> string option \<times> string option \<times> bool) list"

definition err_event :: "string \<Rightarrow> string \<Rightarrow> event" where
  "err_event code message = ErrorEvent code message"

section \<open>Control payloads\<close>

record group_key_share =
  gs_group_id :: string
  gs_name :: string
  gs_session_key :: string
  gs_sender_curve :: string
  gs_members :: "string list"
  gs_owner :: string
  gs_access_mode :: string
  gs_group_key :: string

record group_event =
  ge_kind :: string
  ge_who :: string
  ge_mode :: "string option"
  ge_until :: "millis option"

record join_request =
  jr_group_id :: string
  jr_group_key :: string

record join_denied =
  jd_group_id :: string
  jd_reason :: string

text \<open>\<open>serde_json\<close> on these four shapes.\<close>

record codec =
  share_of :: "bytes \<Rightarrow> string + group_key_share"
  event_of :: "bytes \<Rightarrow> string + group_event"
  join_of :: "bytes \<Rightarrow> string + join_request"
  denied_of :: "bytes \<Rightarrow> string + join_denied"
  share_bytes :: "group_key_share \<Rightarrow> bytes"
  event_bytes :: "group_event \<Rightarrow> bytes"
  join_bytes :: "join_request \<Rightarrow> bytes"
  denied_bytes :: "join_denied \<Rightarrow> bytes"

section \<open>State and surroundings\<close>

text \<open>
  \<open>c_sent\<close> is what was handed to the writer task, \<open>c_events\<close> what was emitted, oldest first. Every
  question to the surroundings (time, fresh keys, an answer of the relay) takes the next \<open>c_tick\<close>.
\<close>

record client =
  c_vault :: vault
  c_events :: "event list"
  c_sent :: "client_msg list"
  c_tick :: nat

record world =
  w_vz :: vodozemac
  w_codec :: codec
  w_blake3 :: "bytes \<Rightarrow> bytes"
  w_now :: "nat \<Rightarrow> millis"
  w_writer_open :: "nat \<Rightarrow> bool"
  w_reply :: "nat \<Rightarrow> string + server_msg"
  w_device :: "nat \<Rightarrow> bytes"
  w_group_sender :: "nat \<Rightarrow> bytes"
  w_rng :: "nat \<Rightarrow> nat \<Rightarrow> nat \<Rightarrow> nat"
  w_uuid :: "nat \<Rightarrow> string"

text \<open>What a connection's tasks know: the vault's key, our name and the server's address.\<close>

record proc_ctx =
  p_seal :: sealer
  p_me :: string
  p_addr :: string

definition draw :: "(nat \<Rightarrow> 'a) \<Rightarrow> (client, 'a) act" where
  "draw f c = (Inr (f (c_tick c)), c\<lparr>c_tick := Suc (c_tick c)\<rparr>)"

definition now_millis :: "world \<Rightarrow> (client, millis) act" where
  "now_millis W = draw (w_now W)"

definition emit :: "event \<Rightarrow> (client, unit) act" where
  "emit e = modify (\<lambda>c. c\<lparr>c_events := c_events c @ [e]\<rparr>)"

text \<open>The vault's operations as actions: queries, updates, and both at once.\<close>

definition vget :: "(vault \<Rightarrow> string + 'a) \<Rightarrow> (client, 'a) act" where
  "vget f c = (f (c_vault c), c)"

definition vput :: "(vault \<Rightarrow> string + vault) \<Rightarrow> (client, unit) act" where
  "vput f c = (case f (c_vault c) of Inl e \<Rightarrow> (Inl e, c) | Inr v \<Rightarrow> (Inr (), c\<lparr>c_vault := v\<rparr>))"

definition vcall :: "(vault \<Rightarrow> string + 'a \<times> vault) \<Rightarrow> (client, 'a) act" where
  "vcall f c = (case f (c_vault c) of Inl e \<Rightarrow> (Inl e, c) | Inr (x, v) \<Rightarrow> (Inr x, c\<lparr>c_vault := v\<rparr>))"

text \<open>\<open>send\<close>: to the writer task, unless it has ended; \<open>send_and_wait\<close>: and the one control answer.\<close>

definition send :: "world \<Rightarrow> client_msg \<Rightarrow> (client, unit) act" where
  "send W msg = bnd (draw (w_writer_open W)) (\<lambda>up.
     if up then modify (\<lambda>c. c\<lparr>c_sent := c_sent c @ [msg]\<rparr>) else raise ''server connection closed'')"

definition send_and_wait :: "world \<Rightarrow> client_msg \<Rightarrow> (client, server_msg) act" where
  "send_and_wait W msg = andthen (send W msg) (bnd (draw (w_reply W)) lift)"

definition build_chats_event :: "vault \<Rightarrow> string \<Rightarrow> string + event" where
  "build_chats_event v server = res_bind (list_chats v) (\<lambda>cs. Inr (ChatsEvent server cs))"

definition emit_chats :: "proc_ctx \<Rightarrow> (client, unit) act" where
  "emit_chats X = bnd (vget (\<lambda>v. build_chats_event v (p_addr X))) emit"

lemmas client_act_defs = draw_def now_millis_def emit_def vget_def vput_def vcall_def send_def
  send_and_wait_def emit_chats_def build_chats_event_def

section \<open>What actions do to the vault\<close>

definition on_vault :: "(vault \<Rightarrow> vault \<Rightarrow> bool) \<Rightarrow> client \<Rightarrow> client \<Rightarrow> bool" where
  "on_vault R c c' = R (c_vault c) (c_vault c')"

definition in_vault :: "(vault \<Rightarrow> bool) \<Rightarrow> client \<Rightarrow> bool" where
  "in_vault P c = P (c_vault c)"

abbreviation vacts :: "(vault \<Rightarrow> bool) \<Rightarrow> (vault \<Rightarrow> vault \<Rightarrow> bool) \<Rightarrow> (client, 'a) act \<Rightarrow> bool" where
  "vacts P R \<equiv> acts (in_vault P) (on_vault R)"

lemma coherent_on_vault [simp, intro]: "coherent P R \<Longrightarrow> coherent (in_vault P) (on_vault R)"
  unfolding coherent_def preorder_rel_def on_vault_def in_vault_def
  by (auto intro!: reflpI transpI dest: reflpD transpD)

text \<open>Actions that leave the vault as it is, and the actions made of vault operations.\<close>

lemma vacts_same: "coherent P R \<Longrightarrow> (\<And>c. c_vault (snd (m c)) = c_vault c) \<Longrightarrow> vacts P R m"
  by (simp add: acts_def on_vault_def coherent_refl)

lemma same_vault [simp]:
  "c_vault (snd (draw f c)) = c_vault c" "c_vault (snd (emit e c)) = c_vault c"
  "c_vault (snd (vget q c)) = c_vault c"
  by (simp_all add: client_act_defs modify_def)

lemma vacts_draw [act_intros]: "coherent P R \<Longrightarrow> vacts P R (draw f)"
  by (rule vacts_same) simp_all

lemma vacts_emit [act_intros]: "coherent P R \<Longrightarrow> vacts P R (emit e)"
  by (rule vacts_same) simp_all

lemma vacts_vget [act_intros]: "coherent P R \<Longrightarrow> vacts P R (vget q)"
  by (rule vacts_same) simp_all

lemma vacts_now [act_intros]: "coherent P R \<Longrightarrow> vacts P R (now_millis W)"
  unfolding now_millis_def by (rule vacts_draw)

lemma vacts_send [act_intros]: "coherent P R \<Longrightarrow> vacts P R (send W msg)"
  by (rule vacts_same) (auto simp: client_act_defs act_defs)

lemma vacts_send_and_wait [act_intros]: "coherent P R \<Longrightarrow> vacts P R (send_and_wait W msg)"
  unfolding send_and_wait_def by (intro act_intros coherent_on_vault)

lemma vacts_emit_chats [act_intros]: "coherent P R \<Longrightarrow> vacts P R (emit_chats X)"
  unfolding emit_chats_def by (intro act_intros coherent_on_vault)

lemma vacts_vput:
  "coherent P R \<Longrightarrow> (\<And>v v'. P v \<Longrightarrow> f v = Inr v' \<Longrightarrow> R v v') \<Longrightarrow> vacts P R (vput f)"
  by (auto simp: acts_def on_vault_def in_vault_def vput_def coherent_refl split: sum.split)

lemma vacts_vcall:
  "coherent P R \<Longrightarrow> (\<And>v x v'. P v \<Longrightarrow> f v = Inr (x, v') \<Longrightarrow> R v v') \<Longrightarrow> vacts P R (vcall f)"
  by (auto simp: acts_def on_vault_def in_vault_def vcall_def coherent_refl split: sum.split)

text \<open>A value read from the vault, with what the condition says of it.\<close>

lemma vacts_read:
  assumes "coherent P R" and "\<And>v x. P v \<Longrightarrow> q v = Inr x \<Longrightarrow> Q x" and "\<And>x. Q x \<Longrightarrow> vacts P R (f x)"
  shows "vacts P R (bnd (vget q) f)"
  using assms by (intro acts_bnd_fact [where Q = Q]) (auto simp: vget_def in_vault_def intro: act_intros)

end
