(* ===== verification/Net.thy ===== *)
theory Net
  imports Client_Base
begin

text \<open>
  The client's network layer, backend/core/src/net.rs, from a delivered frame to the vault and the
  user interface: decrypting, group key shares, moderation events, join requests, and the sending
  side that the processor and the commands share. One definition per function; logging is left out.
\<close>

section \<open>Olm payloads\<close>

definition parse_olm :: "sealer \<Rightarrow> string \<Rightarrow> string + nat \<times> bytes" where
  "parse_olm K payload =
     (let t = takeWhile (\<lambda>c. c \<noteq> CHR ''.'') payload; r = dropWhile (\<lambda>c. c \<noteq> CHR ''.'') payload in
      if r = [] then Inl ''malformed olm payload (expected <type>.<b64>)''
      else res_bind (ok_or ''invalid olm type prefix'' (parse_u8 t)) (\<lambda>olm_type.
           res_bind (b64_dec K (tl r)) (\<lambda>body. Inr (olm_type, body))))"

definition encode_olm :: "sealer \<Rightarrow> nat \<Rightarrow> bytes \<Rightarrow> string" where
  "encode_olm K olm_type body = show_nat olm_type @ ''.'' @ b64_enc K body"

section \<open>Identity pinning\<close>

definition client_valid_pubkey_b64 :: "sealer \<Rightarrow> string \<Rightarrow> bool" where
  "client_valid_pubkey_b64 K s =
     (s \<noteq> [] \<and> (case b64_dec K s of Inl _ \<Rightarrow> False | Inr b \<Rightarrow> length b = 32))"

definition accept_identity ::
    "sealer \<Rightarrow> string \<Rightarrow> string \<Rightarrow> string \<Rightarrow> string \<Rightarrow> (client, bool) act" where
  "accept_identity K username uuid ed curve =
     (if \<not> client_valid_pubkey_b64 K ed \<or> \<not> client_valid_pubkey_b64 K curve
      then andthen (emit (ErrorEvent ''identity_invalid''
             (''malformed identity bundle for '' @ username @ '' - refusing''))) (ret False)
      else bnd (vget (\<lambda>v. check_identity v username ed)) (\<lambda>r. case r of
             Conflict \<Rightarrow> andthen (emit (ErrorEvent ''identity_changed''
               (''SECURITY: identity key for '' @ username @
                '' changed - refusing (possible relay key substitution). If they truly reset their account, leave/remove the chat to re-pin.''))) (ret False)
           | _ \<Rightarrow> andthen (vput (\<lambda>v. upsert_contact v username uuid ed curve)) (ret True)))"

definition get_device :: "sealer \<Rightarrow> string \<Rightarrow> (client, bytes) act" where
  "get_device K msg = bnd (vget (\<lambda>v. load_account v K)) (\<lambda>d. lift (ok_or msg d))"

section \<open>Incoming Olm messages\<close>

definition sender_curve :: "world \<Rightarrow> proc_ctx \<Rightarrow> string \<Rightarrow> (client, string) act" where
  "sender_curve W X frm = bnd (vget (\<lambda>v. get_contact_curve v frm)) (\<lambda>c. case c of
       Some curve \<Rightarrow> ret curve
     | None \<Rightarrow> bnd (send_and_wait W (FetchPrekeys frm)) (\<lambda>reply. case reply of
         PrekeyBundle username uuid ed curve _ _ \<Rightarrow>
           bnd (accept_identity (p_seal X) username uuid ed curve) (\<lambda>ok.
             if ok then ret curve
             else raise (''identity key for '' @ username @ '' changed; refusing to accept message''))
       | ErrorMsg code message \<Rightarrow> raise (code @ '': '' @ message)
       | _ \<Rightarrow> raise ''unexpected prekey reply''))"

definition accept_prekey :: "world \<Rightarrow> proc_ctx \<Rightarrow> string \<Rightarrow> nat \<Rightarrow> bytes \<Rightarrow> (client, bytes) act" where
  "accept_prekey W X frm olm_type body =
     bnd (sender_curve W X frm) (\<lambda>curve.
     bnd (get_device (p_seal X) ''no device identity in vault'') (\<lambda>device.
     bnd (lift (create_inbound (w_vz W) device curve olm_type body)) (\<lambda>((session, plaintext), device').
     andthen (vput (\<lambda>v. save_account v (p_seal X) device'))
     (andthen (vput (\<lambda>v. save_olm v (p_seal X) frm session))
     (ret plaintext)))))"

definition obtain_olm_plaintext :: "world \<Rightarrow> proc_ctx \<Rightarrow> string \<Rightarrow> string \<Rightarrow> (client, bytes) act" where
  "obtain_olm_plaintext W X frm payload =
     bnd (lift (parse_olm (p_seal X) payload)) (\<lambda>(olm_type, body).
     bnd (vget (\<lambda>v. load_olm v (p_seal X) frm)) (\<lambda>sess. case sess of
         None \<Rightarrow> accept_prekey W X frm olm_type body
       | Some session \<Rightarrow> (case olm_decrypt (w_vz W) session olm_type body of
           Inr (plaintext, session') \<Rightarrow>
             andthen (vput (\<lambda>v. save_olm v (p_seal X) frm session')) (ret plaintext)
         | Inl e \<Rightarrow> if olm_type \<noteq> 0 then raise e else accept_prekey W X frm olm_type body)))"

definition from_utf8 :: "bytes \<Rightarrow> string + string" where
  "from_utf8 b = (if utf8_valid b then Inr b else Inl ''invalid utf-8 sequence'')"

text \<open>The vault stamps a chat or a message with its own clock.\<close>

definition store_chat :: "world \<Rightarrow> string \<Rightarrow> string \<Rightarrow> string \<Rightarrow> (client, unit) act" where
  "store_chat W cid kind title = bnd (now_millis W) (\<lambda>now. vput (\<lambda>v. upsert_chat now v cid kind title))"

definition store_message :: "world \<Rightarrow> string \<Rightarrow> string \<Rightarrow> string \<Rightarrow> millis \<Rightarrow> int \<Rightarrow> (client, unit) act" where
  "store_message W cid frm body ts out =
     bnd (now_millis W) (\<lambda>now. vput (\<lambda>v. insert_message now v cid frm body ts out))"

definition emit_system :: "world \<Rightarrow> string \<Rightarrow> string \<Rightarrow> millis \<Rightarrow> (client, unit) act" where
  "emit_system W chat txt ts =
     andthen (store_message W chat ''System'' txt ts 0) (emit (MessageEvent chat ''System'' txt ts False True))"

definition deliver_system :: "world \<Rightarrow> string \<Rightarrow> string \<Rightarrow> millis \<Rightarrow> (client, unit) act" where
  "deliver_system W chat leaver client_ts = emit_system W chat (leaver @ '' left the chat.'') client_ts"

definition deliver_dm_text :: "world \<Rightarrow> proc_ctx \<Rightarrow> string \<Rightarrow> bytes \<Rightarrow> millis \<Rightarrow> (client, unit) act" where
  "deliver_dm_text W X frm plaintext client_ts =
     bnd (lift (from_utf8 plaintext)) (\<lambda>txt.
     bnd (vget (\<lambda>v. chat_exists v frm)) (\<lambda>existed.
     andthen (store_chat W frm ''dm'' frm)
     (andthen (vput (\<lambda>v. add_member v frm (p_me X)))
     (andthen (vput (\<lambda>v. add_member v frm frm))
     (andthen (store_message W frm frm txt client_ts 0)
     (andthen (if existed then ret () else emit_chats X)
     (andthen (emit (MessageEvent frm frm txt client_ts False False))
     (bnd (vget (\<lambda>v. get_contact_ed v frm)) (\<lambda>ed. case ed of
         Some e \<Rightarrow> emit (FingerprintEvent frm (safety_number (w_blake3 W) e))
       | None \<Rightarrow> ret ())))))))))"

section \<open>Group key shares\<close>

definition owner_share :: "bool \<Rightarrow> group_meta option \<Rightarrow> string \<Rightarrow> string \<Rightarrow> bool" where
  "owner_share is_new existing share_owner frm = (case (is_new, existing) of
       (True, None) \<Rightarrow> share_owner \<noteq> [] \<and> share_owner = frm
     | (False, Some m) \<Rightarrow> owner m \<noteq> [] \<and> owner m = frm
     | _ \<Rightarrow> False)"

definition store_share :: "world \<Rightarrow> proc_ctx \<Rightarrow> string \<Rightarrow> group_key_share \<Rightarrow> bool \<Rightarrow> bool \<Rightarrow> (client, unit) act" where
  "store_share W X frm share by_owner is_new =
     bnd (lift (from_session_key_b64 (w_vz W) (gs_session_key share))) (\<lambda>receiver.
     andthen (vput (\<lambda>v. save_group_in v (p_seal X) (gs_group_id share) frm receiver))
     (andthen (if by_owner then store_chat W (gs_group_id share) ''group'' (gs_name share) else ret ())
     (andthen (if by_owner then
         andthen (for_each (gs_members share) (\<lambda>m. vput (\<lambda>v. add_member v (gs_group_id share) m)))
           (if valid_group_key (gs_group_key share)
            then vput (\<lambda>v. upsert_group_meta v (gs_group_id share) (gs_group_key share)
                   (if access_mode_valid (gs_access_mode share) then gs_access_mode share else OPEN) frm)
            else ret ())
       else ret ())
     (andthen (emit_chats X)
     (if is_new then emit (InfoEvent (''added to group '' @ gs_name share)) else ret ())))))"

definition handle_group_key_share :: "world \<Rightarrow> proc_ctx \<Rightarrow> string \<Rightarrow> bytes \<Rightarrow> (client, unit) act" where
  "handle_group_key_share W X frm plaintext =
     bnd (lift (share_of (w_codec W) plaintext)) (\<lambda>share.
     bnd (vget (\<lambda>v. is_banned v (gs_group_id share) frm)) (\<lambda>banned.
     if banned then ret () else
     bnd (now_millis W) (\<lambda>now.
     bnd (vcall (\<lambda>v. is_suspended v (gs_group_id share) frm now)) (\<lambda>suspended.
     if suspended then ret () else
     bnd (vget (\<lambda>v. chat_exists v (gs_group_id share))) (\<lambda>existed.
     bnd (vget (\<lambda>v. get_group_meta v (gs_group_id share))) (\<lambda>existing.
     bnd (if existed then vget (\<lambda>v. is_member v (gs_group_id share) frm) else ret False) (\<lambda>member.
     let by_owner = owner_share (\<not> existed) existing (gs_owner share) frm in
     if \<not> existed \<and> \<not> by_owner then ret ()
     else if existed \<and> \<not> by_owner \<and> \<not> member then ret ()
     else store_share W X frm share by_owner (\<not> existed))))))))"

section \<open>Incoming Megolm messages\<close>

text \<open>What the three kinds of Megolm frame do first: load the sender's session and decrypt. None: no session.\<close>

definition megolm_open ::
    "world \<Rightarrow> proc_ctx \<Rightarrow> string \<Rightarrow> string \<Rightarrow> string \<Rightarrow> (client, ((bytes \<times> nat) \<times> bytes) option) act" where
  "megolm_open W X frm gid payload =
     bnd (vget (\<lambda>v. load_group_in v (p_seal X) gid frm)) (\<lambda>r. case r of
         None \<Rightarrow> andthen (emit (ErrorEvent ''decrypt_pending''
             (''no inbound session for group '' @ gid @ '' from '' @ frm @ '' yet''))) (ret None)
       | Some receiver \<Rightarrow>
           bnd (lift (b64_dec (p_seal X) payload)) (\<lambda>body.
           bnd (lift (group_decrypt (w_vz W) receiver body)) (\<lambda>x. ret (Some x))))"

text \<open>The replay guard: fresh frames are recorded and the session that moved on is stored.\<close>

definition megolm_fresh ::
    "world \<Rightarrow> proc_ctx \<Rightarrow> string \<Rightarrow> string \<Rightarrow> nat \<Rightarrow> bytes \<Rightarrow> (client, bool) act" where
  "megolm_fresh W X frm gid idx receiver =
     bnd (vcall (\<lambda>v. megolm_accept v gid frm (vz_group_session_id (w_vz W) receiver) idx)) (\<lambda>fresh.
     if fresh then andthen (vput (\<lambda>v. save_group_in v (p_seal X) gid frm receiver)) (ret True)
     else ret False)"

definition process_megolm ::
    "world \<Rightarrow> proc_ctx \<Rightarrow> string \<Rightarrow> string \<Rightarrow> string \<Rightarrow> millis \<Rightarrow> (client, unit) act" where
  "process_megolm W X frm gid payload client_ts =
     bnd (megolm_open W X frm gid payload) (\<lambda>r. case r of
         None \<Rightarrow> ret ()
       | Some ((plaintext, idx), receiver) \<Rightarrow>
           bnd (megolm_fresh W X frm gid idx receiver) (\<lambda>fresh.
           if \<not> fresh then ret () else
           bnd (lift (from_utf8 plaintext)) (\<lambda>txt.
           andthen (store_message W gid frm txt client_ts 0)
           (emit (MessageEvent gid frm txt client_ts False False)))))"

definition process_megolm_system ::
    "world \<Rightarrow> proc_ctx \<Rightarrow> string \<Rightarrow> string \<Rightarrow> string \<Rightarrow> millis \<Rightarrow> (client, unit) act" where
  "process_megolm_system W X frm gid payload client_ts =
     bnd (megolm_open W X frm gid payload) (\<lambda>r. case r of
         None \<Rightarrow> ret ()
       | Some ((plaintext, idx), receiver) \<Rightarrow>
           if plaintext \<noteq> ''left'' then ret () else
           bnd (megolm_fresh W X frm gid idx receiver) (\<lambda>fresh.
           if \<not> fresh then ret () else
           andthen (vput (\<lambda>v. remove_member v gid frm))
           (deliver_system W gid frm client_ts)))"

definition group_event_text :: "string \<Rightarrow> string \<Rightarrow> string \<Rightarrow> string option" where
  "group_event_text kind who extra =
     (if kind = ''requested'' then Some (who @ '' requested to join the group.'')
      else if kind = ''joined'' then Some (who @ '' joined the group.'')
      else if kind = ''removed'' then Some (who @ '' was removed from the group.'')
      else if kind = ''banned'' then Some (who @ '' was banned from the group.'')
      else if kind = ''suspended'' then Some (who @ '' was suspended from the group.'')
      else if kind = ''access'' then Some (''group access mode set to '' @ extra @ ''.'')
      else None)"

definition system_line :: "world \<Rightarrow> string \<Rightarrow> string option \<Rightarrow> millis \<Rightarrow> (client, unit) act" where
  "system_line W gid line ts = (case line of None \<Rightarrow> ret () | Some txt \<Rightarrow> emit_system W gid txt ts)"

text \<open>
  The effect of an event the owner signed. The result says whether the handler goes on to the system
  line (it stops when we were removed or banned, since the chat is gone).
\<close>

definition apply_group_event ::
    "proc_ctx \<Rightarrow> string \<Rightarrow> group_event \<Rightarrow> millis \<Rightarrow> (client, bool) act" where
  "apply_group_event X gid ev client_ts =
     (if ge_kind ev = ''joined'' then
        andthen (vput (\<lambda>v. unban_user v gid (ge_who ev)))
        (andthen (vput (\<lambda>v. clear_suspension v gid (ge_who ev)))
        (andthen (vput (\<lambda>v. add_member v gid (ge_who ev))) (ret True)))
      else if ge_kind ev = ''removed'' \<or> ge_kind ev = ''banned'' \<or> ge_kind ev = ''suspended'' then
        (if ge_who ev = p_me X then
           (if ge_kind ev = ''suspended''
            then andthen (emit (InfoEvent ''you were suspended from a group'')) (ret True)
            else andthen (vput (\<lambda>v. delete_chat v gid))
                 (andthen (emit_chats X)
                 (andthen (emit (InfoEvent (''you were '' @ ge_kind ev @ '' from a group''))) (ret False))))
         else
           andthen (vput (\<lambda>v. remove_member v gid (ge_who ev)))
           (andthen (vput (\<lambda>v. delete_group_in v gid (ge_who ev)))
           (andthen
             (if ge_kind ev = ''banned'' then vput (\<lambda>v. ban_user v gid (ge_who ev) client_ts)
              else if ge_kind ev = ''suspended'' then
                (case ge_until ev of None \<Rightarrow> ret ()
                 | Some until_ts \<Rightarrow> vput (\<lambda>v. suspend_user v gid (ge_who ev) until_ts))
              else ret ())
           (ret True))))
      else if ge_kind ev = ''access'' then
        andthen (case ge_mode ev of None \<Rightarrow> ret ()
          | Some mode \<Rightarrow> if access_mode_valid mode then vput (\<lambda>v. set_access_mode v gid mode) else ret ())
        (ret True)
      else ret True)"

definition owned_by :: "group_meta option \<Rightarrow> string \<Rightarrow> bool" where
  "owned_by m who = (case m of None \<Rightarrow> False | Some g \<Rightarrow> owner g \<noteq> [] \<and> owner g = who)"

definition process_group_event ::
    "world \<Rightarrow> proc_ctx \<Rightarrow> string \<Rightarrow> string \<Rightarrow> string \<Rightarrow> millis \<Rightarrow> (client, unit) act" where
  "process_group_event W X frm gid payload client_ts =
     bnd (megolm_open W X frm gid payload) (\<lambda>r. case r of
         None \<Rightarrow> ret ()
       | Some ((plaintext, idx), receiver) \<Rightarrow>
           bnd (megolm_fresh W X frm gid idx receiver) (\<lambda>fresh.
           if \<not> fresh then ret () else
           bnd (vget (\<lambda>v. get_group_meta v gid)) (\<lambda>m.
           if \<not> owned_by m frm then ret () else
           bnd (lift (event_of (w_codec W) plaintext)) (\<lambda>ev.
           bnd (apply_group_event X gid ev client_ts) (\<lambda>goes_on.
           if \<not> goes_on then ret () else
           andthen (system_line W gid (group_event_text (ge_kind ev) (ge_who ev)
               (case ge_mode ev of None \<Rightarrow> [] | Some mode \<Rightarrow> mode)) client_ts)
           (emit_chats X))))))"

section \<open>Sending\<close>

definition ensure_olm :: "world \<Rightarrow> sealer \<Rightarrow> string \<Rightarrow> (client, bytes option) act" where
  "ensure_olm W K peer =
     bnd (vget (\<lambda>v. load_olm v K peer)) (\<lambda>sess. case sess of
         Some s \<Rightarrow> ret (Some s)
       | None \<Rightarrow>
           bnd (get_device K ''no device identity'') (\<lambda>device.
           bnd (send_and_wait W (FetchPrekeys peer)) (\<lambda>reply. case reply of
               PrekeyBundle username uuid ed curve _ (Some otk) \<Rightarrow>
                 bnd (accept_identity K username uuid ed curve) (\<lambda>ok.
                   if \<not> ok then ret None
                   else bnd (lift (start_session (w_vz W) device curve otk)) (\<lambda>s. ret (Some s)))
             | PrekeyBundle username uuid ed curve _ None \<Rightarrow>
                 andthen (emit (err_event NO_PREKEYS (peer @ '' has no one-time keys; skipped''))) (ret None)
             | ErrorMsg code message \<Rightarrow> andthen (emit (err_event code message)) (ret None)
             | _ \<Rightarrow> andthen (emit (err_event ''internal'' ''unexpected prekey reply'')) (ret None))))"

text \<open>Encrypting for one peer with a pairwise session, storing the session and sending.\<close>

definition send_olm ::
    "world \<Rightarrow> sealer \<Rightarrow> string \<Rightarrow> bytes \<Rightarrow> bytes \<Rightarrow> string \<Rightarrow> string option \<Rightarrow> millis \<Rightarrow> (client, unit) act" where
  "send_olm W K peer session plaintext msg_type gid ts =
     bnd (lift (olm_encrypt (w_vz W) session plaintext)) (\<lambda>((t, body), session').
     andthen (vput (\<lambda>v. save_olm v K peer session'))
     (send W (SendMsg [peer] msg_type (encode_olm K t body) gid ts)))"

definition share_for :: "world \<Rightarrow> string \<Rightarrow> string \<Rightarrow> bytes \<Rightarrow> bytes \<Rightarrow> string list \<Rightarrow> group_meta option \<Rightarrow> group_key_share" where
  "share_for W gid name device grp members m =
     \<lparr>gs_group_id = gid, gs_name = name, gs_session_key = session_key_b64 (w_vz W) grp,
      gs_sender_curve = curve25519_b64 (w_vz W) device, gs_members = members,
      gs_owner = (case m of None \<Rightarrow> [] | Some g \<Rightarrow> owner g),
      gs_access_mode = (case m of None \<Rightarrow> OPEN | Some g \<Rightarrow> access_mode g),
      gs_group_key = (case m of None \<Rightarrow> [] | Some g \<Rightarrow> group_key g)\<rparr>"

definition distribute_group_key ::
    "world \<Rightarrow> sealer \<Rightarrow> string \<Rightarrow> string \<Rightarrow> string \<Rightarrow> string list \<Rightarrow> bytes \<Rightarrow> (client, unit) act" where
  "distribute_group_key W K me gid name recipients grp =
     bnd (get_device K ''no device identity'') (\<lambda>device.
     bnd (vget (\<lambda>v. get_members v gid)) (\<lambda>members.
     bnd (vget (\<lambda>v. get_group_meta v gid)) (\<lambda>m.
     bnd (now_millis W) (\<lambda>now.
     for_each recipients (\<lambda>member.
       if member = me then ret () else
       bnd (ensure_olm W K member) (\<lambda>sess. case sess of
           None \<Rightarrow> ret ()
         | Some session \<Rightarrow>
             send_olm W K member session
               (share_bytes (w_codec W) (share_for W gid name device grp members m))
               OLM_GROUP_KEY (Some gid) now))))))"

text \<open>Our outbound group session, minted (and stored) if there is none; the flag says it is new.\<close>

definition outbound_group :: "world \<Rightarrow> sealer \<Rightarrow> string \<Rightarrow> (client, bytes \<times> bool) act" where
  "outbound_group W K gid =
     bnd (vget (\<lambda>v. load_group_out v K gid)) (\<lambda>s. case s of
         Some grp \<Rightarrow> ret (grp, False)
       | None \<Rightarrow> bnd (draw (w_group_sender W)) (\<lambda>grp.
           andthen (vput (\<lambda>v. save_group_out v K gid grp)) (ret (grp, True))))"

definition broadcast_group_event ::
    "world \<Rightarrow> sealer \<Rightarrow> string \<Rightarrow> string \<Rightarrow> string \<Rightarrow> group_event \<Rightarrow> (client, unit) act" where
  "broadcast_group_event W K me gid name ev =
     bnd (vget (\<lambda>v. get_members v gid)) (\<lambda>roster.
     bnd (outbound_group W K gid) (\<lambda>(grp, fresh).
     andthen (if fresh then distribute_group_key W K me gid name roster grp else ret ())
     (case group_encrypt (w_vz W) grp (event_bytes (w_codec W) ev) of (body, grp') \<Rightarrow>
       andthen (vput (\<lambda>v. save_group_out v K gid grp'))
       (let recipients = filter (\<lambda>m. m \<noteq> me) roster in
        if recipients = [] then ret ()
        else bnd (now_millis W) (\<lambda>now.
          send W (SendMsg recipients GROUP_EVENT (b64_enc K body) (Some gid) now))))))"

definition chat_title :: "string \<Rightarrow> (client, string) act" where
  "chat_title gid = bnd (vget (\<lambda>v. get_chat v gid)) (\<lambda>c. ret (case c of None \<Rightarrow> [] | Some (_, t) \<Rightarrow> t))"

definition joined_event :: "string \<Rightarrow> group_event" where
  "joined_event who = \<lparr>ge_kind = ''joined'', ge_who = who, ge_mode = None, ge_until = None\<rparr>"

definition admit_member :: "world \<Rightarrow> proc_ctx \<Rightarrow> string \<Rightarrow> string \<Rightarrow> millis \<Rightarrow> (client, unit) act" where
  "admit_member W X gid who now =
     bnd (chat_title gid) (\<lambda>name.
     andthen (vput (\<lambda>v. add_member v gid who))
     (andthen (vput (\<lambda>v. remove_join_request v gid who))
     (bnd (outbound_group W (p_seal X) gid) (\<lambda>(grp, _).
     andthen (distribute_group_key W (p_seal X) (p_me X) gid name [who] grp)
     (andthen (broadcast_group_event W (p_seal X) (p_me X) gid name (joined_event who))
     (andthen (system_line W gid (group_event_text ''joined'' who []) now)
     (emit_chats X)))))))"

definition send_olm_control ::
    "world \<Rightarrow> sealer \<Rightarrow> string \<Rightarrow> string \<Rightarrow> string \<Rightarrow> bytes \<Rightarrow> (client, unit) act" where
  "send_olm_control W K peer msg_type gid plaintext =
     bnd (ensure_olm W K peer) (\<lambda>sess. case sess of
         None \<Rightarrow> ret ()
       | Some session \<Rightarrow>
           bnd (lift (olm_encrypt (w_vz W) session plaintext)) (\<lambda>((t, body), session').
           andthen (vput (\<lambda>v. save_olm v K peer session'))
           (bnd (now_millis W) (\<lambda>now.
             send W (SendMsg [peer] msg_type (encode_olm K t body) (Some gid) now)))))"

definition deny_join :: "world \<Rightarrow> proc_ctx \<Rightarrow> string \<Rightarrow> string \<Rightarrow> string \<Rightarrow> (client, unit) act" where
  "deny_join W X who gid reason =
     send_olm_control W (p_seal X) who GROUP_JOIN_DENIED gid
       (denied_bytes (w_codec W) \<lparr>jd_group_id = gid, jd_reason = reason\<rparr>)"

section \<open>Join requests\<close>

datatype join_decision = Admit | Queue | Deny string

definition decide_join :: "string \<Rightarrow> bool \<Rightarrow> bool \<Rightarrow> bool \<Rightarrow> bool \<Rightarrow> join_decision" where
  "decide_join mode key_ok banned suspended member =
     (if \<not> key_ok then Deny ''invalid group key''
      else if banned then Deny ''you are banned from this group''
      else if suspended then Deny ''you are suspended from this group''
      else if member then Admit
      else if mode = OPEN then Admit
      else if mode = APPROVAL then Queue
      else if mode = INVITE_ONLY then Deny ''this group is invite-only; ask the owner for an invite''
      else Deny ''this group is not accepting joins'')"

definition handle_join_request :: "world \<Rightarrow> proc_ctx \<Rightarrow> string \<Rightarrow> bytes \<Rightarrow> millis \<Rightarrow> (client, unit) act" where
  "handle_join_request W X frm plaintext now =
     bnd (lift (join_of (w_codec W) plaintext)) (\<lambda>req.
     bnd (vget (\<lambda>v. get_group_meta v (jr_group_id req))) (\<lambda>found. case found of
         None \<Rightarrow> ret ()
       | Some m \<Rightarrow> if \<not> owned_by (Some m) (p_me X) then ret () else
           (let gid = jr_group_id req;
                key_ok = (valid_group_key (jr_group_key req) \<and> jr_group_key req = group_key m) in
            bnd (vget (\<lambda>v. is_banned v gid frm)) (\<lambda>banned.
            bnd (vcall (\<lambda>v. is_suspended v gid frm now)) (\<lambda>suspended.
            bnd (vget (\<lambda>v. is_member v gid frm)) (\<lambda>member.
            case decide_join (access_mode m) key_ok banned suspended member of
                Admit \<Rightarrow> admit_member W X (group_id m) frm now
              | Queue \<Rightarrow>
                  andthen (vput (\<lambda>v. add_join_request v gid frm now))
                  (andthen (system_line W gid (group_event_text ''requested'' frm []) now)
                  (emit (InfoEvent (frm @ '' requested to join - /accept '' @ frm @ '' (in that group) to admit''))))
              | Deny reason \<Rightarrow> deny_join W X frm gid reason))))))"

definition handle_join_denied :: "world \<Rightarrow> string \<Rightarrow> bytes \<Rightarrow> (client, unit) act" where
  "handle_join_denied W frm plaintext =
     bnd (lift (denied_of (w_codec W) plaintext)) (\<lambda>d.
     emit (InfoEvent (''could not join group (from '' @ frm @ ''): '' @ jd_reason d)))"

section \<open>The processor\<close>

record incoming =
  inc_from :: string
  inc_msg_type :: string
  inc_payload :: string
  inc_group_id :: "string option"
  inc_client_ts :: millis

definition need_group :: "string \<Rightarrow> incoming \<Rightarrow> (string \<Rightarrow> (client, unit) act) \<Rightarrow> (client, unit) act" where
  "need_group msg inc f = (case inc_group_id inc of None \<Rightarrow> raise msg | Some gid \<Rightarrow> f gid)"

definition process_one :: "world \<Rightarrow> proc_ctx \<Rightarrow> incoming \<Rightarrow> (client, unit) act" where
  "process_one W X inc =
     (let frm = inc_from inc; ty = inc_msg_type inc; payload = inc_payload inc; ts = inc_client_ts inc;
          olm = obtain_olm_plaintext W X frm payload in
      if ty = ''olm'' then bnd olm (\<lambda>p. deliver_dm_text W X frm p ts)
      else if ty = ''olm_group_key'' then bnd olm (\<lambda>p. handle_group_key_share W X frm p)
      else if ty = ''megolm'' then
        need_group ''megolm frame missing group_id'' inc (\<lambda>gid. process_megolm W X frm gid payload ts)
      else if ty = ''olm_system'' then
        bnd olm (\<lambda>p. if p = ''left'' then deliver_system W frm frm ts else ret ())
      else if ty = ''megolm_system'' then
        need_group ''megolm_system missing group_id'' inc (\<lambda>gid. process_megolm_system W X frm gid payload ts)
      else if ty = ''group_join'' then bnd olm (\<lambda>p. handle_join_request W X frm p ts)
      else if ty = ''group_join_denied'' then bnd olm (\<lambda>p. handle_join_denied W frm p)
      else if ty = ''group_event'' then
        need_group ''group_event missing group_id'' inc (\<lambda>gid. process_group_event W X frm gid payload ts)
      else ret ())"

text \<open>The loop of the processor task: a failing frame is reported and the next one is taken.\<close>

definition process_reporting :: "world \<Rightarrow> proc_ctx \<Rightarrow> incoming \<Rightarrow> (client, unit) act" where
  "process_reporting W X inc c = (case process_one W X inc c of
       (Inl e, c') \<Rightarrow> emit (ErrorEvent ''decrypt_failed'' e) c'
     | (Inr _, c') \<Rightarrow> (Inr (), c'))"

definition processor_loop :: "world \<Rightarrow> proc_ctx \<Rightarrow> incoming list \<Rightarrow> (client, unit) act" where
  "processor_loop W X incs = for_each incs (process_reporting W X)"

end
