(* ===== verification/Net_Link.thy ===== *)
theory Net_Link
  imports Net
begin

text \<open>
  The connection itself, backend/core/src/net.rs: the reader task, the one slot for a pending
  request, and the bounded queue of delivered frames, as a transition system. Requests carry no
  number on the wire; the numbers here only name the callers, to say who gets which answer.
\<close>

section \<open>State\<close>

definition IN_QUEUE :: nat where "IN_QUEUE = 2048"

text \<open>
  \<open>l_slot\<close> is \<open>pending\<close> (whose one-shot sender it holds), \<open>l_waiting\<close> the caller that holds the
  control lock and awaits its answer, \<open>l_results\<close> what callers were given.
\<close>

record link =
  l_slot :: "nat option"
  l_waiting :: "nat option"
  l_issued :: nat
  l_out :: "client_msg list"
  l_queue :: "incoming list"
  l_reading :: bool
  l_results :: "(nat \<times> (string + server_msg)) list"
  l_link_events :: "event list"

definition open_link :: link where
  "open_link = \<lparr>l_slot = None, l_waiting = None, l_issued = 0, l_out = [], l_queue = [], l_reading = True,
     l_results = [], l_link_events = []\<rparr>"

text \<open>What the reader gets from the socket: an error or the end, a frame of unknown shape, a message.\<close>

datatype wire = Closed string | Unknown | Msg server_msg

section \<open>Steps\<close>

definition settle :: "nat \<Rightarrow> string + server_msg \<Rightarrow> link \<Rightarrow> link" where
  "settle n x l = l\<lparr>l_waiting := None, l_results := l_results l @ [(n, x)]\<rparr>"

text \<open>Taking the slot's sender and dropping it, or answering through it: its caller, if it still waits, goes on.\<close>

definition take_slot :: "string + server_msg \<Rightarrow> link \<Rightarrow> link" where
  "take_slot x l = (case l_slot l of
       None \<Rightarrow> l
     | Some n \<Rightarrow> (let l' = l\<lparr>l_slot := None\<rparr> in if l_waiting l = Some n then settle n x l' else l'))"

text \<open>\<open>send\<close>, and \<open>send_and_wait\<close> up to the wait (once the control lock is free), for a writer that runs or not.\<close>

definition post :: "bool \<Rightarrow> client_msg \<Rightarrow> link \<Rightarrow> link" where
  "post writer msg l = (if writer then l\<lparr>l_out := l_out l @ [msg]\<rparr> else l)"

definition begin_request :: "bool \<Rightarrow> client_msg \<Rightarrow> link \<Rightarrow> link option" where
  "begin_request writer msg l =
     (if l_waiting l \<noteq> None then None
      else let n = l_issued l; l' = l\<lparr>l_slot := Some n, l_issued := n + 1\<rparr> in
        Some (if writer then l'\<lparr>l_waiting := Some n, l_out := l_out l' @ [msg]\<rparr>
              else settle n (Inl ''server connection closed'') l'))"

text \<open>The 30 seconds are over: the slot is cleared.\<close>

definition time_out :: "link \<Rightarrow> link option" where
  "time_out l = (case l_waiting l of
       None \<Rightarrow> None
     | Some n \<Rightarrow> Some (settle n (Inl ''server timed out'') (l\<lparr>l_slot := None\<rparr>)))"

definition to_incoming :: "string \<Rightarrow> string \<Rightarrow> string \<Rightarrow> string option \<Rightarrow> millis \<Rightarrow> incoming" where
  "to_incoming frm msg_type payload gid client_ts =
     \<lparr>inc_from = frm, inc_msg_type = msg_type, inc_payload = payload, inc_group_id = gid,
      inc_client_ts = client_ts\<rparr>"

definition disconnect :: "string \<Rightarrow> string \<Rightarrow> link \<Rightarrow> link" where
  "disconnect addr reason l =
     (let l' = take_slot (Inl ''server closed before replying'') l
      in l'\<lparr>l_reading := False, l_link_events := l_link_events l' @ [DisconnectedEvent addr reason]\<rparr>)"

definition reader_step :: "string \<Rightarrow> wire \<Rightarrow> link \<Rightarrow> link option" where
  "reader_step addr w l =
     (if \<not> l_reading l then None else Some (case w of
        Closed reason \<Rightarrow> disconnect addr reason l
      | Unknown \<Rightarrow> l
      | Msg m \<Rightarrow> (case m of
          Deliver frm _ msg_type payload gid _ client_ts \<Rightarrow>
            if length payload > MAX_PAYLOAD then l
            else if length (l_queue l) < IN_QUEUE
            then l\<lparr>l_queue := l_queue l @ [to_incoming frm msg_type payload gid client_ts]\<rparr>
            else disconnect addr ''incoming queue overflow'' l
        | Maintenance reason deadline version \<Rightarrow>
            l\<lparr>l_link_events := l_link_events l @
              [MaintenanceEvent addr reason deadline (case version of None \<Rightarrow> [] | Some v \<Rightarrow> v)]\<rparr>
        | reply \<Rightarrow> take_slot (Inr reply) l)))"

text \<open>The processor takes the next frame.\<close>

definition take_incoming :: "link \<Rightarrow> (incoming \<times> link) option" where
  "take_incoming l = (case l_queue l of [] \<Rightarrow> None | i # is \<Rightarrow> Some (i, l\<lparr>l_queue := is\<rparr>))"

inductive link_step :: "link \<Rightarrow> link \<Rightarrow> bool" where
  Post: "link_step l (post writer msg l)"
| Begin: "begin_request writer msg l = Some l' \<Longrightarrow> link_step l l'"
| Timeout: "time_out l = Some l' \<Longrightarrow> link_step l l'"
| Read: "reader_step addr w l = Some l' \<Longrightarrow> link_step l l'"
| Take: "take_incoming l = Some (i, l') \<Longrightarrow> link_step l l'"

inductive link_reachable :: "link \<Rightarrow> bool" where
  Start: "link_reachable open_link"
| Step: "link_reachable l \<Longrightarrow> link_step l l' \<Longrightarrow> link_reachable l'"

lemmas link_defs = settle_def take_slot_def post_def begin_request_def time_out_def disconnect_def
  reader_step_def take_incoming_def Let_def

section \<open>The invariant\<close>

definition link_inv :: "link \<Rightarrow> bool" where
  "link_inv l =
     (distinct (map fst (l_results l)) \<and>
      set (map fst (l_results l)) \<union> set_option (l_waiting l) = {n. n < l_issued l} \<and>
      (\<forall>n. l_waiting l = Some n \<longrightarrow> n \<notin> set (map fst (l_results l)) \<and> l_slot l = Some n) \<and>
      length (l_queue l) \<le> IN_QUEUE)"

lemma link_inv_settle:
  assumes "link_inv l" and "l_waiting l = Some n"
  shows "link_inv (settle n x (l\<lparr>l_slot := s\<rparr>))"
  using assms by (auto simp: link_inv_def settle_def)

lemma link_inv_take_slot: "link_inv l \<Longrightarrow> link_inv (take_slot x l)"
proof (cases "l_slot l")
  case (Some n)
  assume inv: "link_inv l"
  show ?thesis
  proof (cases "l_waiting l = Some n")
    case True
    then show ?thesis using link_inv_settle [OF inv] Some by (simp add: take_slot_def)
  next
    case False
    then have "l_waiting l = None" using inv Some by (cases "l_waiting l") (auto simp: link_inv_def)
    then show ?thesis using inv Some by (simp add: take_slot_def link_inv_def)
  qed
qed (simp add: take_slot_def)

lemma link_inv_frame:
  "link_inv l \<Longrightarrow> link_inv (l\<lparr>l_reading := b\<rparr>)" "link_inv l \<Longrightarrow> link_inv (l\<lparr>l_link_events := es\<rparr>)"
  "link_inv l \<Longrightarrow> link_inv (l\<lparr>l_out := ms\<rparr>)"
  "link_inv l \<Longrightarrow> length q \<le> IN_QUEUE \<Longrightarrow> link_inv (l\<lparr>l_queue := q\<rparr>)"
  by (simp_all add: link_inv_def)

lemma link_inv_queue: "link_inv l \<Longrightarrow> length (l_queue l) \<le> IN_QUEUE"
  by (simp add: link_inv_def)

lemma link_inv_disconnect: "link_inv l \<Longrightarrow> link_inv (disconnect addr reason l)"
  unfolding disconnect_def Let_def by (intro link_inv_frame link_inv_take_slot)

lemma link_inv_begin:
  assumes "link_inv l" and "begin_request writer msg l = Some l'"
  shows "link_inv l'"
proof -
  let ?n = "l_issued l"
  have idle: "l_waiting l = None" using assms(2) by (auto simp: begin_request_def split: if_splits)
  with assms(1) have past: "distinct (map fst (l_results l))" "set (map fst (l_results l)) = {n. n < ?n}"
    "length (l_queue l) \<le> IN_QUEUE"
    by (simp_all add: link_inv_def)
  then have new: "?n \<notin> set (map fst (l_results l))" "insert ?n (set (map fst (l_results l))) = {n. n < Suc ?n}"
    by auto
  show ?thesis
  proof (cases writer)
    case True
    with assms(2) idle have "l' = l\<lparr>l_slot := Some ?n, l_issued := ?n + 1, l_waiting := Some ?n, l_out := l_out l @ [msg]\<rparr>"
      by (simp add: begin_request_def Let_def)
    then show ?thesis using past new by (simp add: link_inv_def)
  next
    case False
    with assms(2) idle have "l' = l\<lparr>l_slot := Some ?n, l_issued := ?n + 1, l_waiting := None,
        l_results := l_results l @ [(?n, Inl ''server connection closed'')]\<rparr>"
      by (simp add: begin_request_def Let_def settle_def)
    then show ?thesis using past new by (simp add: link_inv_def Un_commute)
  qed
qed

lemma link_inv_read:
  assumes inv: "link_inv l" and st: "reader_step addr w l = Some l'"
  shows "link_inv l'"
proof (cases w)
  case (Msg m)
  then show ?thesis
    using st link_inv_take_slot [OF inv] link_inv_disconnect [OF inv] link_inv_frame(2,4) [OF inv] inv
    by (cases m) (auto simp: reader_step_def split: if_splits)
next
  case (Closed reason)
  then show ?thesis using st link_inv_disconnect [OF inv] by (auto simp: reader_step_def split: if_splits)
next
  case Unknown
  then show ?thesis using st inv by (simp add: reader_step_def split: if_splits)
qed

lemma link_inv_step: "link_step l l' \<Longrightarrow> link_inv l \<Longrightarrow> link_inv l'"
proof (induction rule: link_step.induct)
  case (Post l writer msg)
  then show ?case by (simp add: post_def link_inv_frame)
next
  case (Begin writer msg l l')
  then show ?case by (rule link_inv_begin [rotated])
next
  case (Timeout l l')
  then show ?case using link_inv_settle by (auto simp: time_out_def split: option.splits)
next
  case (Read addr w l l')
  then show ?case using link_inv_read by blast
next
  case (Take l i l')
  then show ?case using link_inv_queue [of l] by (auto simp: take_incoming_def link_inv_frame split: list.splits)
qed

lemma link_inv_reachable: "link_reachable l \<Longrightarrow> link_inv l"
proof (induction rule: link_reachable.induct)
  case Start
  then show ?case by (simp add: link_inv_def open_link_def)
next
  case (Step l l')
  then show ?case using link_inv_step by blast
qed

text \<open>C17: In every reachable state of a connection, each request that was issued has got exactly one result
  or is the one that waits; the one that waits owns the slot, so the next answer, the end of the connection
  and the time-out each release it (no caller is parked for ever); and the queue to the processor is bounded.\<close>

theorem requests_are_settled_once:
  assumes "link_reachable l"
  shows "distinct (map fst (l_results l)) \<and> length (l_queue l) \<le> IN_QUEUE \<and>
    (n < l_issued l \<longleftrightarrow> n \<in> fst ` set (l_results l) \<or> l_waiting l = Some n) \<and>
    (l_waiting l = Some n \<longrightarrow> n \<notin> fst ` set (l_results l) \<and>
      (\<exists>l'. time_out l = Some l' \<and> (n, Inl ''server timed out'') \<in> set (l_results l') \<and> l_waiting l' = None) \<and>
      (l_reading l \<longrightarrow> (\<exists>l'. reader_step addr (Closed reason) l = Some l' \<and>
         (n, Inl ''server closed before replying'') \<in> set (l_results l') \<and> l_waiting l' = None)))"
proof (intro conjI [OF _ conjI [OF _ conjI]] impI)
  have inv: "link_inv l" using assms by (rule link_inv_reachable)
  then show "distinct (map fst (l_results l))" and "length (l_queue l) \<le> IN_QUEUE"
    by (simp_all add: link_inv_def)
  have "set (map fst (l_results l)) \<union> set_option (l_waiting l) = {n. n < l_issued l}"
    using inv by (simp add: link_inv_def)
  then show "n < l_issued l \<longleftrightarrow> n \<in> fst ` set (l_results l) \<or> l_waiting l = Some n"
    by (auto simp: set_eq_iff)
  assume w: "l_waiting l = Some n"
  then have "l_slot l = Some n" "n \<notin> fst ` set (l_results l)" using inv by (simp_all add: link_inv_def)
  with w show "n \<notin> fst ` set (l_results l) \<and>
      (\<exists>l'. time_out l = Some l' \<and> (n, Inl ''server timed out'') \<in> set (l_results l') \<and> l_waiting l' = None) \<and>
      (l_reading l \<longrightarrow> (\<exists>l'. reader_step addr (Closed reason) l = Some l' \<and>
         (n, Inl ''server closed before replying'') \<in> set (l_results l') \<and> l_waiting l' = None))"
    by (simp add: time_out_def settle_def reader_step_def disconnect_def take_slot_def Let_def)
qed

text \<open>One request in flight.\<close>

definition one_request :: link where
  "one_request = the (begin_request True Ping open_link)"

lemma one_request_reachable: "link_reachable one_request" "l_waiting one_request = Some 0" "l_reading one_request"
proof -
  have b: "begin_request True Ping open_link = Some one_request"
    by (simp add: one_request_def begin_request_def open_link_def)
  show "link_reachable one_request"
    using link_reachable.Step [OF link_reachable.Start link_step.Begin [OF b]] .
  show "l_waiting one_request = Some 0" "l_reading one_request"
    by (simp_all add: one_request_def begin_request_def open_link_def Let_def)
qed

theorem requests_are_settled_once_witness:
  "distinct (map fst (l_results one_request)) \<and> 0 \<notin> fst ` set (l_results one_request) \<and>
   (\<exists>l'. time_out one_request = Some l' \<and> (0, Inl ''server timed out'') \<in> set (l_results l')) \<and>
   length (l_queue one_request) \<le> IN_QUEUE"
  using requests_are_settled_once [OF one_request_reachable(1)] one_request_reachable(2) by blast

section \<open>Answers and requests\<close>

text \<open>Answers are matched to requests by arrival alone. A client that relays a message and then makes a
  request is given, as the answer of the request, the relay's answer to the message (it answers every
  \<open>Send\<close>); the request's own answer then finds no one waiting and is dropped.\<close>

theorem answer_goes_to_the_wrong_request:
  assumes "l_waiting l = None" and "l_reading l" and "n = l_issued l"
    and "begin_request True req (post True (SendMsg dest ty pl g ts) l) = Some l1"
    and "reader_step addr (Msg (OkMsg None)) l1 = Some l2" and "reader_step addr (Msg (PrekeyBundle u i e cv k o1)) l2 = Some l3"
  shows "l_out l1 = l_out l @ [SendMsg dest ty pl g ts, req] \<and>
    l_results l3 = l_results l @ [(n, Inr (OkMsg None))] \<and> l_waiting l3 = None"
  using assms by (auto simp: link_defs)

theorem answer_goes_to_the_wrong_request_witness:
  "\<exists>l1 l2 l3. begin_request True (FetchPrekeys ''bob'') (post True (SendMsg [''cy''] ''olm'' ''1.x'' None 0) open_link) = Some l1 \<and>
     reader_step ''srv'' (Msg (OkMsg None)) l1 = Some l2 \<and>
     reader_step ''srv'' (Msg (PrekeyBundle ''bob'' ''u'' ''e'' ''c'' None None)) l2 = Some l3 \<and>
     l_results l3 = [(0, Inr (OkMsg None))]"
proof -
  define l1 where "l1 = the (begin_request True (FetchPrekeys ''bob'') (post True (SendMsg [''cy''] ''olm'' ''1.x'' None 0) open_link))"
  define l2 where "l2 = the (reader_step ''srv'' (Msg (OkMsg None)) l1)"
  define l3 where "l3 = the (reader_step ''srv'' (Msg (PrekeyBundle ''bob'' ''u'' ''e'' ''c'' None None)) l2)"
  have o: "l_waiting open_link = None" "l_reading open_link" by (simp_all add: open_link_def)
  have s1: "begin_request True (FetchPrekeys ''bob'') (post True (SendMsg [''cy''] ''olm'' ''1.x'' None 0) open_link) = Some l1"
    by (simp add: l1_def link_defs open_link_def)
  have s2: "reader_step ''srv'' (Msg (OkMsg None)) l1 = Some l2"
    by (simp add: l2_def l1_def link_defs open_link_def)
  have s3: "reader_step ''srv'' (Msg (PrekeyBundle ''bob'' ''u'' ''e'' ''c'' None None)) l2 = Some l3"
    by (simp add: l3_def l2_def l1_def link_defs open_link_def)
  have "l_results l3 = l_results open_link @ [(l_issued open_link, Inr (OkMsg None))]"
    using answer_goes_to_the_wrong_request [OF o refl s1 s2 s3] by blast
  with s1 s2 s3 show ?thesis by (auto simp: open_link_def)
qed

end
