(* ===== verification/Net_Rules.thy ===== *)
theory Net_Rules
  imports Net
begin

text \<open>
  What holds of the whole network layer because it holds of the vault operations it is made of: two
  locales list the operations as laws on a relation between vaults, and conclude the relation for the
  sending functions, for the processing of one frame and for the processor's loop.
\<close>

lemma acts_identity_check [act_intros]:
  "acts P R f \<Longrightarrow> acts P R g \<Longrightarrow> acts P R h \<Longrightarrow>
     acts P R (case r of FirstContact \<Rightarrow> f | Match \<Rightarrow> g | Conflict \<Rightarrow> h)"
  by (cases r) simp_all

lemma acts_server_msg [act_intros]:
  assumes "\<And>a. acts P R (f1 a)" "\<And>a b. acts P R (f2 a b)" "\<And>a b c d e f. acts P R (f3 a b c d e f)"
    "\<And>a. acts P R (f4 a)" "\<And>a b c d e. acts P R (f5 a b c d e)" "\<And>a b c d e f g. acts P R (f6 a b c d e f g)"
    "\<And>a. acts P R (f7 a)" "\<And>a b. acts P R (f8 a b)" "acts P R f9" "\<And>a b c. acts P R (f10 a b c)"
  shows "acts P R (case m of Challenge a \<Rightarrow> f1 a | AuthOk a b \<Rightarrow> f2 a b
      | PrekeyBundle a b c d e f \<Rightarrow> f3 a b c d e f | AttestResponse a \<Rightarrow> f4 a | ServerInfo a b c d e \<Rightarrow> f5 a b c d e
      | Deliver a b c d e f g \<Rightarrow> f6 a b c d e f g | OkMsg a \<Rightarrow> f7 a | ErrorMsg a b \<Rightarrow> f8 a b | Pong \<Rightarrow> f9
      | Maintenance a b c \<Rightarrow> f10 a b c)"
  using assms by (cases m) simp_all

lemma acts_join_decision [act_intros]:
  "(d = Admit \<Longrightarrow> acts P R f) \<Longrightarrow> (d = Queue \<Longrightarrow> acts P R g) \<Longrightarrow> (\<And>r. d = Deny r \<Longrightarrow> acts P R (h r)) \<Longrightarrow>
     acts P R (case d of Admit \<Rightarrow> f | Queue \<Rightarrow> g | Deny r \<Rightarrow> h r)"
  by (cases d) simp_all

section \<open>The sending side and the decryption of Olm messages\<close>

text \<open>What sending and decrypting over pairwise sessions changes: sessions, the account, contacts.\<close>

locale olm_ops =
  fixes P :: "vault \<Rightarrow> bool" and R :: "vault \<Rightarrow> vault \<Rightarrow> bool"
  assumes coh: "coherent P R"
    and keep_account: "P v \<Longrightarrow> save_account v K d = Inr v' \<Longrightarrow> R v v'"
    and keep_olm: "P v \<Longrightarrow> save_olm v K peer s = Inr v' \<Longrightarrow> R v v'"
    and keep_contact: "P v \<Longrightarrow> upsert_contact v u uuid ed curve = Inr v' \<Longrightarrow> R v v'"
begin

lemmas vrules = act_intros coherent_on_vault coh vacts_vput vacts_vcall

lemma accept_identity: "vacts P R (accept_identity K u uuid ed curve)"
  unfolding accept_identity_def by (intro vrules) (erule (1) keep_contact)+

lemma get_device: "vacts P R (get_device K msg)"
  unfolding get_device_def by (intro vrules)

lemma sender_curve: "vacts P R (sender_curve W X frm)"
  unfolding sender_curve_def by (intro vrules accept_identity)

lemma accept_prekey: "vacts P R (accept_prekey W X frm t body)"
  unfolding accept_prekey_def
  by (intro vrules sender_curve get_device) (erule (1) keep_account, erule (1) keep_olm)

lemma obtain_olm_plaintext: "vacts P R (obtain_olm_plaintext W X frm payload)"
  unfolding obtain_olm_plaintext_def
  by (intro vrules accept_prekey) (erule (1) keep_olm)+

lemma ensure_olm: "vacts P R (ensure_olm W K peer)"
  unfolding ensure_olm_def by (intro vrules get_device accept_identity)

lemma send_olm: "vacts P R (send_olm W K peer s p ty gid ts)"
  unfolding send_olm_def by (intro vrules) (erule (1) keep_olm)+

lemma send_olm_control: "vacts P R (send_olm_control W K peer ty gid p)"
  unfolding send_olm_control_def by (intro vrules ensure_olm) (erule (1) keep_olm)+

lemma distribute_group_key: "vacts P R (distribute_group_key W K me gid name rs grp)"
  unfolding distribute_group_key_def by (intro vrules get_device ensure_olm send_olm)

lemma chat_title: "vacts P R (chat_title gid)"
  unfolding chat_title_def by (intro vrules)

lemma deny_join: "vacts P R (deny_join W X who gid reason)"
  unfolding deny_join_def by (rule send_olm_control)

lemma handle_join_denied: "vacts P R (handle_join_denied W frm p)"
  unfolding handle_join_denied_def by (intro vrules)

lemma megolm_open: "vacts P R (megolm_open W X frm gid payload)"
  unfolding megolm_open_def by (intro vrules)

end

text \<open>With our own group sessions as well.\<close>

locale crypto_ops = olm_ops P R for P :: "vault \<Rightarrow> bool" and R :: "vault \<Rightarrow> vault \<Rightarrow> bool" +
  assumes keep_group_out: "P v \<Longrightarrow> save_group_out v K gid s = Inr v' \<Longrightarrow> R v v'"
begin

lemma outbound_group: "vacts P R (outbound_group W K gid)"
  unfolding outbound_group_def by (intro vrules) (erule (1) keep_group_out)+

lemma broadcast_group_event: "vacts P R (broadcast_group_event W K me gid name ev)"
  unfolding broadcast_group_event_def
  by (intro vrules outbound_group distribute_group_key) (erule (1) keep_group_out)+

end

section \<open>Frames\<close>

definition group_row :: "vault \<Rightarrow> string \<Rightarrow> group_meta option" where
  "group_row v gid = find (\<lambda>g. group_id g = gid) (groups v)"

lemma group_meta_id: "get_group_meta v gid = Inr (Some m) \<Longrightarrow> group_id m = gid"
  by (auto simp: get_group_meta_def find_Some_iff2)

text \<open>
  The laws for one frame: its sender \<open>frm\<close>, our own name \<open>me\<close>, and the groups and chats that are
  \<open>free\<close> to change. What a sender may do anywhere (its own session, its replay marks, a message line,
  looking at its own suspension, leaving) must keep \<open>R\<close>; the other operations only where \<open>free\<close>;
  and a group that is not free has a recorded owner other than the sender and us.
\<close>

locale frame_ops = crypto_ops P R for P :: "vault \<Rightarrow> bool" and R :: "vault \<Rightarrow> vault \<Rightarrow> bool" +
  fixes free :: "string \<Rightarrow> bool" and frm :: string and me :: string
  assumes keep_group_in: "P v \<Longrightarrow> save_group_in v K gid frm r = Inr v' \<Longrightarrow> R v v'"
    and keep_seen: "P v \<Longrightarrow> megolm_accept v gid frm sid i = Inr (b, v') \<Longrightarrow> R v v'"
    and keep_message: "P v \<Longrightarrow> insert_message now v cid s body ts out = Inr v' \<Longrightarrow> R v v'"
    and see_suspension: "P v \<Longrightarrow> is_suspended v gid frm now = Inr (b, v') \<Longrightarrow> R v v'"
    and leave: "P v \<Longrightarrow> remove_member v gid frm = Inr v' \<Longrightarrow> R v v'"
    and keep_chat: "P v \<Longrightarrow> upsert_chat now v gid kind title = Inr v' \<Longrightarrow> free gid \<Longrightarrow> R v v'"
    and keep_member: "P v \<Longrightarrow> add_member v gid u = Inr v' \<Longrightarrow> free gid \<Longrightarrow> R v v'"
    and drop_member: "P v \<Longrightarrow> remove_member v gid u = Inr v' \<Longrightarrow> free gid \<Longrightarrow> R v v'"
    and drop_group_in: "P v \<Longrightarrow> delete_group_in v gid u = Inr v' \<Longrightarrow> free gid \<Longrightarrow> R v v'"
    and drop_chat: "P v \<Longrightarrow> delete_chat v gid = Inr v' \<Longrightarrow> free gid \<Longrightarrow> R v v'"
    and keep_meta: "P v \<Longrightarrow> upsert_group_meta v gid key mode own = Inr v' \<Longrightarrow> free gid \<Longrightarrow> R v v'"
    and keep_mode: "P v \<Longrightarrow> set_access_mode v gid mode = Inr v' \<Longrightarrow> free gid \<Longrightarrow> R v v'"
    and keep_ban: "P v \<Longrightarrow> ban_user v gid u ts = Inr v' \<Longrightarrow> free gid \<Longrightarrow> R v v'"
    and drop_ban: "P v \<Longrightarrow> unban_user v gid u = Inr v' \<Longrightarrow> free gid \<Longrightarrow> R v v'"
    and keep_suspension: "P v \<Longrightarrow> suspend_user v gid u t = Inr v' \<Longrightarrow> free gid \<Longrightarrow> R v v'"
    and drop_suspension: "P v \<Longrightarrow> clear_suspension v gid u = Inr v' \<Longrightarrow> free gid \<Longrightarrow> R v v'"
    and keep_request: "P v \<Longrightarrow> add_join_request v gid u ts = Inr v' \<Longrightarrow> free gid \<Longrightarrow> R v v'"
    and drop_request: "P v \<Longrightarrow> remove_join_request v gid u = Inr v' \<Longrightarrow> free gid \<Longrightarrow> R v v'"
    and guarded: "P v \<Longrightarrow> \<not> free gid \<Longrightarrow>
      \<exists>m. group_row v gid = Some m \<and> \<not> owned_by (Some m) frm \<and> \<not> owned_by (Some m) me"
begin

lemmas keeps = keep_group_in keep_seen keep_message see_suspension leave

lemmas free_keeps = keep_chat keep_member drop_member drop_group_in drop_chat keep_meta keep_mode keep_ban
  drop_ban keep_suspension drop_suspension keep_request drop_request

lemma store_message: "vacts P R (store_message W cid s body ts out)"
  unfolding store_message_def by (intro vrules) (erule (1) keeps)

lemma emit_system: "vacts P R (emit_system W chat txt ts)"
  unfolding emit_system_def by (intro vrules store_message)

lemma deliver_system: "vacts P R (deliver_system W chat leaver ts)"
  unfolding deliver_system_def by (rule emit_system)

lemma system_line: "vacts P R (system_line W gid line ts)"
  unfolding system_line_def by (intro vrules emit_system)

lemma store_chat: "free cid \<Longrightarrow> vacts P R (store_chat W cid kind title)"
  unfolding store_chat_def by (intro vrules) (erule (2) free_keeps)

lemma deliver_dm_text: "free s \<Longrightarrow> vacts P R (deliver_dm_text W X s p ts)"
  unfolding deliver_dm_text_def by (intro vrules store_chat store_message) (assumption | erule (2) free_keeps)+

lemma store_share:
  "by_owner \<longrightarrow> free (gs_group_id share) \<Longrightarrow> vacts P R (store_share W X frm share by_owner is_new)"
  unfolding store_share_def
  by (intro vrules store_chat) (erule (1) keeps | simp | erule (1) free_keeps, simp)+

lemma row_guard:
  assumes "P v" and "get_group_meta v gid = Inr m" and "owned_by m frm \<or> owned_by m me"
  shows "free gid"
proof (rule ccontr)
  assume "\<not> free gid"
  then obtain g where "group_row v gid = Some g" "\<not> owned_by (Some g) frm" "\<not> owned_by (Some g) me"
    using guarded assms(1) by blast
  moreover have "m = group_row v gid" using assms(2) by (simp add: get_group_meta_def group_row_def)
  ultimately show False using assms(3) by simp
qed

lemma share_guard:
  assumes "P v" and "get_group_meta v gid = Inr existing"
  shows "owner_share is_new existing claimed frm \<longrightarrow> free gid"
proof (cases "free gid")
  case False
  then obtain m where "group_row v gid = Some m" "\<not> owned_by (Some m) frm"
    using guarded assms(1) by blast
  moreover have "existing = group_row v gid" using assms(2) by (simp add: get_group_meta_def group_row_def)
  ultimately show ?thesis by (auto simp: owner_share_def owned_by_def split: bool.splits)
qed simp

lemma handle_group_key_share: "vacts P R (handle_group_key_share W X frm p)"
proof -
  have body: "vacts P R (bnd (vget (\<lambda>v. get_group_meta v (gs_group_id share))) (\<lambda>existing.
     bnd (if existed then vget (\<lambda>v. is_member v (gs_group_id share) frm) else ret False) (\<lambda>member.
     let by_owner = owner_share (\<not> existed) existing (gs_owner share) frm in
     if \<not> existed \<and> \<not> by_owner then ret ()
     else if existed \<and> \<not> by_owner \<and> \<not> member then ret ()
     else store_share W X frm share by_owner (\<not> existed))))" for share existed
    by (rule vacts_read [OF coh, where Q = "\<lambda>existing.
          owner_share (\<not> existed) existing (gs_owner share) frm \<longrightarrow> free (gs_group_id share)"])
      (erule (1) share_guard, intro vrules store_share, simp)
  show ?thesis
    unfolding handle_group_key_share_def by (intro vrules body) (erule (1) keeps)+
qed

lemma megolm_fresh: "vacts P R (megolm_fresh W X frm gid idx r)"
  unfolding megolm_fresh_def by (intro vrules) (erule (1) keeps)+

lemma process_megolm: "vacts P R (process_megolm W X frm gid payload ts)"
  unfolding process_megolm_def by (intro vrules megolm_open megolm_fresh store_message)

lemma process_megolm_system: "vacts P R (process_megolm_system W X frm gid payload ts)"
  unfolding process_megolm_system_def
  by (intro vrules megolm_open megolm_fresh deliver_system) (erule (1) keeps)+

lemma apply_group_event: "free gid \<Longrightarrow> vacts P R (apply_group_event X gid ev ts)"
  unfolding apply_group_event_def by (intro vrules) (erule (2) free_keeps)+

lemma process_group_event: "vacts P R (process_group_event W X frm gid payload ts)"
proof -
  have guard: "vacts P R (bnd (vget (\<lambda>v. get_group_meta v gid)) (\<lambda>m.
           if \<not> owned_by m frm then ret () else rest))" if "free gid \<Longrightarrow> vacts P R rest"
    for rest :: "(client, unit) act"
  proof (rule vacts_read [OF coh, where Q = "\<lambda>m. owned_by m frm \<longrightarrow> free gid"])
    show "owned_by m frm \<longrightarrow> free gid" if "P v" "get_group_meta v gid = Inr m" for v m
      using row_guard [OF that] by blast
    show "vacts P R (if \<not> owned_by m frm then ret () else rest)" if "owned_by m frm \<longrightarrow> free gid" for m
      using that \<open>free gid \<Longrightarrow> vacts P R rest\<close> by (intro vrules) auto
  qed
  show ?thesis
    unfolding process_group_event_def
    by (intro act_intros coherent_on_vault coh megolm_open megolm_fresh guard apply_group_event system_line
        vacts_emit_chats)
qed

lemma admit_member: "free gid \<Longrightarrow> vacts P R (admit_member W X gid who now)"
  unfolding admit_member_def
  by (intro vrules chat_title outbound_group distribute_group_key broadcast_group_event system_line)
    (erule (2) free_keeps)+

lemma handle_join_request: "p_me X = me \<Longrightarrow> vacts P R (handle_join_request W X frm p now)"
proof -
  assume me: "p_me X = me"
  have row: "(case found of None \<Rightarrow> True | Some m \<Rightarrow> group_id m = gid \<and> (owned_by (Some m) (p_me X) \<longrightarrow> free gid))"
    if "P v" "get_group_meta v gid = Inr found" for v gid found
    using row_guard [OF that] group_meta_id [of v gid] that(2) me by (auto split: option.split)
  show ?thesis
    unfolding handle_join_request_def
    apply (rule acts_bnd [OF coherent_on_vault [OF coh] acts_lift [OF coherent_on_vault [OF coh]]])
    apply (rule vacts_read [OF coh], erule (1) row)
    apply (intro vrules admit_member system_line deny_join)
    apply (auto intro: see_suspension keep_request)
    done
qed

lemma process_one:
  assumes "inc_from inc = frm" and "p_me X = me" and "free frm"
  shows "vacts P R (process_one W X inc)"
  unfolding process_one_def need_group_def Let_def assms(1)
  by (intro vrules obtain_olm_plaintext deliver_dm_text handle_group_key_share process_megolm deliver_system
      process_megolm_system handle_join_request handle_join_denied process_group_event assms)

end

lemma vacts_process_reporting:
  assumes "vacts P R (process_one W X inc)"
  shows "vacts P R (process_reporting W X inc)"
proof (unfold acts_def, intro allI impI)
  fix c
  assume "in_vault P c"
  with assms have "on_vault R c (snd (process_one W X inc c))" by (rule actsD)
  then show "on_vault R c (snd (process_reporting W X inc c))"
    by (auto simp: process_reporting_def on_vault_def split: prod.split sum.split)
qed

lemma vacts_processor_loop:
  "coherent P R \<Longrightarrow> (\<And>inc. vacts P R (process_one W X inc)) \<Longrightarrow> vacts P R (processor_loop W X incs)"
  unfolding processor_loop_def by (intro act_intros coherent_on_vault vacts_process_reporting)

end
