(* ===== verification/Net_Facts.thy ===== *)
theory Net_Facts
  imports Net_Rules
begin

text \<open>
  What the network layer guarantees: the invariants of the vault survive any frames, only a group's
  owner moderates it, replays have no effect, join requests are admitted by the rules, and where the
  rules can be got around.
\<close>

lemmas session_op_defs = save_account_def meta_set_def save_olm_def save_group_out_def save_group_in_def
  delete_group_in_def res_bind_Inr_iff

lemmas table_op_defs = megolm_accept_def upsert_chat_def insert_message_def add_member_def remove_member_def
  ban_user_def unban_user_def suspend_user_def clear_suspension_def add_join_request_def
  remove_join_request_def is_suspended_def suspended_until_def Let_def

section \<open>Invariants of the vault\<close>

definition pins_kept :: "vault \<Rightarrow> vault \<Rightarrow> bool" where
  "pins_kept v v' = (\<forall>u k. pinned_key v u = Some k \<longrightarrow> k \<noteq> [] \<longrightarrow> pinned_key v' u = Some k)"

lemma pins_kept_same: "contacts v' = contacts v \<Longrightarrow> pins_kept v v'"
  by (simp add: pins_kept_def pinned_key_def)

lemma preorder_pins: "preorder_rel pins_kept"
  by (rule preorder_relI) (auto simp: pins_kept_def)

interpretation pins: frame_ops "\<lambda>_. True" pins_kept "\<lambda>_. True" frm me for frm me
proof
  show "coherent (\<lambda>_. True) pins_kept" by (simp add: preorder_pins)
  show "upsert_contact v u uuid ed curve = Inr v' \<Longrightarrow> pins_kept v v'" for v u uuid ed curve v'
    by (auto simp: pins_kept_def intro: upsert_contact_pin)
qed (auto simp: session_op_defs table_op_defs delete_chat_def upsert_group_meta_def set_access_mode_def
    intro!: pins_kept_same split: option.splits if_splits)

definition message_ids :: "vault \<Rightarrow> bool" where
  "message_ids v = (sorted_wrt (\<lambda>a b. m_id a < m_id b) (messages v) \<and>
     (\<forall>m \<in> set (messages v). m_id m < next_message_id v))"

definition vault_ok :: "vault \<Rightarrow> bool" where
  "vault_ok v = (groups_ok v \<and> message_ids v)"

definition ok_kept :: "vault \<Rightarrow> vault \<Rightarrow> bool" where
  "ok_kept v v' = (vault_ok v \<longrightarrow> vault_ok v')"

lemma ok_kept_same:
  "groups v' = groups v \<Longrightarrow> messages v' = messages v \<Longrightarrow> next_message_id v' = next_message_id v \<Longrightarrow> ok_kept v v'"
  by (simp add: ok_kept_def vault_ok_def groups_ok_def message_ids_def)

lemma preorder_ok: "preorder_rel ok_kept"
  by (rule preorder_relI) (auto simp: ok_kept_def)

lemma ok_kept_groups:
  "(groups_ok v \<Longrightarrow> groups_ok v') \<Longrightarrow> messages v' = messages v \<Longrightarrow> next_message_id v' = next_message_id v \<Longrightarrow>
     ok_kept v v'"
  by (simp add: ok_kept_def vault_ok_def message_ids_def)

lemma ok_insert_message: "insert_message now v cid s body ts out = Inr v' \<Longrightarrow> ok_kept v v'"
  by (auto simp: ok_kept_def vault_ok_def groups_ok_def message_ids_def insert_message_def sorted_wrt_append)

lemma ok_delete_chat: "delete_chat v cid = Inr v' \<Longrightarrow> ok_kept v v'"
  using groups_ok_delete_chat [of v cid v']
  by (auto simp: ok_kept_def vault_ok_def message_ids_def delete_chat_def sorted_wrt_filter)

lemma ok_upsert_group_meta: "upsert_group_meta v gid key mode own = Inr v' \<Longrightarrow> ok_kept v v'"
  by (rule ok_kept_groups) (erule (1) groups_ok_upsert, auto simp: upsert_group_meta_def split: if_splits)

lemma ok_set_access_mode: "set_access_mode v gid mode = Inr v' \<Longrightarrow> ok_kept v v'"
  by (rule ok_kept_groups) (erule (1) groups_ok_set_access, auto simp: set_access_mode_def)

interpretation wellformed: frame_ops "\<lambda>_. True" ok_kept "\<lambda>_. True" frm me for frm me
proof
  show "coherent (\<lambda>_. True) ok_kept" by (simp add: preorder_ok)
  show "insert_message now v cid s body ts out = Inr v' \<Longrightarrow> ok_kept v v'" for now v cid s body ts out v'
    by (rule ok_insert_message)
  show "delete_chat v gid = Inr v' \<Longrightarrow> ok_kept v v'" for v gid v' by (rule ok_delete_chat)
  show "upsert_group_meta v gid key mode own = Inr v' \<Longrightarrow> ok_kept v v'" for v gid key mode own v'
    by (rule ok_upsert_group_meta)
  show "set_access_mode v gid mode = Inr v' \<Longrightarrow> ok_kept v v'" for v gid mode v' by (rule ok_set_access_mode)
qed (auto simp: session_op_defs table_op_defs upsert_contact_def intro!: ok_kept_same split: option.splits if_splits)

text \<open>Whatever frames the relay delivers and whatever it answers to the client's questions, the
  processor keeps the vault's invariants: no pinned identity key changes, group ids and group keys stay
  unique and message ids increasing.\<close>

theorem frames_keep_vault_invariants:
  assumes "run = processor_loop W X incs c" and "vault_ok (c_vault c)"
  shows "vault_ok (c_vault (snd run))"
    and "pinned_key (c_vault c) u = Some k \<Longrightarrow> k \<noteq> [] \<Longrightarrow> pinned_key (c_vault (snd run)) u = Some k"
proof -
  have "vacts (\<lambda>_. True) ok_kept (processor_loop W X incs)"
    by (rule vacts_processor_loop) (simp_all add: preorder_ok wellformed.process_one)
  then show "vault_ok (c_vault (snd run))"
    using assms actsD [of _ _ "processor_loop W X incs" c]
    by (fastforce simp: in_vault_def on_vault_def ok_kept_def)
  have "vacts (\<lambda>_. True) pins_kept (processor_loop W X incs)"
    by (rule vacts_processor_loop) (simp_all add: preorder_pins pins.process_one)
  then show "pinned_key (c_vault c) u = Some k \<Longrightarrow> k \<noteq> [] \<Longrightarrow> pinned_key (c_vault (snd run)) u = Some k"
    using assms actsD [of _ _ "processor_loop W X incs" c]
    by (fastforce simp: in_vault_def on_vault_def pins_kept_def)
qed

section \<open>A concrete client\<close>

definition demo_vz :: vodozemac where
  "demo_vz = \<lparr>vz_ed25519 = (\<lambda>d. d), vz_curve25519 = (\<lambda>d. d), vz_sign = (\<lambda>d m. m), vz_generate_otks = (\<lambda>d n. d),
     vz_one_time_keys = (\<lambda>d. []), vz_mark_published = (\<lambda>d. d), vz_curve_key = Inr,
     vz_outbound = (\<lambda>d i k. Inr (i @ k)), vz_olm_message = (\<lambda>t b. Inr (if t = 0 then PreKey b else Normal b)),
     vz_inbound = (\<lambda>d i b. Inr (i, b, d)), vz_encrypt = (\<lambda>s p. Inr ((1, p), s)),
     vz_decrypt = (\<lambda>s m. case m of PreKey b \<Rightarrow> Inl ''other session'' | Normal b \<Rightarrow> Inr (b, s)),
     vz_group_key = (\<lambda>g. g), vz_group_encrypt = (\<lambda>g p. (p, g)), vz_session_key = Inr,
     vz_inbound_group = (\<lambda>k. k), vz_group_session_id = (\<lambda>r. r), vz_megolm_message = Inr,
     vz_group_decrypt = (\<lambda>r b. if b = [] then Inl ''empty'' else Inr ((tl b, byte (hd b)), r))\<rparr>"

definition demo_codec :: codec where
  "demo_codec = \<lparr>share_of = (\<lambda>b. Inl ''no share''),
     event_of = (\<lambda>b. Inr \<lparr>ge_kind = b, ge_who = ''cy'', ge_mode = None, ge_until = None\<rparr>),
     join_of = (\<lambda>b. Inr \<lparr>jr_group_id = ''g'', jr_group_key = b\<rparr>), denied_of = (\<lambda>b. Inl ''no denial''),
     share_bytes = gs_group_id, event_bytes = ge_kind, join_bytes = jr_group_key, denied_bytes = jd_reason\<rparr>"

definition demo_world :: world where
  "demo_world = \<lparr>w_vz = demo_vz, w_codec = demo_codec, w_blake3 = (\<lambda>b. b), w_now = (\<lambda>n. 1000 + int n),
     w_writer_open = (\<lambda>_. True), w_reply = (\<lambda>_. Inl ''server closed before replying''), w_device = (\<lambda>_. ''D''),
     w_group_sender = (\<lambda>_. ''G''), w_rng = (\<lambda>_ _ i. i), w_uuid = (\<lambda>_. ''U'')\<rparr>"

definition demo_seal :: sealer where
  "demo_seal = \<lparr>to_pickle_encrypted = Inr, from_pickle_encrypted = Inr, b64_enc = (\<lambda>b. b), b64_dec = Inr\<rparr>"

definition demo_ctx :: proc_ctx where
  "demo_ctx = \<lparr>p_seal = demo_seal, p_me = ''al'', p_addr = ''srv:9000''\<rparr>"

text \<open>We are \<open>al\<close> and own group \<open>g\<close>, bob a member; \<open>cy\<close> is suspended until 5000.\<close>

definition demo_client :: client where
  "demo_client = \<lparr>c_vault = demo_chats\<lparr>meta := [(''account_pickle'', ''D'')],
       group_in := [((''g'', ''bob''), ''S'')], group_suspensions := [((''g'', ''cy''), 5000)],
       olm_sessions := [(''bob'', ''S''), (''cy'', ''S'')]\<rparr>,
     c_events = [], c_sent = [], c_tick = 0\<rparr>"

lemmas demo_defs = demo_vz_def demo_codec_def demo_world_def demo_seal_def demo_ctx_def demo_client_def
  demo_chats_def demo_vault_def empty_vault_def

lemma demo_ok: "vault_ok (c_vault demo_client)" "v_up (c_vault demo_client)"
    "pinned_key (c_vault demo_client) ''bob'' = Some ''K1''"
  by (simp_all add: demo_defs vault_ok_def groups_ok_def message_ids_def pinned_key_def)

definition demo_frame :: "string \<Rightarrow> string \<Rightarrow> incoming" where
  "demo_frame ty payload = \<lparr>inc_from = ''bob'', inc_msg_type = ty, inc_payload = payload,
     inc_group_id = Some ''g'', inc_client_ts = 7\<rparr>"

lemmas run_defs = demo_defs demo_frame_def process_one_def need_group_def process_megolm_def megolm_open_def
  megolm_fresh_def store_message_def act_defs client_act_defs load_group_in_def open_row_def group_decrypt_def
  map_err_def megolm_accept_def save_group_in_def from_utf8_def insert_message_def Let_def

theorem frames_keep_vault_invariants_witness:
  "vault_ok (c_vault (snd (processor_loop demo_world demo_ctx [demo_frame ''megolm'' ''Ahi''] demo_client))) \<and>
   pinned_key (c_vault (snd (processor_loop demo_world demo_ctx [demo_frame ''megolm'' ''Ahi''] demo_client))) ''bob'' =
     Some ''K1''"
  using frames_keep_vault_invariants(1) [OF refl demo_ok(1)]
    frames_keep_vault_invariants(2) [OF refl demo_ok(1) demo_ok(3)] by simp

section \<open>Replays\<close>

lemma megolm_fresh_seen:
  assumes "v_up (c_vault c)" and "seen_index (c_vault c) (gid, frm, vz_group_session_id (w_vz W) r) = Some m"
    and "int idx \<le> m"
  shows "megolm_fresh W X frm gid idx r c = (Inr False, c)"
  using assms
  by (simp add: megolm_fresh_def bnd_def vcall_def megolm_accept_def seen_index_def ret_def)

text \<open>C24: A Megolm frame of any of the three kinds whose index was already applied for the sender's
  session (a replay, or an older frame overtaken by a newer one) changes nothing: no message, no roster
  change, no event, no stored session.\<close>

theorem replayed_frames_have_no_effect:
  assumes "inc_msg_type inc \<in> {''megolm'', ''megolm_system'', ''group_event''}"
    and "inc_group_id inc = Some gid"
    and "load_group_in (c_vault c) (p_seal X) gid (inc_from inc) = Inr (Some r)"
    and "b64_dec (p_seal X) (inc_payload inc) = Inr body"
    and "group_decrypt (w_vz W) r body = Inr ((plaintext, idx), r')"
    and "v_up (c_vault c)" and "int idx \<le> m"
    and "seen_index (c_vault c) (gid, inc_from inc, vz_group_session_id (w_vz W) r') = Some m"
  shows "process_one W X inc c = (Inr (), c)"
proof -
  have "megolm_open W X (inc_from inc) gid (inc_payload inc) c = (Inr (Some ((plaintext, idx), r')), c)"
    using assms(3-5) by (simp add: megolm_open_def bnd_def vget_def lift_def ret_def)
  moreover have "megolm_fresh W X (inc_from inc) gid idx r' c = (Inr False, c)"
    using assms(6-8) by (intro megolm_fresh_seen)
  ultimately show ?thesis
    using assms(1,2)
    by (auto simp: process_one_def need_group_def process_megolm_def process_megolm_system_def
        process_group_event_def bnd_def ret_def Let_def)
qed

theorem replayed_frames_have_no_effect_witness:
  "\<exists>c. process_one demo_world demo_ctx (demo_frame ''megolm'' ''Ahi'') demo_client = (Inr (), c) \<and>
     messages (c_vault c) \<noteq> [] \<and> process_one demo_world demo_ctx (demo_frame ''megolm'' ''Ahi'') c = (Inr (), c)"
proof -
  let ?c = "snd (process_one demo_world demo_ctx (demo_frame ''megolm'' ''Ahi'') demo_client)"
  have run: "process_one demo_world demo_ctx (demo_frame ''megolm'' ''Ahi'') demo_client = (Inr (), ?c)"
      "messages (c_vault ?c) \<noteq> []" "v_up (c_vault ?c)"
      "load_group_in (c_vault ?c) demo_seal ''g'' ''bob'' = Inr (Some ''S'')"
      "seen_index (c_vault ?c) (''g'', ''bob'', ''S'') = Some 65"
    by (simp_all add: run_defs seen_index_def)
  have "process_one demo_world demo_ctx (demo_frame ''megolm'' ''Ahi'') ?c = (Inr (), ?c)"
    by (rule replayed_frames_have_no_effect [where gid = "''g''" and r = "''S''" and body = "''Ahi''"
          and plaintext = "''hi''" and idx = 65 and r' = "''S''" and m = 65])
      (use run(3-5) in \<open>simp_all add: demo_frame_def demo_ctx_def demo_seal_def demo_world_def demo_vz_def
        group_decrypt_def map_err_def\<close>)
  with run(1,2) show ?thesis by blast
qed

section \<open>Moderation\<close>

definition roster :: "vault \<Rightarrow> string \<Rightarrow> string set" where
  "roster v gid = {u. (gid, u) \<in> set (chat_members v)}"

text \<open>What someone who is neither the group's owner nor us can bring about in the group \<open>gid\<close>.\<close>

definition outside :: "string \<Rightarrow> string \<Rightarrow> vault \<Rightarrow> vault \<Rightarrow> bool" where
  "outside gid frm v v' =
     (filter (\<lambda>g. group_id g = gid) (groups v') = filter (\<lambda>g. group_id g = gid) (groups v) \<and>
      roster v' gid \<subseteq> roster v gid \<and> roster v gid - {frm} \<subseteq> roster v' gid \<and>
      (\<forall>u. map_of (group_bans v') (gid, u) = map_of (group_bans v) (gid, u)) \<and>
      (\<forall>u. map_of (group_join_requests v') (gid, u) = map_of (group_join_requests v) (gid, u)) \<and>
      (\<forall>u. u \<noteq> frm \<longrightarrow> map_of (group_suspensions v') (gid, u) = map_of (group_suspensions v) (gid, u)) \<and>
      (\<forall>u. u \<noteq> frm \<longrightarrow> map_of (group_in v') (gid, u) = map_of (group_in v) (gid, u)))"

definition owned_by_other :: "string \<Rightarrow> string \<Rightarrow> string \<Rightarrow> vault \<Rightarrow> bool" where
  "owned_by_other gid frm me v =
     (\<exists>m. group_row v gid = Some m \<and> \<not> owned_by (Some m) frm \<and> \<not> owned_by (Some m) me)"

lemma outside_same:
  "groups v' = groups v \<Longrightarrow> chat_members v' = chat_members v \<Longrightarrow> group_bans v' = group_bans v \<Longrightarrow>
     group_join_requests v' = group_join_requests v \<Longrightarrow> group_suspensions v' = group_suspensions v \<Longrightarrow>
     group_in v' = group_in v \<Longrightarrow> outside gid frm v v'"
  by (simp add: outside_def roster_def)

lemma group_row_filter: "group_row v gid = (case filter (\<lambda>g. group_id g = gid) (groups v) of [] \<Rightarrow> None | g # _ \<Rightarrow> Some g)"
proof -
  have "find Q xs = (case filter Q xs of [] \<Rightarrow> None | g # _ \<Rightarrow> Some g)" for Q and xs :: "group_meta list"
    by (induction xs) auto
  then show ?thesis by (simp add: group_row_def)
qed

lemma coherent_outside: "coherent (owned_by_other gid frm me) (outside gid frm)"
proof -
  have "preorder_rel (outside gid frm)"
    by (rule preorder_relI) (auto simp: outside_def)
  moreover have "owned_by_other gid frm me v'" if "owned_by_other gid frm me v" "outside gid frm v v'" for v v'
    using that by (simp add: owned_by_other_def outside_def group_row_filter)
  ultimately show ?thesis by (simp add: coherent_def)
qed

lemma filter_map_other:
  "(\<And>g. group_id (f g) = group_id g) \<Longrightarrow> (\<And>g. group_id g = gid \<Longrightarrow> f g = g) \<Longrightarrow>
     filter (\<lambda>g. group_id g = gid) (map f gs) = filter (\<lambda>g. group_id g = gid) gs"
  by (induction gs) auto

lemma outside_meta: "upsert_group_meta v g key mode own = Inr v' \<Longrightarrow> g \<noteq> gid \<Longrightarrow> outside gid frm v v'"
  by (auto simp: upsert_group_meta_def outside_def roster_def intro!: filter_map_other)

lemma outside_mode: "set_access_mode v g mode = Inr v' \<Longrightarrow> g \<noteq> gid \<Longrightarrow> outside gid frm v v'"
  by (auto simp: set_access_mode_def outside_def roster_def intro!: filter_map_other)

lemma outside_delete_chat: "delete_chat v g = Inr v' \<Longrightarrow> g \<noteq> gid \<Longrightarrow> outside gid frm v v'"
  by (auto simp: delete_chat_def outside_def roster_def map_of_filter_at2 intro!: filter_cong)

interpretation outsider: frame_ops "owned_by_other gid frm me" "outside gid frm" "\<lambda>g. g \<noteq> gid" frm me
  for gid frm me
proof
  show "coherent (owned_by_other gid frm me) (outside gid frm)" by (rule coherent_outside)
  show "outside gid frm v v'" if "upsert_group_meta v g key mode own = Inr v'" "g \<noteq> gid" for v g key mode own v'
    using that by (rule outside_meta)
  show "outside gid frm v v'" if "set_access_mode v g mode = Inr v'" "g \<noteq> gid" for v g mode v'
    using that by (rule outside_mode)
  show "outside gid frm v v'" if "delete_chat v g = Inr v'" "g \<noteq> gid" for v g v'
    using that by (rule outside_delete_chat)
  show "\<exists>m. group_row v g = Some m \<and> \<not> owned_by (Some m) frm \<and> \<not> owned_by (Some m) me"
    if "owned_by_other gid frm me v" "\<not> g \<noteq> gid" for v g
    using that by (simp add: owned_by_other_def)
qed (auto simp: session_op_defs table_op_defs upsert_contact_def outside_def roster_def
    split: option.splits if_splits)

text \<open>C3: Someone who is not the recorded owner of a group cannot moderate it, whatever message type,
  plaintext or group id the frame claims: the group's record (owner, mode, key), bans, join requests, other
  users' suspensions and sessions stay, and the roster can lose only the sender itself. This holds for
  groups another user owns and for groups without a known owner.\<close>

theorem only_the_owner_moderates:
  assumes "group_row (c_vault c) gid = Some m" and "\<not> owned_by (Some m) (inc_from inc)"
    and "\<not> owned_by (Some m) (p_me X)" and "gid \<noteq> inc_from inc"
  shows "outside gid (inc_from inc) (c_vault c) (c_vault (snd (process_one W X inc c)))"
proof -
  have "vacts (owned_by_other gid (inc_from inc) (p_me X)) (outside gid (inc_from inc)) (process_one W X inc)"
    using assms(4) by (intro outsider.process_one) auto
  moreover have "in_vault (owned_by_other gid (inc_from inc) (p_me X)) c"
    using assms(1-3) by (simp add: in_vault_def owned_by_other_def)
  ultimately show ?thesis
    using actsD by (fastforce simp: on_vault_def)
qed

text \<open>Group \<open>h\<close> belongs to dan; bob claims that cy was removed from it.\<close>

definition demo_member :: client where
  "demo_member = demo_client\<lparr>c_vault := (c_vault demo_client)\<lparr>
     groups := [\<lparr>group_id = ''h'', group_key = ''HHHHHHH1'', access_mode = ''open'', owner = ''dan''\<rparr>],
     chat_members := [(''h'', ''al''), (''h'', ''bob''), (''h'', ''cy'')]\<rparr>\<rparr>"

theorem only_the_owner_moderates_witness:
  "roster (c_vault (snd (process_one demo_world demo_ctx
      ((demo_frame ''group_event'' ''Aremoved'')\<lparr>inc_group_id := Some ''h''\<rparr>) demo_member))) ''h'' \<supseteq> {''al'', ''cy''}"
proof -
  let ?inc = "(demo_frame ''group_event'' ''Aremoved'')\<lparr>inc_group_id := Some ''h''\<rparr>"
  have "outside ''h'' (inc_from ?inc) (c_vault demo_member) (c_vault (snd (process_one demo_world demo_ctx ?inc demo_member)))"
    by (rule only_the_owner_moderates
        [where m = "\<lparr>group_id = ''h'', group_key = ''HHHHHHH1'', access_mode = ''open'', owner = ''dan''\<rparr>"])
      (simp_all add: demo_member_def group_row_def owned_by_def demo_frame_def demo_ctx_def)
  then show ?thesis
    by (auto simp: outside_def roster_def demo_member_def demo_frame_def)
qed

end
