(* ===== verification/Net_Joins.thy ===== *)
theory Net_Joins
  imports Net_Facts
begin

text \<open>
  Joining a group, as its owner decides it: the exact effect of a join request on the roster and the
  queue, what lets a request in, and how the request's own time stamp gets around a suspension.
\<close>

section \<open>What the sending side leaves alone\<close>

definition same_access :: "vault \<Rightarrow> vault \<Rightarrow> bool" where
  "same_access v v' = (chat_members v' = chat_members v \<and> group_join_requests v' = group_join_requests v)"

lemma preorder_same_access: "preorder_rel same_access"
  by (rule preorder_relI) (simp_all add: same_access_def)

interpretation access: crypto_ops "\<lambda>_. True" same_access
  by unfold_locales (auto simp: preorder_same_access same_access_def session_op_defs upsert_contact_def)

lemma access_system_line: "vacts (\<lambda>_. True) same_access (system_line W gid line ts)"
  unfolding system_line_def emit_system_def store_message_def
  by (intro access.vrules) (auto simp: same_access_def insert_message_def)

lemma same_accessD:
  "vacts (\<lambda>_. True) same_access m \<Longrightarrow>
     chat_members (c_vault (snd (m c))) = chat_members (c_vault c) \<and>
     group_join_requests (c_vault (snd (m c))) = group_join_requests (c_vault c)"
  by (drule actsD [of _ _ _ c]) (simp_all add: in_vault_def on_vault_def same_access_def)

lemma admit_member_access:
  assumes "v_up (c_vault c)"
  shows "set (chat_members (c_vault (snd (admit_member W X gid who now c)))) =
      insert (gid, who) (set (chat_members (c_vault c)))"
    and "map_of (group_join_requests (c_vault (snd (admit_member W X gid who now c)))) =
      (map_of (group_join_requests (c_vault c)))((gid, who) := None)"
proof -
  let ?rest = "\<lambda>name. bnd (outbound_group W (p_seal X) gid) (\<lambda>(grp, _).
     andthen (distribute_group_key W (p_seal X) (p_me X) gid name [who] grp)
     (andthen (broadcast_group_event W (p_seal X) (p_me X) gid name (joined_event who))
     (andthen (system_line W gid (group_event_text ''joined'' who []) now)
     (emit_chats X))))"
  have rest: "vacts (\<lambda>_. True) same_access (?rest name)" for name
    by (intro access.vrules access.outbound_group access.distribute_group_key access.broadcast_group_event
        access_system_line)
  let ?v = "c_vault c"
  let ?v1 = "if (gid, who) \<in> set (chat_members ?v) then ?v else ?v\<lparr>chat_members := chat_members ?v @ [(gid, who)]\<rparr>"
  let ?v2 = "?v1\<lparr>group_join_requests := AList.delete (gid, who) (group_join_requests ?v1)\<rparr>"
  obtain name where "admit_member W X gid who now c = ?rest name (c\<lparr>c_vault := ?v2\<rparr>)"
    using assms by (simp add: admit_member_def chat_title_def bnd_def vget_def get_chat_def ret_def andthen_def
        vput_def add_member_def remove_join_request_def)
  then have "chat_members (c_vault (snd (admit_member W X gid who now c))) = chat_members ?v2"
    and "group_join_requests (c_vault (snd (admit_member W X gid who now c))) = group_join_requests ?v2"
    using same_accessD [OF rest, of name "c\<lparr>c_vault := ?v2\<rparr>"] by simp_all
  then show "set (chat_members (c_vault (snd (admit_member W X gid who now c)))) =
      insert (gid, who) (set (chat_members (c_vault c)))"
    and "map_of (group_join_requests (c_vault (snd (admit_member W X gid who now c)))) =
      (map_of (group_join_requests (c_vault c)))((gid, who) := None)"
    by auto
qed

section \<open>Join requests\<close>

definition suspended_at :: "vault \<Rightarrow> string \<Rightarrow> string \<Rightarrow> millis \<Rightarrow> bool" where
  "suspended_at v gid u now = (case map_of (group_suspensions v) (gid, u) of None \<Rightarrow> False | Some t \<Rightarrow> now < t)"

text \<open>The verdict from the owner's records.\<close>

definition join_verdict :: "vault \<Rightarrow> group_meta \<Rightarrow> join_request \<Rightarrow> string \<Rightarrow> millis \<Rightarrow> join_decision" where
  "join_verdict v m req frm now =
     decide_join (access_mode m) (valid_group_key (jr_group_key req) \<and> jr_group_key req = group_key m)
       (map_of (group_bans v) (group_id m, frm) \<noteq> None) (suspended_at v (group_id m) frm now)
       (frm \<in> roster v (group_id m))"

text \<open>The handler up to the verdict: only an expired suspension is dropped.\<close>

definition after_look :: "client \<Rightarrow> string \<Rightarrow> string \<Rightarrow> millis \<Rightarrow> client" where
  "after_look c gid frm now =
     (if map_of (group_suspensions (c_vault c)) (gid, frm) \<noteq> None \<and> \<not> suspended_at (c_vault c) gid frm now
      then c\<lparr>c_vault := (c_vault c)\<lparr>group_suspensions :=
             AList.delete (gid, frm) (group_suspensions (c_vault c))\<rparr>\<rparr> else c)"

lemma handle_join_request_run:
  assumes "join_of (w_codec W) p = Inr req" and "v_up (c_vault c)"
    and "group_row (c_vault c) (jr_group_id req) = Some m" and "owned_by (Some m) (p_me X)"
  shows "handle_join_request W X frm p now c =
    (case join_verdict (c_vault c) m req frm now of
        Admit \<Rightarrow> admit_member W X (group_id m) frm now
      | Queue \<Rightarrow>
          andthen (vput (\<lambda>v. add_join_request v (group_id m) frm now))
          (andthen (system_line W (group_id m) (group_event_text ''requested'' frm []) now)
          (emit (InfoEvent (frm @ '' requested to join - /accept '' @ frm @ '' (in that group) to admit''))))
      | Deny reason \<Rightarrow> deny_join W X frm (group_id m) reason)
    (after_look c (group_id m) frm now)"
proof -
  have gid: "jr_group_id req = group_id m" using assms(3) by (auto simp: group_row_def find_Some_iff)
  have row: "find (\<lambda>g. group_id g = group_id m) (groups (c_vault c)) = Some m"
    using assms(3) by (simp add: group_row_def gid)
  show ?thesis
    using assms(1,2,4) row unfolding handle_join_request_def join_verdict_def after_look_def suspended_at_def gid
    by (auto simp: bnd_def lift_def vget_def get_group_meta_def is_banned_def vcall_def is_suspended_def
        suspended_until_def clear_suspension_def is_member_def roster_def Let_def gid not_less
        split: option.splits)
qed

text \<open>C26: The owner's handling of a join request is exact. The roster grows by the requester alone, and
  only on the verdict Admit; a verdict Queue files the request, Admit clears it, Deny changes neither. Admit is
  given exactly if the invite key is the group's, the requester is neither banned nor suspended at the time
  used, and is a member already or the group is open.\<close>

theorem join_request_effect:
  assumes "join_of (w_codec W) p = Inr req" and "v_up (c_vault c)"
    and "group_row (c_vault c) (jr_group_id req) = Some m" and "owned_by (Some m) (p_me X)"
    and "verdict = join_verdict (c_vault c) m req frm now"
    and "v' = c_vault (snd (handle_join_request W X frm p now c))"
  shows "(set (chat_members v') = set (chat_members (c_vault c)) \<union> (if verdict = Admit then {(group_id m, frm)} else {}) \<and>
     map_of (group_join_requests v') = (case verdict of
        Admit \<Rightarrow> (map_of (group_join_requests (c_vault c)))((group_id m, frm) := None)
      | Queue \<Rightarrow> (map_of (group_join_requests (c_vault c)))((group_id m, frm) \<mapsto> now)
      | Deny _ \<Rightarrow> map_of (group_join_requests (c_vault c)))) \<and>
    (verdict = Admit \<longleftrightarrow> valid_group_key (jr_group_key req) \<and> jr_group_key req = group_key m \<and>
      map_of (group_bans (c_vault c)) (group_id m, frm) = None \<and> \<not> suspended_at (c_vault c) (group_id m) frm now \<and>
      (frm \<in> roster (c_vault c) (group_id m) \<or> access_mode m = OPEN))"
proof (rule conjI)
  let ?c = "after_look c (group_id m) frm now"
  note run = handle_join_request_run [OF assms(1-4), of frm now, folded assms(5)]
  have look: "chat_members (c_vault ?c) = chat_members (c_vault c)"
    "group_join_requests (c_vault ?c) = group_join_requests (c_vault c)" "v_up (c_vault ?c)"
    using assms(2) by (simp_all add: after_look_def)
  show "set (chat_members v') = set (chat_members (c_vault c)) \<union> (if verdict = Admit then {(group_id m, frm)} else {}) \<and>
    map_of (group_join_requests v') = (case verdict of
        Admit \<Rightarrow> (map_of (group_join_requests (c_vault c)))((group_id m, frm) := None)
      | Queue \<Rightarrow> (map_of (group_join_requests (c_vault c)))((group_id m, frm) \<mapsto> now)
      | Deny _ \<Rightarrow> map_of (group_join_requests (c_vault c)))"
  proof (cases verdict)
    case Admit
    then show ?thesis
      using admit_member_access [OF look(3), of W X "group_id m" frm now] look(1,2) run assms(6) by simp
  next
    case Queue
    let ?tail = "andthen (system_line W (group_id m) (group_event_text ''requested'' frm []) now)
          (emit (InfoEvent (frm @ '' requested to join - /accept '' @ frm @ '' (in that group) to admit'')))"
    have tail: "vacts (\<lambda>_. True) same_access ?tail" by (intro access.vrules access_system_line)
    show ?thesis
      using same_accessD [OF tail] look run assms(6) Queue
      by (simp add: andthen_def [of "vput _"] bnd_def [of "vput _"] vput_def add_join_request_def)
  next
    case (Deny reason)
    then show ?thesis
      using same_accessD [OF access.deny_join, of W X frm "group_id m" reason ?c] look run assms(6) by simp
  qed
  show "verdict = Admit \<longleftrightarrow> valid_group_key (jr_group_key req) \<and> jr_group_key req = group_key m \<and>
      map_of (group_bans (c_vault c)) (group_id m, frm) = None \<and> \<not> suspended_at (c_vault c) (group_id m) frm now \<and>
      (frm \<in> roster (c_vault c) (group_id m) \<or> access_mode m = OPEN)"
    by (auto simp: assms(5) join_verdict_def decide_join_def)
qed

definition demo_request :: join_request where
  "demo_request = \<lparr>jr_group_id = ''g'', jr_group_key = ''AAAAAAA1''\<rparr>"

definition demo_group :: group_meta where
  "demo_group = \<lparr>group_id = ''g'', group_key = ''AAAAAAA1'', access_mode = ''open'', owner = ''al''\<rparr>"

lemma demo_join:
  "join_of (w_codec demo_world) ''AAAAAAA1'' = Inr demo_request" "v_up (c_vault demo_client)"
  "group_row (c_vault demo_client) (jr_group_id demo_request) = Some demo_group"
  "owned_by (Some demo_group) (p_me demo_ctx)"
  "valid_group_key (jr_group_key demo_request)"
  by (simp_all add: demo_defs demo_request_def demo_group_def group_row_def owned_by_def valid_group_key_def
      GROUP_KEY_LEN_def ascii_class_defs)

theorem join_request_effect_witness:
  "''cy'' \<notin> roster (c_vault (snd (handle_join_request demo_world demo_ctx ''cy'' ''AAAAAAA1'' 100 demo_client))) ''g'' \<and>
   ''dan'' \<in> roster (c_vault (snd (handle_join_request demo_world demo_ctx ''dan'' ''AAAAAAA1'' 100 demo_client))) ''g''"
proof -
  have v: "join_verdict (c_vault demo_client) demo_group demo_request ''dan'' 100 = Admit"
    "join_verdict (c_vault demo_client) demo_group demo_request ''cy'' 100 \<noteq> Admit"
    using demo_join(5)
    by (simp_all add: join_verdict_def decide_join_def suspended_at_def demo_request_def demo_group_def demo_defs
        OPEN_def)
  have "(''g'', ''cy'') \<notin> set (chat_members (c_vault demo_client))" by (simp add: demo_defs)
  then show ?thesis
    using join_request_effect [OF demo_join(1-4) refl refl, of "''cy''" 100, THEN conjunct1, THEN conjunct1]
      join_request_effect [OF demo_join(1-4) refl refl, of "''dan''" 100, THEN conjunct1, THEN conjunct1] v
    by (simp add: roster_def demo_group_def)
qed

text \<open>The time a suspension is compared with is the request's own time stamp, which the requester
  chooses and the relay can rewrite. Whoever is suspended until \<open>t\<close> and asks to join an open group with the time
  stamp \<open>t\<close> (any real time being earlier) is admitted, and the suspension record is dropped.\<close>

theorem suspension_ends_at_the_requests_time:
  assumes "join_of (w_codec W) (plaintext :: bytes) = Inr req" and "v_up (c_vault c)"
    and "group_row (c_vault c) (jr_group_id req) = Some m" and "owned_by (Some m) (p_me X)"
    and "obtain_olm_plaintext W X (inc_from inc) (inc_payload inc) c0 = (Inr plaintext, c)"
    and "inc_msg_type inc = ''group_join''"
    and "map_of (group_suspensions (c_vault c)) (group_id m, inc_from inc) = Some (inc_client_ts inc)"
    and "access_mode m = OPEN" and "valid_group_key (jr_group_key req)" and "jr_group_key req = group_key m"
    and "map_of (group_bans (c_vault c)) (group_id m, inc_from inc) = None"
  shows "inc_from inc \<in> roster (c_vault (snd (process_one W X inc c0))) (group_id m)"
proof -
  have run: "process_one W X inc c0 =
      handle_join_request W X (inc_from inc) plaintext (inc_client_ts inc) c"
    using assms(5,6) by (simp add: process_one_def Let_def bnd_def)
  have "\<not> suspended_at (c_vault c) (group_id m) (inc_from inc) (inc_client_ts inc)"
    using assms(7) by (simp add: suspended_at_def)
  then have "join_verdict (c_vault c) m req (inc_from inc) (inc_client_ts inc) = Admit"
    using assms(8-11) by (simp add: join_verdict_def decide_join_def)
  have "chat_members (c_vault (after_look c (group_id m) (inc_from inc) (inc_client_ts inc))) = chat_members (c_vault c)"
    "v_up (c_vault (after_look c (group_id m) (inc_from inc) (inc_client_ts inc)))"
    using assms(2) by (simp_all add: after_look_def)
  then show ?thesis
    unfolding run
    using handle_join_request_run [OF assms(1-4)] \<open>join_verdict _ _ _ _ _ = Admit\<close>
      admit_member_access(1) [of "after_look c (group_id m) (inc_from inc) (inc_client_ts inc)"]
    by (simp add: roster_def)
qed

text \<open>\<open>cy\<close> is suspended until 5000; the owner's clock shows about 1000.\<close>

definition demo_join_frame :: incoming where
  "demo_join_frame = \<lparr>inc_from = ''cy'', inc_msg_type = ''group_join'', inc_payload = ''1.AAAAAAA1'',
     inc_group_id = Some ''g'', inc_client_ts = 5000\<rparr>"

theorem suspension_ends_at_the_requests_time_witness:
  "suspended_at (c_vault demo_client) ''g'' ''cy'' (w_now demo_world 0) \<and>
   ''cy'' \<in> roster (c_vault (snd (process_one demo_world demo_ctx demo_join_frame demo_client))) ''g''"
proof -
  have olm: "obtain_olm_plaintext demo_world demo_ctx (inc_from demo_join_frame) (inc_payload demo_join_frame) demo_client
      = (Inr ''AAAAAAA1'', demo_client)"
    by (simp add: obtain_olm_plaintext_def parse_olm_def demo_join_frame_def run_defs load_olm_def save_olm_def
        olm_decrypt_def ok_or_def parse_u8_def digits_val_def is_ascii_digit_def)
  have "inc_from demo_join_frame \<in>
      roster (c_vault (snd (process_one demo_world demo_ctx demo_join_frame demo_client))) (group_id demo_group)"
    by (rule suspension_ends_at_the_requests_time [OF demo_join(1-4) olm])
      (use demo_join(5) in \<open>simp_all add: demo_join_frame_def demo_defs demo_group_def demo_request_def OPEN_def\<close>)
  then show ?thesis
    by (simp add: suspended_at_def demo_defs demo_join_frame_def demo_group_def)
qed

end
