(* ===== verification/Net_Trust.thy ===== *)
theory Net_Trust
  imports Net_Joins
begin

text \<open>
  The trust decisions of the network layer: the coding of Olm payloads, what a pairwise session is
  opened with, and whose identity is checked for it.
\<close>

section \<open>Olm payloads\<close>

lemma takeWhile_dot: "CHR ''.'' \<notin> set t \<Longrightarrow> takeWhile (\<lambda>c. c \<noteq> CHR ''.'') (t @ ''.'' @ r) = t"
  by (induction t) auto

lemma dropWhile_dot: "CHR ''.'' \<notin> set t \<Longrightarrow> dropWhile (\<lambda>c. c \<noteq> CHR ''.'') (t @ ''.'' @ r) = ''.'' @ r"
  by (induction t) auto

text \<open>An Olm payload is read back as it was written, whatever its type byte and body; and what is
  accepted at all carries a type below 256 and a decodable body after the first dot.\<close>

theorem olm_payload_roundtrip:
  shows "(b64_dec K (b64_enc K body) = Inr body \<longrightarrow> t < 256 \<longrightarrow> parse_olm K (encode_olm K t body) = Inr (t, body)) \<and>
    (parse_olm K payload = Inr (t, body) \<longrightarrow>
      t < 256 \<and> (\<exists>p r. payload = p @ ''.'' @ r \<and> CHR ''.'' \<notin> set p \<and> parse_u8 p = Some t \<and> b64_dec K r = Inr body))"
proof (rule conjI, rule impI, rule impI, rule_tac [2] impI)
  assume b: "b64_dec K (b64_enc K body) = Inr body" and t: "t < 256"
  have "takeWhile (\<lambda>c. c \<noteq> CHR ''.'') (encode_olm K t body) = show_nat t"
    and "dropWhile (\<lambda>c. c \<noteq> CHR ''.'') (encode_olm K t body) = ''.'' @ b64_enc K body"
    unfolding encode_olm_def by (rule takeWhile_dot dropWhile_dot, rule show_nat_no_dot)+
  with b t show "parse_olm K (encode_olm K t body) = Inr (t, body)"
    by (simp add: parse_olm_def ok_or_def)
next
  let ?p = "takeWhile (\<lambda>c. c \<noteq> CHR ''.'') payload" and ?r = "dropWhile (\<lambda>c. c \<noteq> CHR ''.'') payload"
  assume ok: "parse_olm K payload = Inr (t, body)"
  then have r: "?r \<noteq> []" and u: "parse_u8 ?p = Some t" and d: "b64_dec K (tl ?r) = Inr body"
    by (auto simp: parse_olm_def Let_def res_bind_Inr_iff split: if_splits)
  have "hd ?r = CHR ''.''" using hd_dropWhile [OF r] by simp
  then have "?r = ''.'' @ tl ?r" using r by (cases ?r) auto
  then have "payload = ?p @ ''.'' @ tl ?r" by (metis takeWhile_dropWhile_id)
  moreover have "CHR ''.'' \<notin> set ?p" using set_takeWhileD by fastforce
  moreover have "t < 256" using u by (auto simp: parse_u8_def split: option.splits if_splits)
  ultimately show "t < 256 \<and> (\<exists>p r. payload = p @ ''.'' @ r \<and> CHR ''.'' \<notin> set p \<and> parse_u8 p = Some t \<and>
      b64_dec K r = Inr body)"
    using u d by blast
qed

theorem olm_payload_roundtrip_witness:
  "parse_olm demo_seal (encode_olm demo_seal 255 ''a.b'') = Inr (255, ''a.b'') \<and>
   (\<exists>p r. encode_olm demo_seal 255 ''a.b'' = p @ ''.'' @ r \<and> parse_u8 p = Some 255)"
proof -
  have p: "parse_olm demo_seal (encode_olm demo_seal 255 ''a.b'') = Inr (255, ''a.b'')"
    using olm_payload_roundtrip [of demo_seal "''a.b''" 255] by (simp add: demo_seal_def)
  with olm_payload_roundtrip [of demo_seal "''a.b''" 255 "encode_olm demo_seal 255 ''a.b''"] show ?thesis by blast
qed

section \<open>Opening a session\<close>

text \<open>The bundle's identity, as the client looks at it.\<close>

lemma accept_identity_fresh:
  assumes "client_valid_pubkey_b64 K ed" and "client_valid_pubkey_b64 K curve" and "v_up (c_vault c)"
    and "pinned_key (c_vault c) u \<in> {None, Some [], Some ed}"
  shows "\<exists>v. accept_identity K u uuid ed curve c = (Inr True, c\<lparr>c_vault := v\<rparr>)"
  using assms
  by (auto simp: accept_identity_def bnd_def vget_def check_identity_def get_contact_ed_def pinned_key_def
      andthen_def vput_def upsert_contact_def ret_def split: option.splits)

lemma accept_identity_conflict:
  assumes "client_valid_pubkey_b64 K ed" and "client_valid_pubkey_b64 K curve" and "v_up (c_vault c)"
    and "pinned_key (c_vault c) u = Some k" and "k \<noteq> []" and "ed \<noteq> k"
  shows "fst (accept_identity K u uuid ed curve c) = Inr False" and "c_vault (snd (accept_identity K u uuid ed curve c)) = c_vault c"
  using assms check_pinned [of "c_vault c" u k ed]
  by (simp_all add: accept_identity_def bnd_def vget_def andthen_def emit_def modify_def ret_def)

text \<open>The first answer of the relay after the request.\<close>

definition asked :: "client \<Rightarrow> string \<Rightarrow> client" where
  "asked c peer = c\<lparr>c_tick := Suc (Suc (c_tick c)), c_sent := c_sent c @ [FetchPrekeys peer]\<rparr>"

lemma send_and_wait_reply:
  "w_writer_open W (c_tick c) \<Longrightarrow> w_reply W (Suc (c_tick c)) = Inr m \<Longrightarrow>
     send_and_wait W (FetchPrekeys peer) c = (Inr m, asked c peer)"
  by (simp add: send_and_wait_def send_def act_defs draw_def asked_def)

lemma ensure_olm_bundle:
  assumes "load_olm (c_vault c) K peer = Inr None" and "load_account (c_vault c) K = Inr (Some device)"
    and "w_writer_open W (c_tick c)"
    and "w_reply W (Suc (c_tick c)) = Inr (PrekeyBundle name uuid ed curve kid (Some otk))"
  shows "ensure_olm W K peer c =
    bnd (accept_identity K name uuid ed curve) (\<lambda>ok.
      if \<not> ok then ret None else bnd (lift (start_session (w_vz W) device curve otk)) (\<lambda>s. ret (Some s)))
    (asked c peer)"
proof -
  have dev: "get_device K ''no device identity'' c = (Inr device, c)"
    using assms(2) by (simp add: get_device_def bnd_def vget_def lift_def ok_or_def)
  show ?thesis
    using assms(1) send_and_wait_reply [OF assms(3,4), of peer] dev
    by (simp add: ensure_olm_def vget_def bnd_def [of "vget _"] bnd_def [of "get_device _ _"]
        bnd_def [of "send_and_wait _ _"])
qed

text \<open>C39: A bundle that names the peer truthfully cannot replace its pinned key: no session is opened and
  nothing is stored. But the check is made for the name in the relay's answer, not for the peer that was asked
  for: if the relay answers a request for a pinned peer with a bundle under a name that is not pinned yet, the
  client opens the session for the peer with the keys in that bundle.\<close>

theorem bundle_is_checked_under_its_own_name:
  assumes "load_olm (c_vault c) K peer = Inr None" and "load_account (c_vault c) K = Inr (Some device)"
    and "v_up (c_vault c)" and "w_writer_open W (c_tick c)"
    and "w_reply W (Suc (c_tick c)) = Inr (PrekeyBundle name uuid ed curve kid (Some otk))"
    and "client_valid_pubkey_b64 K ed" and "client_valid_pubkey_b64 K curve"
    and "pinned_key (c_vault c) peer = Some k" and "k \<noteq> []" and "ed \<noteq> k"
  shows "(name = peer \<longrightarrow> fst (ensure_olm W K peer c) = Inr None \<and> c_vault (snd (ensure_olm W K peer c)) = c_vault c) \<and>
    (pinned_key (c_vault c) name = None \<longrightarrow> start_session (w_vz W) device curve otk = Inr s \<longrightarrow>
      fst (ensure_olm W K peer c) = Inr (Some s))"
proof (rule conjI, rule_tac [2] impI, rule_tac [2] impI, rule impI)
  note run = ensure_olm_bundle [OF assms(1,2,4,5)]
  have up: "v_up (c_vault (asked c peer))" "c_vault (asked c peer) = c_vault c"
    using assms(3) by (simp_all add: asked_def)
  show "fst (ensure_olm W K peer c) = Inr None \<and> c_vault (snd (ensure_olm W K peer c)) = c_vault c" if "name = peer"
  proof -
    have "fst (accept_identity K name uuid ed curve (asked c peer)) = Inr False"
      "c_vault (snd (accept_identity K name uuid ed curve (asked c peer))) = c_vault c"
      using accept_identity_conflict [OF assms(6,7) up(1), of name k uuid] assms(8-10) up(2) that by simp_all
    then show ?thesis
      unfolding run by (cases "accept_identity K name uuid ed curve (asked c peer)") (simp add: bnd_def ret_def)
  qed
  show "fst (ensure_olm W K peer c) = Inr (Some s)"
    if fresh: "pinned_key (c_vault c) name = None" and ses: "start_session (w_vz W) device curve otk = Inr s"
  proof -
    obtain v where "accept_identity K name uuid ed curve (asked c peer) = (Inr True, (asked c peer)\<lparr>c_vault := v\<rparr>)"
      using accept_identity_fresh [OF assms(6,7) up(1), of name uuid] fresh up(2) by auto
    with ses show ?thesis unfolding run by (simp add: bnd_def lift_def ret_def)
  qed
qed

text \<open>Bob is pinned with another key; the relay answers with mallory's bundle, under either name.\<close>

definition mallory_key :: string where
  "mallory_key = replicate 32 CHR ''m''"

definition lying_world :: "string \<Rightarrow> world" where
  "lying_world name = demo_world\<lparr>w_reply := (\<lambda>_. Inr (PrekeyBundle name ''u9'' mallory_key mallory_key None (Some ''otk'')))\<rparr>"

definition before_session :: client where
  "before_session = demo_client\<lparr>c_vault := (c_vault demo_client)\<lparr>olm_sessions := []\<rparr>\<rparr>"

theorem bundle_is_checked_under_its_own_name_witness:
  "fst (ensure_olm (lying_world ''bob'') demo_seal ''bob'' before_session) = Inr None \<and>
   fst (ensure_olm (lying_world ''mallory'') demo_seal ''bob'' before_session) = Inr (Some (mallory_key @ ''otk'')) \<and>
   pinned_key (c_vault before_session) ''bob'' = Some ''K1''"
proof -
  let ?c = before_session
  have st: "load_olm (c_vault ?c) demo_seal ''bob'' = Inr None" "load_account (c_vault ?c) demo_seal = Inr (Some ''D'')"
    "v_up (c_vault ?c)"
    and pin: "pinned_key (c_vault ?c) ''bob'' = Some ''K1''" "pinned_key (c_vault ?c) ''mallory'' = None"
    by (simp_all add: before_session_def demo_defs load_olm_def open_row_def load_account_def meta_get_def
        pinned_key_def)
  have env: "w_writer_open (lying_world n) (c_tick ?c)"
    "w_reply (lying_world n) (Suc (c_tick ?c)) = Inr (PrekeyBundle n ''u9'' mallory_key mallory_key None (Some ''otk''))"
    for n by (simp_all add: lying_world_def demo_world_def)
  have key: "client_valid_pubkey_b64 demo_seal mallory_key"
    by (simp add: client_valid_pubkey_b64_def demo_seal_def mallory_key_def)
  have "length mallory_key \<noteq> length ''K1''" by (simp add: mallory_key_def)
  then have ne: "mallory_key \<noteq> ''K1''" by metis
  have k1: "(''K1'' :: string) \<noteq> []" by simp
  have s: "start_session (w_vz (lying_world n)) ''D'' mallory_key ''otk'' = Inr (mallory_key @ ''otk'')" for n
    by (simp add: lying_world_def demo_world_def demo_vz_def start_session_def map_err_def)
  show ?thesis
    using bundle_is_checked_under_its_own_name [OF st env key key pin(1) k1 ne, of "''bob''"]
      bundle_is_checked_under_its_own_name [OF st env key key pin(1) k1 ne, of "''mallory''"] s pin
    by simp
qed

end
