(* ===== verification/Session_Util.thy ===== *)
theory Session_Util
  imports Prelude
begin

text \<open>
  The helpers of backend/core/src/session.rs that look at no vault: user-typed addresses and durations,
  and the index of known servers (\<open>servers.json\<close>).
\<close>

section \<open>Addresses\<close>

text \<open>\<open>s.find(p)\<close> and the text after the match; \<open>find\<close> of a set of characters and the text before it.\<close>

fun after_sub :: "string \<Rightarrow> string \<Rightarrow> string option" where
  "after_sub p s = (if prefix p s then Some (drop (length p) s)
     else case s of [] \<Rightarrow> None | _ # r \<Rightarrow> after_sub p r)"

declare after_sub.simps [simp del]

definition normalize_addr :: "string \<Rightarrow> string" where
  "normalize_addr s =
     (let s1 = trim s;
          s2 = (case after_sub ''://'' s1 of None \<Rightarrow> s1 | Some r \<Rightarrow> r);
          s3 = takeWhile (\<lambda>c. c \<notin> set ''/?#'') s2;
          t = trim s3
      in if t \<noteq> [] \<and> CHR '':'' \<notin> set t then t @ '':9000'' else t)"

definition host_of :: "string \<Rightarrow> string" where
  "host_of addr =
     (let host = rev (tl (dropWhile (\<lambda>c. c \<noteq> CHR '':'') (rev addr))) in
      if CHR '':'' \<in> set addr \<and> host \<noteq> [] then host else addr)"

lemma after_sub_None: "CHR ''/'' \<notin> set s \<Longrightarrow> after_sub ''://'' s = None"
proof (induction s)
  case Nil
  then show ?case by (subst after_sub.simps) simp
next
  case (Cons c s)
  then have "\<not> prefix ''://'' (c # s)" by (auto simp: prefix_def)
  with Cons show ?case by (subst after_sub.simps) simp
qed

lemma no_prefix_append:
  assumes "no_prefix ws t" and "\<forall>w \<in> set ws. x \<notin> set w" and "t \<noteq> []"
  shows "no_prefix ws (t @ x # r)"
proof (unfold no_prefix_def, intro ballI impI notI)
  fix w
  assume w: "w \<in> set ws" "w \<noteq> []" "prefix w (t @ x # r)"
  then consider "prefix w t" | y where "w = t @ y" "prefix y (x # r)"
    by (auto simp: prefix_append)
  then show False
  proof cases
    case 1
    with assms(1) w show False by (simp add: no_prefix_def)
  next
    case 2
    then have "y = [] \<or> x \<in> set w" by (cases y) auto
    with assms(1,2) w 2 show False by (auto simp: no_prefix_def)
  qed
qed

lemma printable_colon: "printable (CHR '':'')" and printable_zero: "printable (CHR ''0'')"
  by (simp_all add: printable_def)

lemma digit_printable: "is_ascii_digit c \<Longrightarrow> printable c"
  by (simp add: is_ascii_digit_def printable_def)

lemma trim_with_port:
  assumes "t = trim s" and "t \<noteq> []"
  shows "trim (t @ '':9000'') = t @ '':9000''"
proof -
  have "no_prefix unicode_ws (t @ '':9000'')"
    proof -
    have "\<forall>w \<in> set unicode_ws. CHR '':'' \<notin> set w"
      using ws_not_printable printable_colon by blast
    then show ?thesis
      using trim_no_ws_prefix [of s] assms by simp (rule no_prefix_append)
  qed
  then have "trim_start (t @ '':9000'') = t @ '':9000''" by (rule trim_start_fix)
  moreover have "trim_end (t @ '':9000'') = t @ '':9000''"
    by (simp add: trim_end_def strip_prefixes_id printable_end printable_zero)
  ultimately show ?thesis by (simp add: trim_def)
qed

lemma takeWhile_no: "set s \<inter> A = {} \<Longrightarrow> takeWhile (\<lambda>c. c \<notin> A) s = s"
  by (induction s) auto

lemma normalize_addr_cut: "set (normalize_addr s) \<inter> set ''/?#'' = {}"
proof -
  let ?s = "takeWhile (\<lambda>c. c \<notin> set ''/?#'') (case after_sub ''://'' (trim s) of None \<Rightarrow> trim s | Some r \<Rightarrow> r)"
  have "set (trim ?s) \<inter> set ''/?#'' = {}"
    using set_trim_subset [of ?s] by (fastforce dest: set_takeWhileD)
  then show ?thesis by (auto simp: normalize_addr_def Let_def)
qed

lemma normalize_addr_form:
  "\<exists>t. trim t = t \<and> (normalize_addr s = t \<and> (t = [] \<or> CHR '':'' \<in> set t) \<or>
     normalize_addr s = t @ '':9000'' \<and> t \<noteq> [] \<and> CHR '':'' \<notin> set t)"
  by (rule exI [of _ "trim (takeWhile (\<lambda>c. c \<notin> set ''/?#'') (case after_sub ''://'' (trim s) of
        None \<Rightarrow> trim s | Some r \<Rightarrow> r))"]) (auto simp: normalize_addr_def Let_def)

lemma normalize_addr_trimmed: "trim (normalize_addr s) = normalize_addr s"
  using normalize_addr_form [of s] trim_with_port by metis

lemma normalize_addr_fix:
  assumes "trim n = n" and "set n \<inter> set ''/?#'' = {}" and "n = [] \<or> CHR '':'' \<in> set n"
  shows "normalize_addr n = n"
proof -
  have "after_sub ''://'' n = None" using assms(2) by (intro after_sub_None) auto
  moreover have "takeWhile (\<lambda>c. c \<notin> set ''/?#'') n = n" by (rule takeWhile_no [OF assms(2)])
  ultimately show ?thesis
    unfolding normalize_addr_def Let_def assms(1) using assms(1,3)
    by (simp only: option.case) (auto split: if_split)
qed

lemma normalize_addr_idem: "normalize_addr (normalize_addr s) = normalize_addr s"
  using normalize_addr_form [of s]
  by (intro normalize_addr_fix normalize_addr_trimmed normalize_addr_cut) auto

section \<open>Durations\<close>

definition unit_ms :: "char \<Rightarrow> int option" where
  "unit_ms c =
     (if c = CHR ''s'' \<or> c = CHR ''S'' then Some 1000
      else if c = CHR ''m'' \<or> c = CHR ''M'' then Some 60000
      else if c = CHR ''h'' \<or> c = CHR ''H'' then Some 3600000
      else if c = CHR ''d'' \<or> c = CHR ''D'' then Some 86400000
      else None)"

definition parse_duration :: "string \<Rightarrow> int option" where
  "parse_duration input =
     (let s = trim input in
      if s = [] then None
      else case (case unit_ms (last s) of
               Some u \<Rightarrow> Some (butlast s, u)
             | None \<Rightarrow> if is_ascii_digit (last s) then Some (s, 60000) else None) of
          None \<Rightarrow> None
        | Some (num, u) \<Rightarrow> (case parse_i64 (trim num) of
            None \<Rightarrow> None
          | Some n \<Rightarrow> if n < 0 then None else checked_i64 (n * u)))"

lemma parse_duration_bounds: "parse_duration s = Some ms \<Longrightarrow> 0 \<le> ms \<and> ms \<le> i64_max"
proof -
  assume p: "parse_duration s = Some ms"
  then obtain n u where nu: "checked_i64 (n * u) = Some ms" "\<not> n < 0" "0 < u"
    by (auto simp: parse_duration_def Let_def unit_ms_def split: option.splits if_splits)
  then have "ms = n * u" "in_i64 (n * u)" by (auto simp: checked_i64_def split: if_splits)
  with nu show ?thesis by (simp add: in_i64_def)
qed

lemma unit_printable: "unit_ms c \<noteq> None \<Longrightarrow> printable c"
proof -
  assume "unit_ms c \<noteq> None"
  then have "c \<in> set ''sSmMhHdD''" by (fastforce simp: unit_ms_def split: if_split_asm)
  moreover have "\<forall>c \<in> set ''sSmMhHdD''. printable c" by (simp add: printable_def)
  ultimately show ?thesis by blast
qed

lemma trim_number:
  assumes "list_all is_ascii_digit t" and "t \<noteq> []" and "r = [] \<or> (\<exists>c. r = [c] \<and> unit_ms c \<noteq> None)"
  shows "trim (t @ r) = t @ r"
proof -
  have "trim_start (t @ r) = t @ r" using assms(1,2)
    by (intro trim_start_fix) (cases t, auto intro: printable_start digit_printable)
  moreover have "trim_end (t @ r) = t @ r"
  proof -
    obtain c q where q: "rev (t @ r) = c # q" using assms(2) by (cases "rev (t @ r)") auto
    then have "c = last (t @ r)" by (metis append_is_Nil_conv assms(2) hd_rev list.sel(1))
    then have "printable c"
      using assms by (auto simp: list_all_iff digit_printable unit_printable)
    then have "strip_prefixes (map rev unicode_ws) (c # q) = c # q" by (intro strip_prefixes_id printable_end)
    then show ?thesis unfolding trim_end_def q by (metis q rev_rev_ident)
  qed
  ultimately show ?thesis by (simp add: trim_def)
qed

lemma parse_i64_show: "int n \<le> i64_max \<Longrightarrow> parse_i64 (show_nat n) = Some (int n)"
  by (simp add: parse_i64_def show_nat_hd Let_def checked_i64_def in_i64_def i64_min_def)

lemma parse_duration_number:
  assumes "unit_ms c = Some u" and "int n \<le> i64_max"
  shows "parse_duration (show_nat n @ [c]) = checked_i64 (int n * u)"
  using assms show_nat_digits [of n] trim_number [of "show_nat n" "[c]"] trim_number [of "show_nat n" "[]"]
  by (simp add: parse_duration_def Let_def parse_i64_show)

section \<open>The index of servers\<close>

record server_record =
  sr_addr :: string
  sr_name :: "string option"
  sr_tier :: "string option"
  sr_verdict :: "string option"
  sr_username :: "string option"

type_synonym server_index = "server_record list"

text \<open>\<open>record_mut\<close>: change the first record of the address, after pushing an empty one if there is none.\<close>

fun change_first :: "string \<Rightarrow> (server_record \<Rightarrow> server_record) \<Rightarrow> server_index \<Rightarrow> server_index" where
  "change_first addr f [] = []"
| "change_first addr f (r # rs) = (if sr_addr r = addr then f r # rs else r # change_first addr f rs)"

definition new_record :: "string \<Rightarrow> server_record" where
  "new_record addr = \<lparr>sr_addr = addr, sr_name = None, sr_tier = None, sr_verdict = None, sr_username = None\<rparr>"

definition record_mut :: "string \<Rightarrow> (server_record \<Rightarrow> server_record) \<Rightarrow> server_index \<Rightarrow> server_index" where
  "record_mut addr f ix =
     change_first addr f (if \<exists>r \<in> set ix. sr_addr r = addr then ix else ix @ [new_record addr])"

definition ensure_record :: "string \<Rightarrow> server_index \<Rightarrow> server_index" where
  "ensure_record addr ix = record_mut addr (\<lambda>r. r) ix"

definition set_attest :: "string \<Rightarrow> string \<Rightarrow> string \<Rightarrow> server_index \<Rightarrow> server_index" where
  "set_attest addr verdict tier ix = record_mut addr (\<lambda>r. r\<lparr>sr_verdict := Some verdict, sr_tier := Some tier\<rparr>) ix"

definition set_username :: "string \<Rightarrow> string \<Rightarrow> server_index \<Rightarrow> server_index" where
  "set_username addr username ix = record_mut addr (\<lambda>r. r\<lparr>sr_username := Some username\<rparr>) ix"

definition set_name :: "string \<Rightarrow> string \<Rightarrow> server_index \<Rightarrow> server_index" where
  "set_name addr name ix = (if name \<noteq> [] then record_mut addr (\<lambda>r. r\<lparr>sr_name := Some name\<rparr>) ix else ix)"

definition OFFICIAL_ADDR :: string where "OFFICIAL_ADDR = ''srv.cherm.chat:9000''"
definition OFFICIAL_NAME :: string where "OFFICIAL_NAME = ''cherm.chat''"

definition seed_official :: "server_index \<Rightarrow> server_index" where
  "seed_official ix =
     (let existed = (\<exists>r \<in> set ix. sr_addr r = OFFICIAL_ADDR) in
      record_mut OFFICIAL_ADDR
        (\<lambda>r. if \<not> existed \<or> sr_name r = None then r\<lparr>sr_name := Some OFFICIAL_NAME\<rparr> else r) ix)"

definition index_ok :: "server_index \<Rightarrow> bool" where
  "index_ok ix = distinct (map sr_addr ix)"

lemma change_first_addrs: "(\<And>r :: server_record. sr_addr (f r) = sr_addr r) \<Longrightarrow> map sr_addr (change_first addr f ix) = map sr_addr ix"
  by (induction ix) auto

lemma index_ok_record_mut: "index_ok ix \<Longrightarrow> (\<And>r :: server_record. sr_addr (f r) = sr_addr r) \<Longrightarrow> index_ok (record_mut addr f ix)"
  by (auto simp: index_ok_def record_mut_def change_first_addrs new_record_def)

lemma index_ok_ops:
  "index_ok ix \<Longrightarrow> index_ok (ensure_record addr ix)" "index_ok ix \<Longrightarrow> index_ok (set_attest addr verdict tier ix)"
  "index_ok ix \<Longrightarrow> index_ok (set_username addr u ix)" "index_ok ix \<Longrightarrow> index_ok (set_name addr n ix)"
  "index_ok ix \<Longrightarrow> index_ok (seed_official ix)"
  by (simp_all add: ensure_record_def set_attest_def set_username_def set_name_def seed_official_def Let_def
      index_ok_record_mut)

end
