(* ===== verification/Session.thy ===== *)
theory Session
  imports Net Session_Util
begin

text \<open>
  The chat commands of backend/core/src/session.rs, on the active server: what each does to the vault,
  what it hands to the relay and which events it emits. One definition per handler, with its checks in
  the order of the code; an argument that is missing or refused is an error event, not an error.
\<close>

section \<open>Surroundings\<close>

text \<open>What a handler knows of the active server: the key of its vault, its address, and whether it has a link.\<close>

record sess =
  s_seal :: sealer
  s_addr :: string
  s_linked :: bool

definition as_user :: "sess \<Rightarrow> string \<Rightarrow> proc_ctx" where
  "as_user S me = \<lparr>p_seal = s_seal S, p_me = me, p_addr = s_addr S\<rparr>"

definition show_chats :: "sess \<Rightarrow> (client, unit) act" where
  "show_chats S = bnd (vget (\<lambda>v. build_chats_event v (s_addr S))) emit"

definition fail_with :: "string \<Rightarrow> string \<Rightarrow> (client, unit) act" where
  "fail_with code message = emit (err_event code message)"

text \<open>The preambles the handlers share: our name, the link, a chat of the vault.\<close>

definition with_identity :: "(string \<Rightarrow> (client, unit) act) \<Rightarrow> (client, unit) act" where
  "with_identity f = bnd (vget (\<lambda>v. meta_get v ''username'')) (\<lambda>m. case m of
       None \<Rightarrow> fail_with ''not_registered'' ''register first'' | Some me \<Rightarrow> f me)"

definition with_link :: "sess \<Rightarrow> (client, unit) act \<Rightarrow> (client, unit) act" where
  "with_link S f = (if s_linked S then f else fail_with ''not_connected'' ''not connected'')"

definition with_chat :: "string \<Rightarrow> (string \<Rightarrow> string \<Rightarrow> (client, unit) act) \<Rightarrow> (client, unit) act" where
  "with_chat chat f = bnd (vget (\<lambda>v. get_chat v chat)) (\<lambda>c. case c of
       None \<Rightarrow> fail_with ''no_such_chat'' (''unknown chat '' @ chat) | Some (kind, title) \<Rightarrow> f kind title)"

definition emit_history :: "string \<Rightarrow> int \<Rightarrow> (client, unit) act" where
  "emit_history chat limit = bnd (vget (\<lambda>v. get_messages v chat limit)) (\<lambda>ms.
     emit (HistoryEvent chat (map (\<lambda>(sender, body, ts, outgoing).
       (sender, body, ts, outgoing \<noteq> 0, sender = ''System'')) ms)))"

section \<open>Direct messages\<close>

text \<open>The session \<open>start_dm\<close> makes if there is none; the flag says whether the command goes on.\<close>

definition open_dm_session :: "world \<Rightarrow> sess \<Rightarrow> string \<Rightarrow> (client, bool) act" where
  "open_dm_session W S username =
     bnd (vget (\<lambda>v. load_olm v (s_seal S) username)) (\<lambda>sess. case sess of
         Some _ \<Rightarrow> ret True
       | None \<Rightarrow> bnd (send_and_wait W (FetchPrekeys username)) (\<lambda>reply. case reply of
           PrekeyBundle u uuid ed curve _ one_time_key \<Rightarrow> (case one_time_key of
               None \<Rightarrow> andthen (fail_with NO_PREKEYS (u @ '' has no one-time keys available'')) (ret False)
             | Some otk \<Rightarrow> bnd (accept_identity (s_seal S) u uuid ed curve) (\<lambda>ok.
                 if \<not> ok then ret False
                 else bnd (get_device (s_seal S) ''no device identity'') (\<lambda>device.
                      bnd (lift (start_session (w_vz W) device curve otk)) (\<lambda>session.
                      andthen (vput (\<lambda>v. save_olm v (s_seal S) username session)) (ret True)))))
         | ErrorMsg code message \<Rightarrow> andthen (fail_with code message) (ret False)
         | _ \<Rightarrow> andthen (fail_with ''internal'' ''unexpected prekey reply'') (ret False)))"

definition start_dm :: "world \<Rightarrow> sess \<Rightarrow> string \<Rightarrow> (client, unit) act" where
  "start_dm W S username = with_identity (\<lambda>me.
     if username = me then fail_with ''self_dm'' ''you can't start a chat with yourself''
     else with_link S (bnd (open_dm_session W S username) (\<lambda>ok.
       if \<not> ok then ret () else
       andthen (store_chat W username ''dm'' username)
       (andthen (vput (\<lambda>v. add_member v username me))
       (andthen (vput (\<lambda>v. add_member v username username))
       (bnd (vget (\<lambda>v. get_contact_ed v username)) (\<lambda>ed.
       andthen (case ed of None \<Rightarrow> ret ()
         | Some e \<Rightarrow> emit (FingerprintEvent username (safety_number (w_blake3 W) e)))
       (andthen (show_chats S)
       (andthen (emit_history username 200)
       (emit (OpenChatEvent username)))))))))))"

section \<open>Groups\<close>

fun roster_of :: "string list \<Rightarrow> string \<Rightarrow> string list \<Rightarrow> string list" where
  "roster_of acc me [] = acc"
| "roster_of acc me (m # ms) = roster_of (if m \<noteq> me \<and> m \<notin> set acc then acc @ [m] else acc) me ms"

definition create_group :: "world \<Rightarrow> sess \<Rightarrow> string \<Rightarrow> string list \<Rightarrow> string option \<Rightarrow> (client, unit) act" where
  "create_group W S name members access = with_identity (\<lambda>me.
     let mode = (case access of None \<Rightarrow> OPEN | Some m \<Rightarrow> m) in
     if \<not> access_mode_valid mode
     then fail_with ''bad_access_mode'' ''access mode must be open, approval or invite_only''
     else with_link S (
       bnd (draw (w_group_sender W)) (\<lambda>sender.
       bnd (draw (w_uuid W)) (\<lambda>gid.
       andthen (vput (\<lambda>v. save_group_out v (s_seal S) gid sender))
       (let roster = roster_of [me] me members in
       andthen (store_chat W gid ''group'' name)
       (andthen (for_each roster (\<lambda>m. vput (\<lambda>v. add_member v gid m)))
       (bnd (draw (w_rng W)) (\<lambda>rng.
       bnd (vcall (\<lambda>v. create_group_meta v gid mode me (\<lambda>i. gen_group_key (rng i)))) (\<lambda>key.
       andthen (distribute_group_key W (s_seal S) me gid name roster sender)
       (andthen (show_chats S)
       (andthen (emit (InfoEvent (''group '' @ [CHR 0x22] @ name @ [CHR 0x22] @ '' created - invite key '' @ key @
         '' (mode: '' @ mode @ '')'')))
       (emit (OpenChatEvent gid)))))))))))))"

text \<open>Our own Megolm session of a group, minted and handed to the roster when we never spoke there.\<close>

definition speaking_session ::
    "world \<Rightarrow> sess \<Rightarrow> string \<Rightarrow> string \<Rightarrow> string \<Rightarrow> (client, string list) act \<Rightarrow> (client, bytes) act" where
  "speaking_session W S me chat title members =
     bnd (vget (\<lambda>v. load_group_out v (s_seal S) chat)) (\<lambda>s. case s of
         Some sender \<Rightarrow> ret sender
       | None \<Rightarrow> bnd members (\<lambda>roster.
           bnd (draw (w_group_sender W)) (\<lambda>sender.
           andthen (vput (\<lambda>v. save_group_out v (s_seal S) chat sender))
           (andthen (distribute_group_key W (s_seal S) me chat title roster sender)
           (ret sender)))))"

section \<open>Sending and leaving\<close>

definition send_dm :: "world \<Rightarrow> sess \<Rightarrow> string \<Rightarrow> string \<Rightarrow> millis \<Rightarrow> (client, bool) act" where
  "send_dm W S peer txt now =
     bnd (vget (\<lambda>v. load_olm v (s_seal S) peer)) (\<lambda>sess. case sess of
         None \<Rightarrow> andthen (fail_with ''no_session'' ''no Olm session; start_dm first'') (ret False)
       | Some session \<Rightarrow> andthen (send_olm W (s_seal S) peer session txt ''olm'' None now) (ret True))"

definition send_group :: "world \<Rightarrow> sess \<Rightarrow> string \<Rightarrow> string \<Rightarrow> string \<Rightarrow> string \<Rightarrow> millis \<Rightarrow> (client, bool) act" where
  "send_group W S me chat title txt now =
     bnd (speaking_session W S me chat title (vget (\<lambda>v. get_members v chat))) (\<lambda>sender.
     case group_encrypt (w_vz W) sender txt of (body, sender') \<Rightarrow>
       andthen (vput (\<lambda>v. save_group_out v (s_seal S) chat sender'))
       (bnd (vget (\<lambda>v. get_members v chat)) (\<lambda>members.
       andthen (send W (SendMsg (filter (\<lambda>m. m \<noteq> me) members) ''megolm'' (b64_enc (s_seal S) body) (Some chat) now))
       (ret True))))"

definition send_text :: "world \<Rightarrow> sess \<Rightarrow> string \<Rightarrow> string \<Rightarrow> (client, unit) act" where
  "send_text W S chat txt = with_identity (\<lambda>me. with_chat chat (\<lambda>kind title. with_link S (
     bnd (now_millis W) (\<lambda>now.
     bnd (if kind = ''dm'' then send_dm W S chat txt now
          else if kind = ''group'' then send_group W S me chat title txt now
          else andthen (fail_with ''bad_request'' (''unknown chat kind '' @ kind)) (ret False)) (\<lambda>sent.
     if \<not> sent then ret () else
     andthen (store_message W chat me txt now 1)
     (emit (MessageEvent chat me txt now True False)))))))"

definition notify_dm :: "world \<Rightarrow> sess \<Rightarrow> string \<Rightarrow> millis \<Rightarrow> (client, unit) act" where
  "notify_dm W S chat now =
     bnd (vget (\<lambda>v. load_olm v (s_seal S) chat)) (\<lambda>sess. case sess of
         None \<Rightarrow> ret ()
       | Some session \<Rightarrow>
           bnd (lift (olm_encrypt (w_vz W) session ''left'')) (\<lambda>((t, body), session').
           andthen (vput (\<lambda>v. save_olm v (s_seal S) chat session'))
           (ignoring (send W (SendMsg [chat] ''olm_system'' (encode_olm (s_seal S) t body) None now)))))"

definition notify_group :: "world \<Rightarrow> sess \<Rightarrow> string \<Rightarrow> string \<Rightarrow> string \<Rightarrow> millis \<Rightarrow> (client, unit) act" where
  "notify_group W S me chat title now =
     bnd (vget (\<lambda>v. get_members v chat)) (\<lambda>members.
     bnd (speaking_session W S me chat title (ret members)) (\<lambda>sender.
     case group_encrypt (w_vz W) sender ''left'' of (body, sender') \<Rightarrow>
       andthen (vput (\<lambda>v. save_group_out v (s_seal S) chat sender'))
       (ignoring (send W (SendMsg (filter (\<lambda>m. m \<noteq> me) members) ''megolm_system''
          (b64_enc (s_seal S) body) (Some chat) now)))))"

definition leave_chat :: "world \<Rightarrow> sess \<Rightarrow> string \<Rightarrow> (client, unit) act" where
  "leave_chat W S chat = with_identity (\<lambda>me. with_chat chat (\<lambda>kind title.
     bnd (now_millis W) (\<lambda>now.
     if kind \<noteq> ''dm'' \<and> kind \<noteq> ''group''
     then fail_with ''bad_request'' (''unknown chat kind '' @ kind)
     else
       andthen (if \<not> s_linked S then ret ()
                else if kind = ''dm'' then notify_dm W S chat now else notify_group W S me chat title now)
       (andthen (vput (\<lambda>v. delete_chat v chat))
       (andthen (show_chats S)
       (emit (InfoEvent (''left '' @ chat @ (if s_linked S then [] else '' (offline - peers not notified)'')))))))))"

section \<open>Group access control\<close>

text \<open>\<open>group_owner_ctx\<close>: the preamble of the commands only the recorded owner may give.\<close>

definition as_owner :: "sess \<Rightarrow> string \<Rightarrow> (string \<Rightarrow> (client, unit) act) \<Rightarrow> (client, unit) act" where
  "as_owner S gid f = with_identity (\<lambda>me. with_link S (
     bnd (vget (\<lambda>v. get_group_meta v gid)) (\<lambda>m. case m of
         None \<Rightarrow> fail_with ''no_such_group'' ''no such group (open the group first)''
       | Some g \<Rightarrow> if owner g = [] \<or> owner g \<noteq> me
           then fail_with ''not_owner'' ''only the group owner can do that'' else f me)))"

definition rekey_group :: "world \<Rightarrow> sess \<Rightarrow> string \<Rightarrow> string \<Rightarrow> (client, unit) act" where
  "rekey_group W S me gid =
     bnd (draw (w_group_sender W)) (\<lambda>sender.
     andthen (vput (\<lambda>v. save_group_out v (s_seal S) gid sender))
     (bnd (vget (\<lambda>v. get_members v gid)) (\<lambda>roster.
     bnd (chat_title gid) (\<lambda>name.
     distribute_group_key W (s_seal S) me gid name roster sender))))"

text \<open>
  Remove, ban and suspend share this: tell everyone with the current key, drop the target, rotate the key.
\<close>

definition moderate ::
    "world \<Rightarrow> sess \<Rightarrow> string \<Rightarrow> string \<Rightarrow> string \<Rightarrow> string \<Rightarrow> millis option \<Rightarrow> (client, unit) act" where
  "moderate W S gid me username kind until_ts =
     bnd (chat_title gid) (\<lambda>name.
     andthen (broadcast_group_event W (s_seal S) me gid name
       \<lparr>ge_kind = kind, ge_who = username, ge_mode = None, ge_until = until_ts\<rparr>)
     (andthen (vput (\<lambda>v. remove_member v gid username))
     (andthen (vput (\<lambda>v. delete_group_in v gid username))
     (andthen (rekey_group W S me gid)
     (bnd (now_millis W) (\<lambda>now.
     andthen (system_line W gid (group_event_text kind username []) now)
     (emit (InfoEvent (username @ '' '' @ kind)))))))))"

definition cmd_set_access :: "world \<Rightarrow> sess \<Rightarrow> string \<Rightarrow> string \<Rightarrow> (client, unit) act" where
  "cmd_set_access W S gid mode =
     (if \<not> access_mode_valid mode
      then fail_with ''bad_access_mode'' ''access mode must be open, approval or invite_only''
      else as_owner S gid (\<lambda>me.
        andthen (vput (\<lambda>v. set_access_mode v gid mode))
        (bnd (chat_title gid) (\<lambda>name.
        andthen (broadcast_group_event W (s_seal S) me gid name
          \<lparr>ge_kind = ''access'', ge_who = [], ge_mode = Some mode, ge_until = None\<rparr>)
        (bnd (now_millis W) (\<lambda>now.
        andthen (system_line W gid (group_event_text ''access'' [] mode) now)
        (emit (InfoEvent (''access mode set to '' @ mode)))))))))"

definition join_group :: "world \<Rightarrow> sess \<Rightarrow> string \<Rightarrow> string \<Rightarrow> string \<Rightarrow> (client, unit) act" where
  "join_group W S gid key own = with_identity (\<lambda>me.
     if \<not> valid_group_key key then fail_with ''bad_key'' ''invalid group key (8 letters/digits)''
     else if own = me then fail_with ''self_join'' ''you are the owner of that group''
     else with_link S (
       andthen (send_olm_control W (s_seal S) own GROUP_JOIN gid
         (join_bytes (w_codec W) \<lparr>jr_group_id = gid, jr_group_key = key\<rparr>))
       (emit (InfoEvent (''join request sent to '' @ own @ '' - you'll be added if accepted'')))))"

text \<open>The checks before a user is let in, and letting in.\<close>

definition unless_banned :: "string \<Rightarrow> string \<Rightarrow> (client, unit) act \<Rightarrow> (client, unit) act" where
  "unless_banned gid username f = bnd (vget (\<lambda>v. is_banned v gid username)) (\<lambda>banned.
     if banned then fail_with ''banned'' (username @ '' is banned from this group'') else f)"

definition unless_suspended ::
    "world \<Rightarrow> string \<Rightarrow> string \<Rightarrow> string \<Rightarrow> (millis \<Rightarrow> (client, unit) act) \<Rightarrow> (client, unit) act" where
  "unless_suspended W gid username what f =
     bnd (now_millis W) (\<lambda>now.
     bnd (vcall (\<lambda>v. is_suspended v gid username now)) (\<lambda>suspended.
     if suspended then fail_with ''suspended'' (username @ '' is suspended; /unsuspend first to '' @ what)
     else f now))"

definition invite_member :: "world \<Rightarrow> sess \<Rightarrow> string \<Rightarrow> string \<Rightarrow> (client, unit) act" where
  "invite_member W S gid username = as_owner S gid (\<lambda>me.
     if username = me then fail_with ''bad_request'' ''you are already in the group''
     else unless_banned gid username (unless_suspended W gid username ''add them back early'' (\<lambda>now.
       andthen (admit_member W (as_user S me) gid username now)
       (emit (InfoEvent (''invited '' @ username))))))"

definition accept_member :: "world \<Rightarrow> sess \<Rightarrow> string \<Rightarrow> string \<Rightarrow> (client, unit) act" where
  "accept_member W S gid username = as_owner S gid (\<lambda>me.
     bnd (vget (\<lambda>v. has_join_request v gid username)) (\<lambda>asked.
     if \<not> asked then fail_with ''no_request'' (''no pending join request from '' @ username)
     else unless_banned gid username (unless_suspended W gid username ''admit them early'' (\<lambda>now.
       andthen (admit_member W (as_user S me) gid username now)
       (emit (InfoEvent (''accepted '' @ username)))))))"

definition cmd_remove_member :: "world \<Rightarrow> sess \<Rightarrow> string \<Rightarrow> string \<Rightarrow> (client, unit) act" where
  "cmd_remove_member W S gid username = as_owner S gid (\<lambda>me.
     if username = me then fail_with ''bad_request'' ''you can't remove yourself; leave the group''
     else moderate W S gid me username ''removed'' None)"

definition ban_member :: "world \<Rightarrow> sess \<Rightarrow> string \<Rightarrow> string \<Rightarrow> (client, unit) act" where
  "ban_member W S gid username = as_owner S gid (\<lambda>me.
     if username = me then fail_with ''bad_request'' ''you can't ban yourself''
     else bnd (now_millis W) (\<lambda>now.
       andthen (vput (\<lambda>v. ban_user v gid username now))
       (moderate W S gid me username ''banned'' None)))"

definition unban_member :: "sess \<Rightarrow> string \<Rightarrow> string \<Rightarrow> (client, unit) act" where
  "unban_member S gid username = as_owner S gid (\<lambda>me.
     bnd (vget (\<lambda>v. is_banned v gid username)) (\<lambda>banned.
     if \<not> banned then fail_with ''not_banned'' (username @ '' is not banned'')
     else andthen (vput (\<lambda>v. unban_user v gid username)) (emit (InfoEvent (''unbanned '' @ username)))))"

definition unsuspend_member :: "sess \<Rightarrow> string \<Rightarrow> string \<Rightarrow> (client, unit) act" where
  "unsuspend_member S gid username = as_owner S gid (\<lambda>me.
     bnd (vget (\<lambda>v. suspended_until v gid username)) (\<lambda>t. case t of
         None \<Rightarrow> fail_with ''not_suspended'' (username @ '' is not suspended'')
       | Some _ \<Rightarrow> andthen (vput (\<lambda>v. clear_suspension v gid username))
           (emit (InfoEvent (''unsuspended '' @ username)))))"

text \<open>The deadline is an \<open>i64\<close> sum, which wraps around in a release build.\<close>

definition suspend_member :: "world \<Rightarrow> sess \<Rightarrow> string \<Rightarrow> string \<Rightarrow> string \<Rightarrow> (client, unit) act" where
  "suspend_member W S gid username duration = as_owner S gid (\<lambda>me.
     if username = me then fail_with ''bad_request'' ''you can't suspend yourself''
     else (case parse_duration duration of
         None \<Rightarrow> fail_with ''bad_duration'' ''duration must look like 30s, 10m, 2h or 1d''
       | Some dur_ms \<Rightarrow>
           if dur_ms \<le> 0 then fail_with ''bad_duration'' ''duration must look like 30s, 10m, 2h or 1d''
           else bnd (now_millis W) (\<lambda>now.
             let until_ts = wrap_i64 (now + dur_ms) in
             andthen (vput (\<lambda>v. suspend_user v gid username until_ts))
             (moderate W S gid me username ''suspended'' (Some until_ts)))))"

section \<open>Looking\<close>

fun join_with :: "string \<Rightarrow> string list \<Rightarrow> string" where
  "join_with sep [] = []"
| "join_with sep [x] = x"
| "join_with sep (x # xs) = x @ sep @ join_with sep xs"

text \<open>The separator dot of the message is written \<open>-\<close> here.\<close>

definition group_info :: "sess \<Rightarrow> string \<Rightarrow> (client, unit) act" where
  "group_info S gid =
     bnd (vget (\<lambda>v. meta_get v ''username'')) (\<lambda>name.
     let me = (case name of None \<Rightarrow> [] | Some m \<Rightarrow> m) in
     bnd (vget (\<lambda>v. get_group_meta v gid)) (\<lambda>m. case m of
         None \<Rightarrow> fail_with ''no_such_group'' ''no such group (open a group first)''
       | Some g \<Rightarrow>
           (let am_owner = owned_by (Some g) me;
                msg = ''group: '' @ group_id g @ ''  -  invite key: '' @ group_key g @ ''  -  mode: '' @ access_mode g
                  @ ''  -  owner: '' @ (if owner g = [] then ''(unknown)'' else owner g);
                share = ''  -  share: /join '' @ group_id g @ '' '' @ group_key g @ '' '' @ me in
            if \<not> am_owner then emit (InfoEvent msg)
            else bnd (vget (\<lambda>v. list_join_requests v gid)) (\<lambda>pending.
                 bnd (vget (\<lambda>v. list_bans v gid)) (\<lambda>bans.
                 emit (InfoEvent (msg @ share
                   @ (if pending = [] then [] else ''  -  pending: '' @ join_with '', '' pending)
                   @ (if bans = [] then [] else ''  -  banned: '' @ join_with '', '' bans))))))))"

text \<open>The clock of the round trip is read before and after; \<open>as_millis\<close> of the monotonic clock.\<close>

definition ping :: "world \<Rightarrow> sess \<Rightarrow> (client, unit) act" where
  "ping W S = with_link S (
     bnd (now_millis W) (\<lambda>start.
     bnd (send_and_wait W Ping) (\<lambda>reply.
     bnd (now_millis W) (\<lambda>stop. case reply of
         Pong \<Rightarrow> emit (PongEvent (max 0 (stop - start)) (s_addr S))
       | _ \<Rightarrow> fail_with ''internal'' ''unexpected ping reply''))))"

section \<open>Commands\<close>

text \<open>The commands of ipc.rs that the active server's chats answer, and their dispatch.\<close>

datatype chat_command =
    ListChats
  | History string "int option"
  | StartDm string
  | CreateGroup string "string list" "string option"
  | SetAccess string string
  | JoinGroup string string string
  | InviteMember string string
  | AcceptMember string string
  | RemoveMember string string
  | BanMember string string
  | UnbanMember string string
  | UnsuspendMember string string
  | SuspendMember string string string
  | GroupInfo string
  | SendText string string
  | LeaveChat string
  | PingServer

fun run_chat :: "world \<Rightarrow> sess \<Rightarrow> chat_command \<Rightarrow> (client, unit) act" where
  "run_chat W S ListChats = show_chats S"
| "run_chat W S (History chat limit) = emit_history chat (case limit of None \<Rightarrow> 200 | Some n \<Rightarrow> n)"
| "run_chat W S (StartDm username) = start_dm W S username"
| "run_chat W S (CreateGroup name members access) = create_group W S name members access"
| "run_chat W S (SetAccess gid mode) = cmd_set_access W S gid mode"
| "run_chat W S (JoinGroup gid key own) = join_group W S gid key own"
| "run_chat W S (InviteMember gid username) = invite_member W S gid username"
| "run_chat W S (AcceptMember gid username) = accept_member W S gid username"
| "run_chat W S (RemoveMember gid username) = cmd_remove_member W S gid username"
| "run_chat W S (BanMember gid username) = ban_member W S gid username"
| "run_chat W S (UnbanMember gid username) = unban_member S gid username"
| "run_chat W S (UnsuspendMember gid username) = unsuspend_member S gid username"
| "run_chat W S (SuspendMember gid username duration) = suspend_member W S gid username duration"
| "run_chat W S (GroupInfo gid) = group_info S gid"
| "run_chat W S (SendText chat txt) = send_text W S chat txt"
| "run_chat W S (LeaveChat chat) = leave_chat W S chat"
| "run_chat W S PingServer = ping W S"

text \<open>The main loop's treatment of a command that fails.\<close>

definition run_reporting :: "world \<Rightarrow> sess \<Rightarrow> chat_command \<Rightarrow> (client, unit) act" where
  "run_reporting W S cmd c = (case run_chat W S cmd c of
       (Inl e, c') \<Rightarrow> emit (err_event ''internal'' e) c'
     | (Inr _, c') \<Rightarrow> (Inr (), c'))"

end
