(* ===== verification/End_To_End.thy ===== *)
theory End_To_End
  imports Server_Delivery Net_Link Net_Trust Session
begin

text \<open>
  A message on its whole way: from the sender's command over the relay to the recipient's reader,
  vault and screen. The pieces are the models of session.rs, conn.rs and net.rs; the two clients and the relay
  share nothing but the messages.
\<close>

section \<open>The way of a message\<close>

text \<open>The relay has \<open>m\<close> for \<open>u\<close>: last in the channel of \<open>u\<close>'s connection, or as the last stored frame.\<close>

definition passed_on :: "prims \<Rightarrow> relay \<Rightarrow> relay \<Rightarrow> string \<Rightarrow> server_msg \<Rightarrow> bool" where
  "passed_on P r r' u m =
     ((\<exists>k. map_of (r_online r) u = Some k \<and> queue_of r' k = queue_of r k @ [m]) \<or>
      (\<exists>f. from_json P f = Some m \<and> frames_of r' u = frames_of r u @ [f]))"

text \<open>The reader puts \<open>inc\<close> into the queue for it.\<close>

definition read_as :: "string \<Rightarrow> link \<Rightarrow> server_msg \<Rightarrow> incoming \<Rightarrow> bool" where
  "read_as addr l m inc = (reader_step addr (Msg m) l = Some (l\<lparr>l_queue := l_queue l @ [inc]\<rparr>))"

text \<open>Processing \<open>inc\<close> succeeds, stores one message with this text in the chat, and shows it.\<close>

definition shown_as :: "world \<Rightarrow> proc_ctx \<Rightarrow> incoming \<Rightarrow> client \<Rightarrow> string \<Rightarrow> string \<Rightarrow> string \<Rightarrow> millis \<Rightarrow> bool" where
  "shown_as W X inc b chat sender txt ts =
     (\<exists>b' n recv. process_one W X inc b = (Inr (), b') \<and>
        messages (c_vault b') = messages (c_vault b) @ [\<lparr>m_id = n, m_chat = chat, m_sender = sender, m_body = txt,
          m_ts = ts, m_outgoing = 0, m_recv_ts = recv\<rparr>] \<and>
        MessageEvent chat sender txt ts False False \<in> set (c_events b'))"

lemma relay_passes_on:
  assumes "reachable P cfg d r" and "db_ok P d" and "json_roundtrip P" and "db_up (r_db r)"
    and "r_conns r i = Some cn" and "cn_authed cn = Some s" and "fst (allow (cn_send_limiter cn) (e_instant env))"
    and "length pl \<le> MAX_PAYLOAD" and "length recipients \<le> MAX_RECIPIENTS"
    and "to_json P (Deliver s recipients ty pl g (e_now env) cts) = Some f"
    and "u \<in> set recipients" "u \<noteq> s" "registered (r_db r) u" and "direct r u \<or> outbox_has_room (r_db r) u f"
  shows "passed_on P r (handle_frame P cfg env i (Frame (SendMsg recipients ty pl g cts)) r) u
    (Deliver s recipients ty pl g (e_now env) cts)"
proof (cases "direct r u")
  case True
  then obtain k where k: "map_of (r_online r) u = Some k" by (auto simp: direct_def split: option.splits)
  show ?thesis
    using handle_send_effect(1) [OF reachable_inv [OF assms(1-3)] assms(4-9) refl assms(10) refl assms(11-13)]
      queue_served [OF k] k True
    unfolding passed_on_def by auto
next
  case False
  then show ?thesis
    using handle_send_effect(1) [OF reachable_inv [OF assms(1-3)] assms(4-9) refl assms(10) refl assms(11-13)] assms(3,10,14)
    unfolding passed_on_def json_roundtrip_def by auto
qed

lemma reader_takes:
  assumes "l_reading l" and "length (l_queue l) < IN_QUEUE" and "length pl \<le> MAX_PAYLOAD"
  shows "read_as addr l (Deliver s tos ty pl g sts ts) (to_incoming s ty pl g ts)"
  using assms by (simp add: read_as_def reader_step_def)

section \<open>Direct messages\<close>

lemma send_dm_sends:
  assumes "send_dm W S peer txt now c = (Inr True, c')" and "load_olm (c_vault c) (s_seal S) peer = Inr (Some session)"
    and "olm_encrypt (w_vz W) session txt = Inr ((t, body), session')"
  shows "c_sent c' = c_sent c @ [SendMsg [peer] ''olm'' (encode_olm (s_seal S) t body) None now]"
  using assms
  by (auto simp: send_dm_def bnd_ok andthen_def vget_def lift_def send_olm_def vput_def send_def draw_def modify_def
      raise_def ret_def split: if_splits sum.splits)

lemma shows_dm:
  assumes "parse_olm (p_seal X) pl = Inr (t, body)" and "load_olm (c_vault b) (p_seal X) frm = Inr (Some session)"
    and "olm_decrypt (w_vz W) session t body = Inr (txt, session')" and "to_pickle_encrypted (p_seal X) session' = Inr blob"
    and "utf8_valid txt" and "v_up (c_vault b)"
  shows "shown_as W X (to_incoming frm ''olm'' pl None ts) b frm frm txt ts"
  using assms
  by (auto simp: shown_as_def process_one_def to_incoming_def obtain_olm_plaintext_def Let_def bnd_def andthen_def lift_def
      vget_def vput_def save_olm_def deliver_dm_text_def from_utf8_def chat_exists_def store_chat_def store_message_def
      now_millis_def draw_def upsert_chat_def add_member_def insert_message_def ret_def emit_chats_def
      build_chats_event_def list_chats_def emit_def modify_def get_contact_ed_def split: option.splits)

text \<open>C4: A direct message arrives. If the sender's command succeeds, the relay has the sender logged in under
  its name and the peer registered and reachable (a channel with room, or room in the queue), and the two
  ratchets fit, then the frame the command sent is passed on to the peer under the authenticated name,
  the peer's reader queues it, and processing it stores and shows exactly the text, in the chat of
  the sender and with the sender's time.\<close>

theorem direct_message_arrives:
  assumes "send_dm W S peer txt now c = (Inr True, c')" and "load_olm (c_vault c) (s_seal S) peer = Inr (Some session)"
    and "olm_encrypt (w_vz W) session txt = Inr ((t, body), session')" and "pl = encode_olm (s_seal S) t body"
    and "reachable P cfg d r" and "db_ok P d" and "json_roundtrip P" and "db_up (r_db r)"
    and "r_conns r i = Some cn" and "cn_authed cn = Some me" and "fst (allow (cn_send_limiter cn) (e_instant env))"
    and "length pl \<le> MAX_PAYLOAD" and "to_json P (Deliver me [peer] ''olm'' pl None (e_now env) now) = Some f"
    and "peer \<noteq> me" "registered (r_db r) peer" and "direct r peer \<or> outbox_has_room (r_db r) peer f"
    and "l_reading l" and "length (l_queue l) < IN_QUEUE"
    and "load_olm (c_vault b) (p_seal X) me = Inr (Some theirs)" and "t < 256"
    and "b64_dec (p_seal X) (b64_enc (s_seal S) body) = Inr body" and "olm_decrypt (w_vz W') theirs t body = Inr (txt, theirs')"
    and "to_pickle_encrypted (p_seal X) theirs' = Inr blob" and "utf8_valid txt" and "v_up (c_vault b)"
  shows "\<exists>m inc. passed_on P r (handle_frame P cfg env i (Frame (last (c_sent c'))) r) peer m \<and> read_as addr l m inc \<and>
    shown_as W' X inc b me me txt now"
proof -
  have sent: "last (c_sent c') = SendMsg [peer] ''olm'' pl None now"
    unfolding send_dm_sends [OF assms(1-3)] assms(4) by simp
  have "encode_olm (s_seal S) t body = encode_olm ((p_seal X)\<lparr>b64_enc := b64_enc (s_seal S)\<rparr>) t body"
    by (simp add: encode_olm_def)
  moreover have dec: "b64_dec ((p_seal X)\<lparr>b64_enc := b64_enc (s_seal S)\<rparr>) = b64_dec (p_seal X)" by simp
  have "parse_olm (p_seal X) q = parse_olm ((p_seal X)\<lparr>b64_enc := b64_enc (s_seal S)\<rparr>) q" for q
    unfolding parse_olm_def dec ..
  ultimately have parsed: "parse_olm (p_seal X) pl = Inr (t, body)"
    using olm_payload_roundtrip [of "(p_seal X)\<lparr>b64_enc := b64_enc (s_seal S)\<rparr>" body t] assms(4,20,21) by simp
  show ?thesis
    unfolding sent
    using relay_passes_on [OF assms(5-12) _ assms(13) _ assms(14-16)] reader_takes [OF assms(17,18,12)]
      shows_dm [OF parsed assms(19,22-25)]
    by (intro exI conjI) (auto simp: MAX_RECIPIENTS_def)
qed

section \<open>Group messages\<close>

lemma send_group_sends:
  assumes "send_group W S me chat title txt now c = (Inr True, c')"
    and "load_group_out (c_vault c) (s_seal S) chat = Inr (Some sender)" and "group_encrypt (w_vz W) sender txt = (body, sender')"
    and "get_members (c_vault c) chat = Inr members"
  shows "c_sent c' = c_sent c @ [SendMsg (filter (\<lambda>m. m \<noteq> me) members) ''megolm'' (b64_enc (s_seal S) body) (Some chat) now]"
  using assms
  by (auto simp: send_group_def speaking_session_def save_group_out_def get_members_def res_bind_Inr_iff bnd_ok andthen_def
      vget_def lift_def vput_def send_def draw_def modify_def raise_def ret_def split: if_splits sum.splits)

lemma shows_group:
  assumes "load_group_in (c_vault b) (p_seal X) chat frm = Inr (Some receiver)" and "b64_dec (p_seal X) pl = Inr body"
    and "group_decrypt (w_vz W) receiver body = Inr ((txt, idx), receiver')"
    and "megolm_accept (c_vault b) chat frm (vz_group_session_id (w_vz W) receiver') idx = Inr (True, v)"
    and "to_pickle_encrypted (p_seal X) receiver' = Inr blob" and "utf8_valid txt" and "v_up (c_vault b)"
  shows "shown_as W X (to_incoming frm ''megolm'' pl (Some chat) ts) b chat frm txt ts"
proof -
  have v: "v_up v" "messages v = messages (c_vault b)" "next_message_id v = next_message_id (c_vault b)"
    using assms(4,7) by (auto simp: megolm_accept_def Let_def res_bind_Inr_iff split: if_splits option.splits)
  show ?thesis
    using assms v
    by (auto simp: shown_as_def process_one_def to_incoming_def need_group_def process_megolm_def megolm_open_def
        megolm_fresh_def Let_def bnd_def andthen_def lift_def vget_def vput_def vcall_def save_group_in_def from_utf8_def
        store_message_def now_millis_def draw_def insert_message_def ret_def emit_def modify_def)
qed

text \<open>C11: A group message arrives at each member. If a member speaks in a group with the Megolm session it
  handed out before, every other member of its roster that the relay knows and can serve gets the frame under
  the sender's authenticated name; a member that holds the sender's session, and has not seen an index as
  high of it, stores and shows exactly the text in the group's chat.\<close>

theorem group_message_arrives:
  assumes "send_group W S me chat title txt now c = (Inr True, c')"
    and "load_group_out (c_vault c) (s_seal S) chat = Inr (Some sender)" and "group_encrypt (w_vz W) sender txt = (body, sender')"
    and "get_members (c_vault c) chat = Inr members" and "tos = filter (\<lambda>m. m \<noteq> me) members" and "length tos \<le> MAX_RECIPIENTS"
    and "pl = b64_enc (s_seal S) body"
    and "reachable P cfg d r" and "db_ok P d" and "json_roundtrip P" and "db_up (r_db r)"
    and "r_conns r i = Some cn" and "cn_authed cn = Some me" and "fst (allow (cn_send_limiter cn) (e_instant env))"
    and "length pl \<le> MAX_PAYLOAD" and "to_json P (Deliver me tos ''megolm'' pl (Some chat) (e_now env) now) = Some f"
    and "peer \<in> set members" and "peer \<noteq> me" "registered (r_db r) peer" and "direct r peer \<or> outbox_has_room (r_db r) peer f"
    and "l_reading l" and "length (l_queue l) < IN_QUEUE"
    and "load_group_in (c_vault b) (p_seal X) chat me = Inr (Some theirs)" and "b64_dec (p_seal X) pl = Inr body"
    and "group_decrypt (w_vz W') theirs body = Inr ((txt, idx), theirs')"
    and "megolm_accept (c_vault b) chat me (vz_group_session_id (w_vz W') theirs') idx = Inr (True, v)"
    and "to_pickle_encrypted (p_seal X) theirs' = Inr blob" and "utf8_valid txt" and "v_up (c_vault b)"
  shows "\<exists>m inc. passed_on P r (handle_frame P cfg env i (Frame (last (c_sent c'))) r) peer m \<and> read_as addr l m inc \<and>
    shown_as W' X inc b chat me txt now"
proof -
  have sent: "last (c_sent c') = SendMsg tos ''megolm'' pl (Some chat) now"
    unfolding send_group_sends [OF assms(1-4)] assms(5,7) by simp
  have "peer \<in> set tos" using assms(5,17,18) by simp
  then show ?thesis
    unfolding sent
    using relay_passes_on [OF assms(8-15,6,16) _ assms(18-20)] reader_takes [OF assms(21,22,15)]
      shows_group [OF assms(23-29)]
    by (intro exI conjI)
qed

section \<open>Two clients and a relay\<close>

text \<open>\<open>amy\<close> and \<open>bob\<close> are logged in; she has written \<open>hi\<close> to him and to their group.\<close>

definition dm_frame :: server_msg where
  "dm_frame = Deliver ''amy'' [''bob''] ''olm'' (encode_olm demo_seal 1 ''hi'') None 5 4"

definition group_frame :: server_msg where
  "group_frame = Deliver ''amy'' [''bob''] ''megolm'' ''0hi'' (Some ''g'') 5 4"

definition chat_prims :: prims where
  "chat_prims = demo_prims\<lparr>
     to_json := (\<lambda>m. if m = old_msg then Some ''O'' else if m = dm_frame then Some ''D'' else if m = group_frame then Some ''G'' else None),
     from_json := (\<lambda>f. if f = ''O'' then Some old_msg else if f = ''D'' then Some dm_frame else if f = ''G'' then Some group_frame
       else None)\<rparr>"

definition chat_relay :: relay where
  "chat_relay = the (run_events chat_prims default_config (take 6 demo_events) (init_relay demo_db))"

definition chat_world :: world where
  "chat_world = demo_world\<lparr>w_vz := demo_vz\<lparr>vz_group_encrypt := (\<lambda>g p. (CHR ''0'' # p, g))\<rparr>\<rparr>"

definition amy :: client where
  "amy = \<lparr>c_vault = empty_vault\<lparr>olm_sessions := [(''bob'', ''S'')], group_out := [(''g'', ''K'')],
     chat_members := [(''g'', ''amy''), (''g'', ''bob'')]\<rparr>, c_events = [], c_sent = [], c_tick = 0\<rparr>"

definition bob :: client where
  "bob = \<lparr>c_vault = empty_vault\<lparr>olm_sessions := [(''amy'', ''S'')], group_in := [((''g'', ''amy''), ''K'')]\<rparr>,
     c_events = [], c_sent = [], c_tick = 0\<rparr>"

definition amys_server :: sess where
  "amys_server = \<lparr>s_seal = demo_seal, s_addr = ''h:1'', s_linked = True\<rparr>"

lemma chat_frames_differ: "old_msg \<noteq> dm_frame" "old_msg \<noteq> group_frame" "dm_frame \<noteq> group_frame"
  by (simp_all add: old_msg_def dm_frame_def group_frame_def OLM_def)

lemma chat_json: "json_roundtrip chat_prims"
  using chat_frames_differ by (auto simp: json_roundtrip_def chat_prims_def)

lemma chat_db_ok: "db_ok chat_prims demo_db"
proof -
  have "frame_ok chat_prims demo_db u ''O'' = frame_ok demo_prims demo_db u ''O''" for u
    by (simp add: frame_ok_def chat_prims_def demo_prims_def)
  moreover have "valid_pubkey_b64 chat_prims = valid_pubkey_b64 demo_prims"
    by (rule ext) (simp add: valid_pubkey_b64_def chat_prims_def)
  ultimately show ?thesis using demo_db_ok by (simp add: db_ok_def demo_db_def)
qed

lemma chat_relay_reachable: "reachable chat_prims default_config demo_db chat_relay"
proof -
  have "run_events chat_prims default_config (take 6 demo_events) (init_relay demo_db) \<noteq> None"
    by (simp add: demo_eval chat_prims_def)
  then show ?thesis
    by (intro run_events_reachable [OF reachable.start]) (auto simp: chat_relay_def)
qed

lemma chat_amy: "\<exists>cn. r_conns chat_relay 0 = Some cn \<and> cn_authed cn = Some ''amy'' \<and> fst (allow (cn_send_limiter cn) (e_instant demo_env))"
  by (simp add: chat_relay_def chat_prims_def demo_eval)

lemma chat_bob: "registered (r_db chat_relay) ''bob''" "db_up (r_db chat_relay)" "direct chat_relay ''bob''"
  by (simp_all add: chat_relay_def chat_prims_def demo_eval registered_def direct_def accepts_def)

lemma amy_sends:
  "\<exists>c'. send_dm chat_world amys_server ''bob'' ''hi'' 4 amy = (Inr True, c')"
  "\<exists>c'. send_group chat_world amys_server ''amy'' ''g'' ''t'' ''hi'' 4 amy = (Inr True, c')"
  by (simp_all add: send_dm_def send_group_def send_olm_def speaking_session_def chat_world_def amys_server_def amy_def demo_defs
      load_olm_def load_group_out_def open_row_def save_olm_def save_group_out_def get_members_def olm_encrypt_def group_encrypt_def
      map_err_def act_defs vget_def vput_def send_def draw_def)

theorem direct_message_arrives_witness:
  "\<exists>c' m inc. send_dm chat_world amys_server ''bob'' ''hi'' 4 amy = (Inr True, c') \<and>
    passed_on chat_prims chat_relay (handle_frame chat_prims default_config demo_env 0 (Frame (last (c_sent c'))) chat_relay) ''bob'' m \<and>
    read_as ''h:1'' open_link m inc \<and> shown_as demo_world \<lparr>p_seal = demo_seal, p_me = ''bob'', p_addr = ''h:1''\<rparr> inc bob ''amy'' ''amy'' ''hi'' 4"
proof -
  obtain c' where sent: "send_dm chat_world amys_server ''bob'' ''hi'' 4 amy = (Inr True, c')" using amy_sends by blast
  obtain cn where cn: "r_conns chat_relay 0 = Some cn" "cn_authed cn = Some ''amy''"
    "fst (allow (cn_send_limiter cn) (e_instant demo_env))" using chat_amy by blast
  have ends: "load_olm (c_vault amy) (s_seal amys_server) ''bob'' = Inr (Some ''S'')"
    "olm_encrypt (w_vz chat_world) ''S'' ''hi'' = Inr ((1, ''hi''), ''S'')"
    "load_olm (c_vault bob) demo_seal ''amy'' = Inr (Some ''S'')" "olm_decrypt (w_vz demo_world) ''S'' 1 ''hi'' = Inr (''hi'', ''S'')"
    "v_up (c_vault bob)"
    by (simp_all add: amy_def bob_def amys_server_def chat_world_def demo_defs load_olm_def open_row_def olm_encrypt_def
        olm_decrypt_def map_err_def)
  have size: "length (encode_olm demo_seal 1 ''hi'') \<le> MAX_PAYLOAD"
    by (simp add: encode_olm_def demo_seal_def show_nat.simps MAX_PAYLOAD_def)
  have ser: "to_json chat_prims (Deliver ''amy'' [''bob''] ''olm'' (encode_olm demo_seal 1 ''hi'') None (e_now demo_env) 4) = Some ''D''"
    using chat_frames_differ by (simp add: chat_prims_def dm_frame_def demo_env_def)
  show ?thesis
    using sent direct_message_arrives [OF sent ends(1,2) refl chat_relay_reachable chat_db_ok chat_json chat_bob(2) cn _ _ _ chat_bob(1),
        of "''D''" open_link bob "\<lparr>p_seal = demo_seal, p_me = ''bob'', p_addr = ''h:1''\<rparr>" "''S''" demo_world "''S''" "''S''" "''h:1''"]
      size ser chat_bob(3) ends(3-5)
    by (simp add: amys_server_def open_link_def IN_QUEUE_def demo_seal_def)
qed

theorem group_message_arrives_witness:
  "\<exists>c' m inc. send_group chat_world amys_server ''amy'' ''g'' ''t'' ''hi'' 4 amy = (Inr True, c') \<and>
    passed_on chat_prims chat_relay (handle_frame chat_prims default_config demo_env 0 (Frame (last (c_sent c'))) chat_relay) ''bob'' m \<and>
    read_as ''h:1'' open_link m inc \<and> shown_as demo_world \<lparr>p_seal = demo_seal, p_me = ''bob'', p_addr = ''h:1''\<rparr> inc bob ''g'' ''amy'' ''hi'' 4"
proof -
  obtain c' where sent: "send_group chat_world amys_server ''amy'' ''g'' ''t'' ''hi'' 4 amy = (Inr True, c')" using amy_sends by blast
  obtain cn where cn: "r_conns chat_relay 0 = Some cn" "cn_authed cn = Some ''amy''"
    "fst (allow (cn_send_limiter cn) (e_instant demo_env))" using chat_amy by blast
  have ends: "load_group_out (c_vault amy) (s_seal amys_server) ''g'' = Inr (Some ''K'')"
    "group_encrypt (w_vz chat_world) ''K'' ''hi'' = (''0hi'', ''K'')" "get_members (c_vault amy) ''g'' = Inr [''amy'', ''bob'']"
    "load_group_in (c_vault bob) demo_seal ''g'' ''amy'' = Inr (Some ''K'')"
    "group_decrypt (w_vz demo_world) ''K'' ''0hi'' = Inr ((''hi'', 48), ''K'')"
    "\<exists>v. megolm_accept (c_vault bob) ''g'' ''amy'' (vz_group_session_id (w_vz demo_world) ''K'') 48 = Inr (True, v)" "v_up (c_vault bob)"
    by (simp_all add: amy_def bob_def amys_server_def chat_world_def demo_defs load_group_out_def load_group_in_def open_row_def
        group_encrypt_def group_decrypt_def get_members_def megolm_accept_def map_err_def Let_def)
  obtain v where v: "megolm_accept (c_vault bob) ''g'' ''amy'' (vz_group_session_id (w_vz demo_world) ''K'') 48 = Inr (True, v)"
    using ends(6) by blast
  have ser: "to_json chat_prims (Deliver ''amy'' [''bob''] ''megolm'' ''0hi'' (Some ''g'') (e_now demo_env) 4) = Some ''G''"
    using chat_frames_differ by (simp add: chat_prims_def group_frame_def demo_env_def)
  show ?thesis
    using sent group_message_arrives [OF sent ends(1-3), of "[''bob'']" "''0hi''" chat_prims default_config demo_db chat_relay 0 cn demo_env
        "''G''" "''bob''" open_link bob "\<lparr>p_seal = demo_seal, p_me = ''bob'', p_addr = ''h:1''\<rparr>" "''K''" demo_world 48 "''K''" v "''K''" "''h:1''"]
      chat_relay_reachable chat_db_ok chat_json cn ser chat_bob ends(4,5,7) v
    by (simp add: amys_server_def open_link_def IN_QUEUE_def demo_seal_def MAX_PAYLOAD_def MAX_RECIPIENTS_def)
qed

end
