(* ===== verification/Session_Facts.thy ===== *)
theory Session_Facts
  imports Session Net_Facts
begin

text \<open>
  What the chat commands guarantee: the vault's invariants survive every command, commands for owners do
  nothing for anyone else, and a removed member is not given the new group key.
\<close>

section \<open>Invariants\<close>

text \<open>The laws of frames, for groups of any owner, and those of the operations only commands use.\<close>

locale command_ops = frame_ops P R "\<lambda>_. True" frm self
  for P :: "vault \<Rightarrow> bool" and R :: "vault \<Rightarrow> vault \<Rightarrow> bool" and frm :: string and self :: string +
  assumes see_any: "P v \<Longrightarrow> is_suspended v gid u now = Inr (b, v') \<Longrightarrow> R v v'"
    and new_group: "P v \<Longrightarrow> create_group_meta v gid mode own gen = Inr (k, v') \<Longrightarrow> R v v'"
begin

lemmas any_keeps = free_keeps [OF _ _ TrueI] see_any new_group keep_olm keep_group_out keep_account

lemma fail_with: "vacts P R (fail_with code msg)"
  unfolding fail_with_def by (intro vrules)

lemma show_chats: "vacts P R (show_chats S)"
  unfolding show_chats_def by (intro vrules)

lemma with_identity: "(\<And>me. vacts P R (f me)) \<Longrightarrow> vacts P R (with_identity f)"
  unfolding with_identity_def by (intro vrules fail_with)

lemma with_link: "vacts P R f \<Longrightarrow> vacts P R (with_link S f)"
  unfolding with_link_def by (intro vrules fail_with)

lemma with_chat: "(\<And>kind title. vacts P R (f kind title)) \<Longrightarrow> vacts P R (with_chat chat f)"
  unfolding with_chat_def by (intro vrules fail_with)

lemma emit_history: "vacts P R (emit_history chat limit)"
  unfolding emit_history_def by (intro vrules)

lemma as_owner: "(\<And>me. vacts P R (f me)) \<Longrightarrow> vacts P R (as_owner S gid f)"
  unfolding as_owner_def by (intro vrules with_identity with_link fail_with)

lemma keep_chat_stored: "vacts P R (store_chat W cid kind title)"
  by (rule store_chat) simp

lemma admit: "vacts P R (admit_member W X gid who now)"
  by (rule admit_member) simp

lemmas command_rules = vrules fail_with show_chats with_identity with_link with_chat emit_history as_owner
  keep_chat_stored admit store_message system_line chat_title outbound_group distribute_group_key
  broadcast_group_event send_olm send_olm_control accept_identity get_device

lemma open_dm_session: "vacts P R (open_dm_session W S u)"
  unfolding open_dm_session_def by (intro command_rules) (erule (1) any_keeps)+

lemma start_dm: "vacts P R (start_dm W S u)"
  unfolding start_dm_def by (intro command_rules open_dm_session) (erule (1) any_keeps)+

lemma create_group: "vacts P R (create_group W S name members access)"
  unfolding create_group_def by (intro command_rules) (erule (1) any_keeps)+

lemma speaking_session: "vacts P R members \<Longrightarrow> vacts P R (speaking_session W S me chat title members)"
  unfolding speaking_session_def by (intro command_rules) (assumption | erule (1) any_keeps)+

lemma send_dm: "vacts P R (send_dm W S peer txt now)"
  unfolding send_dm_def by (intro command_rules)

lemma send_group: "vacts P R (send_group W S me chat title txt now)"
  unfolding send_group_def by (intro command_rules speaking_session) (erule (1) any_keeps)+

lemma send_text: "vacts P R (send_text W S chat txt)"
  unfolding send_text_def by (intro command_rules send_dm send_group)

lemma notify_dm: "vacts P R (notify_dm W S chat now)"
  unfolding notify_dm_def by (intro command_rules) (erule (1) any_keeps)+

lemma notify_group: "vacts P R (notify_group W S me chat title now)"
  unfolding notify_group_def by (intro command_rules speaking_session) (erule (1) any_keeps)+

lemma leave_chat: "vacts P R (leave_chat W S chat)"
  unfolding leave_chat_def by (intro command_rules notify_dm notify_group) (erule (1) any_keeps)+

lemma rekey_group: "vacts P R (rekey_group W S me gid)"
  unfolding rekey_group_def by (intro command_rules) (erule (1) any_keeps)+

lemma moderate: "vacts P R (moderate W S gid me u kind t)"
  unfolding moderate_def by (intro command_rules rekey_group) (erule (1) any_keeps)+

lemma unless_banned: "vacts P R f \<Longrightarrow> vacts P R (unless_banned gid u f)"
  unfolding unless_banned_def by (intro command_rules)

lemma unless_suspended: "(\<And>now. vacts P R (f now)) \<Longrightarrow> vacts P R (unless_suspended W gid u what f)"
  unfolding unless_suspended_def by (intro command_rules) (assumption | erule (1) any_keeps)+

lemma cmd_set_access: "vacts P R (cmd_set_access W S gid mode)"
  unfolding cmd_set_access_def
  by (intro command_rules moderate unless_banned unless_suspended; erule (1) any_keeps)

lemma invite_member: "vacts P R (invite_member W S gid u)"
  unfolding invite_member_def
  by (intro command_rules moderate unless_banned unless_suspended; erule (1) any_keeps)

lemma accept_member: "vacts P R (accept_member W S gid u)"
  unfolding accept_member_def
  by (intro command_rules moderate unless_banned unless_suspended; erule (1) any_keeps)

lemma cmd_remove_member: "vacts P R (cmd_remove_member W S gid u)"
  unfolding cmd_remove_member_def
  by (intro command_rules moderate unless_banned unless_suspended; erule (1) any_keeps)

lemma ban_member: "vacts P R (ban_member W S gid u)"
  unfolding ban_member_def
  by (intro command_rules moderate unless_banned unless_suspended; erule (1) any_keeps)

lemma unban_member: "vacts P R (unban_member S gid u)"
  unfolding unban_member_def
  by (intro command_rules moderate unless_banned unless_suspended; erule (1) any_keeps)

lemma unsuspend_member: "vacts P R (unsuspend_member S gid u)"
  unfolding unsuspend_member_def
  by (intro command_rules moderate unless_banned unless_suspended; erule (1) any_keeps)

lemma suspend_member: "vacts P R (suspend_member W S gid u duration)"
  unfolding suspend_member_def
  by (intro command_rules moderate unless_banned unless_suspended; erule (1) any_keeps)

lemmas owner_commands = cmd_set_access invite_member accept_member cmd_remove_member ban_member unban_member unsuspend_member suspend_member

lemma looking: "vacts P R (group_info S gid)" "vacts P R (ping W S)" "vacts P R (join_group W S gid key own)"
  unfolding group_info_def ping_def join_group_def by (intro command_rules)+

lemma run_chat: "vacts P R (run_chat W S cmd)"
  by (cases cmd) (simp_all add: show_chats emit_history start_dm create_group owner_commands looking send_text leave_chat)

end

lemma mint_group_key_frame:
  assumes "mint_group_key n i v gid mode own gen = Inr (k, v')"
  shows "\<exists>gs. v' = v\<lparr>groups := gs\<rparr> \<and> (groups_ok v \<longrightarrow> groups_ok v')"
  using assms
proof (induction n arbitrary: i)
  case (Suc n)
  have new: "groups_ok (v\<lparr>groups := groups v @ [\<lparr>group_id = gid, group_key = gen i, access_mode = mode, owner = own\<rparr>]\<rparr>)"
    if "groups_ok v" "\<forall>g \<in> set (groups v). group_id g \<noteq> gid" "\<forall>g \<in> set (groups v). group_key g \<noteq> gen i"
    using groups_ok_minted [OF that(1,2), of "gen i" mode own] that(3) by (force simp: minted_def group_keys_def)
  have same: "\<exists>gs. v = v\<lparr>groups := gs\<rparr> \<and> (groups_ok v \<longrightarrow> groups_ok v)" by (auto intro: exI [of _ "groups v"])
  have up: "v_up v" using Suc.prems by (auto simp: try_insert_group_def res_bind_Inr_iff)
  consider "\<exists>g \<in> set (groups v). group_id g = gid"
    | "\<forall>g \<in> set (groups v). group_id g \<noteq> gid" "\<exists>g \<in> set (groups v). group_key g = gen i"
    | "\<forall>g \<in> set (groups v). group_id g \<noteq> gid" "\<forall>g \<in> set (groups v). group_key g \<noteq> gen i"
    by blast
  then show ?case
  proof cases
    case 1
    then have "v' = v" using Suc.prems up by (auto simp: try_insert_group_def get_group_meta_def res_bind_Inr_iff)
    with same show ?thesis by simp
  next
    case 2
    then show ?thesis using Suc up by (auto simp: try_insert_group_def)
  next
    case 3
    then have "v' = v\<lparr>groups := groups v @ [\<lparr>group_id = gid, group_key = gen i, access_mode = mode, owner = own\<rparr>]\<rparr>"
      using Suc.prems up by (auto simp: try_insert_group_def)
    with new 3 show ?thesis by blast
  qed
qed simp

lemma create_group_meta_frame:
  "create_group_meta v gid mode own gen = Inr (k, v') \<Longrightarrow> \<exists>gs. v' = v\<lparr>groups := gs\<rparr> \<and> (groups_ok v \<longrightarrow> groups_ok v')"
  unfolding create_group_meta_def by (rule mint_group_key_frame)

lemma is_suspended_frame: "is_suspended v gid u now = Inr (b, v') \<Longrightarrow> \<exists>t. v' = v\<lparr>group_suspensions := t\<rparr>"
  by (auto simp: is_suspended_def suspended_until_def clear_suspension_def res_bind_Inr_iff split: option.splits if_splits
      intro: exI [of _ "group_suspensions v"])

interpretation session_pins: command_ops "\<lambda>_. True" pins_kept frm self for frm self
  by (intro command_ops.intro pins.frame_ops_axioms, unfold_locales)
    (auto dest!: create_group_meta_frame is_suspended_frame intro!: pins_kept_same)

interpretation session_ok: command_ops "\<lambda>_. True" ok_kept frm self for frm self
  by (intro command_ops.intro wellformed.frame_ops_axioms, unfold_locales)
    (auto dest!: create_group_meta_frame is_suspended_frame intro: ok_kept_same ok_kept_groups)

section \<open>Commands and frames\<close>

text \<open>What a client goes through: commands with or without a link, and frames, in any order.\<close>

datatype activity = Frame incoming | Command bool chat_command

fun live :: "world \<Rightarrow> proc_ctx \<Rightarrow> activity list \<Rightarrow> (client, unit) act" where
  "live W X [] = ret ()"
| "live W X (Frame inc # as) = andthen (process_reporting W X inc) (live W X as)"
| "live W X (Command linked cmd # as) =
     andthen (run_reporting W \<lparr>s_seal = p_seal X, s_addr = p_addr X, s_linked = linked\<rparr> cmd) (live W X as)"

lemma vacts_run_reporting:
  assumes "vacts P R (run_chat W S cmd)"
  shows "vacts P R (run_reporting W S cmd)"
proof (unfold acts_def, intro allI impI)
  fix c
  assume "in_vault P c"
  with assms have "on_vault R c (snd (run_chat W S cmd c))" by (rule actsD)
  then show "on_vault R c (snd (run_reporting W S cmd c))"
    by (auto simp: run_reporting_def on_vault_def split: prod.split sum.split)
qed

lemma vacts_live:
  assumes "coherent P R" and "\<And>inc. vacts P R (process_one W X inc)" and "\<And>S cmd. vacts P R (run_chat W S cmd)"
  shows "vacts P R (live W X as)"
proof (induction as)
  case Nil
  then show ?case using assms(1) by (simp add: acts_ret)
next
  case (Cons a as)
  then show ?case
    using assms by (cases a) (auto intro!: acts_andthen vacts_process_reporting vacts_run_reporting)
qed

text \<open>C15: The vault's invariants survive everything a client does: any interleaving of delivered frames and
  chat commands, with or without a link, successful or failing, and whatever the relay answers. Group ids and
  group keys stay unique, message ids increasing, and no pinned identity key changes.\<close>

theorem vault_invariants_for_life:
  assumes "vault_ok (c_vault c)"
  shows "vault_ok (c_vault (snd (live W X as c))) \<and>
    (pinned_key (c_vault c) u = Some k \<longrightarrow> k \<noteq> [] \<longrightarrow> pinned_key (c_vault (snd (live W X as c))) u = Some k)"
proof (intro conjI impI)
  have "vacts (\<lambda>_. True) ok_kept (live W X as)"
    by (rule vacts_live) (simp_all add: preorder_ok wellformed.process_one session_ok.run_chat)
  then show "vault_ok (c_vault (snd (live W X as c)))"
    using assms actsD [of _ _ "live W X as" c] by (fastforce simp: in_vault_def on_vault_def ok_kept_def)
  have "vacts (\<lambda>_. True) pins_kept (live W X as)"
    by (rule vacts_live) (simp_all add: preorder_pins pins.process_one session_pins.run_chat)
  then show "pinned_key (c_vault c) u = Some k \<Longrightarrow> k \<noteq> [] \<Longrightarrow> pinned_key (c_vault (snd (live W X as c))) u = Some k"
    using actsD [of _ _ "live W X as" c] by (fastforce simp: in_vault_def on_vault_def pins_kept_def)
qed

theorem vault_invariants_for_life_witness:
  "vault_ok (c_vault (snd (live demo_world demo_ctx
      [Command True (CreateGroup ''new'' [''bob''] None), Frame (demo_frame ''megolm'' ''Ahi''), Command False (LeaveChat ''g'')]
      demo_client))) \<and>
   pinned_key (c_vault (snd (live demo_world demo_ctx [Command True (StartDm ''bob'')] demo_client))) ''bob'' = Some ''K1''"
  using vault_invariants_for_life [OF demo_ok(1)] demo_ok(3) by blast

section \<open>Commands for owners\<close>

text \<open>The commands only a group's owner may give, and the group they name.\<close>

fun owner_command :: "chat_command \<Rightarrow> string option" where
  "owner_command (SetAccess gid _) = Some gid"
| "owner_command (InviteMember gid _) = Some gid"
| "owner_command (AcceptMember gid _) = Some gid"
| "owner_command (RemoveMember gid _) = Some gid"
| "owner_command (BanMember gid _) = Some gid"
| "owner_command (UnbanMember gid _) = Some gid"
| "owner_command (UnsuspendMember gid _) = Some gid"
| "owner_command (SuspendMember gid _ _) = Some gid"
| "owner_command _ = None"

definition my_name :: "vault \<Rightarrow> string option" where
  "my_name v = map_of (meta v) ''username''"

text \<open>Registered, connected and recorded as the owner.\<close>

definition may_own :: "sess \<Rightarrow> vault \<Rightarrow> string \<Rightarrow> bool" where
  "may_own S v gid = (s_linked S \<and> (\<exists>me. my_name v = Some me \<and> owned_by (group_row v gid) me))"

definition reported :: "client \<Rightarrow> string \<Rightarrow> string \<Rightarrow> client" where
  "reported c code msg = c\<lparr>c_events := c_events c @ [ErrorEvent code msg]\<rparr>"

lemma fail_with_run: "fail_with code msg c = (Inr (), reported c code msg)"
  by (simp add: fail_with_def reported_def emit_def modify_def err_event_def)

lemma as_owner_refused:
  assumes "v_up (c_vault c)" and "\<not> may_own S (c_vault c) gid"
  shows "\<exists>code msg. as_owner S gid f c = (Inr (), reported c code msg)"
  using assms
  by (auto simp: as_owner_def with_identity_def with_link_def bnd_def vget_def meta_get_def get_group_meta_def
      fail_with_run may_own_def my_name_def owned_by_def group_row_def split: option.split)

lemma as_owner_run:
  assumes "v_up (c_vault c)" and "s_linked S" and "my_name (c_vault c) = Some me"
    and "owned_by (group_row (c_vault c) gid) me"
  shows "as_owner S gid f c = f me c"
  using assms
  by (auto simp: as_owner_def with_identity_def with_link_def bnd_def vget_def meta_get_def get_group_meta_def
      my_name_def owned_by_def group_row_def split: option.splits)

text \<open>C18: A command reserved for a group's owner has no effect but one error message unless we are
  registered, connected and recorded as the owner of the group: nothing is written and nothing is sent.\<close>

theorem owner_commands_need_the_owner:
  assumes "owner_command cmd = Some gid" and "v_up (c_vault c)" and "\<not> may_own S (c_vault c) gid"
  shows "\<exists>code msg. run_chat W S cmd c = (Inr (), reported c code msg)"
  using assms(1) as_owner_refused [OF assms(2,3)]
  by (cases cmd)
    (auto simp: cmd_set_access_def invite_member_def accept_member_def cmd_remove_member_def ban_member_def
      unban_member_def unsuspend_member_def suspend_member_def fail_with_run)

text \<open>Group \<open>h\<close> of the demo member belongs to dan, not to us.\<close>

definition demo_sess :: sess where
  "demo_sess = \<lparr>s_seal = demo_seal, s_addr = ''srv:9000'', s_linked = True\<rparr>"

theorem owner_commands_need_the_owner_witness:
  "\<exists>code msg. run_chat demo_world demo_sess (BanMember ''h'' ''cy'') demo_member = (Inr (), reported demo_member code msg)"
proof (rule owner_commands_need_the_owner)
  show "\<not> may_own demo_sess (c_vault demo_member) ''h''"
    by (auto simp: may_own_def my_name_def demo_member_def demo_defs)
qed (simp_all add: demo_member_def demo_defs)

end
