(* ===== verification/Session_Sends.thy ===== *)
theory Session_Sends
  imports Session_Facts
begin

text \<open>
  What a command writes to the relay, message by message: the shares of a group key, who gets one and
  what is in it, and the one message in which a group event is announced.
\<close>

section \<open>Stages\<close>

lemma andthen_ok: "andthen m n s = (Inr y, t) \<longleftrightarrow> (\<exists>x s'. m s = (Inr x, s') \<and> n s' = (Inr y, t))"
  unfolding andthen_def by (rule bnd_ok)

lemma andthen_unit: "andthen (m :: ('s, unit) act) n s = (Inr y, t) \<longleftrightarrow> (\<exists>s'. m s = (Inr (), s') \<and> n s' = (Inr y, t))"
  by (simp add: andthen_ok)

lemma vput_ok: "vput f c = (Inr (), c') \<longleftrightarrow> (\<exists>v. f (c_vault c) = Inr v \<and> c' = c\<lparr>c_vault := v\<rparr>)"
  by (auto simp: vput_def split: sum.split)

lemma vget_ok: "vget f c = (Inr x, c') \<longleftrightarrow> f (c_vault c) = Inr x \<and> c' = c"
  by (auto simp: vget_def)

lemma vcall_ok: "vcall f c = (Inr x, c') \<longleftrightarrow> (\<exists>v. f (c_vault c) = Inr (x, v) \<and> c' = c\<lparr>c_vault := v\<rparr>)"
  by (auto simp: vcall_def split: sum.split)

lemma draw_ok: "draw f c = (Inr x, c') \<longleftrightarrow> x = f (c_tick c) \<and> c' = c\<lparr>c_tick := Suc (c_tick c)\<rparr>"
  by (auto simp: draw_def)

lemma emit_ok: "emit e c = (Inr x, c') \<longleftrightarrow> c' = c\<lparr>c_events := c_events c @ [e]\<rparr>"
  by (auto simp: emit_def modify_def)

lemma lift_ok: "lift r c = (Inr x, c') \<longleftrightarrow> r = Inr x \<and> c' = c"
  by (auto simp: lift_def)

lemma ret_ok: "ret y c = (Inr x, c') \<longleftrightarrow> x = y \<and> c' = c"
  by (auto simp: ret_def)

lemma send_ok: "send W msg c = (Inr x, c') \<Longrightarrow> c' = c\<lparr>c_tick := Suc (c_tick c), c_sent := c_sent c @ [msg]\<rparr>"
  by (auto simp: send_def bnd_ok draw_ok modify_def raise_def split: if_splits)

lemmas stage_ok = bnd_ok andthen_ok vput_ok vget_ok vcall_ok draw_ok emit_ok

lemma vactsD: "vacts (\<lambda>_. True) R m \<Longrightarrow> m c = (r, c') \<Longrightarrow> R (c_vault c) (c_vault c')"
  using actsD [of _ _ m c] by (fastforce simp: in_vault_def on_vault_def)

section \<open>Which messages are sent\<close>

text \<open>Messages are only appended, each of them one that \<open>Q\<close> allows, and the clock counts on.\<close>

definition sends_just :: "(client_msg \<Rightarrow> bool) \<Rightarrow> client \<Rightarrow> client \<Rightarrow> bool" where
  "sends_just Q c c' = (c_tick c \<le> c_tick c' \<and> (\<exists>new. c_sent c' = c_sent c @ new \<and> list_all Q new))"

lemma sends_just_trans: "sends_just Q a b \<Longrightarrow> sends_just Q b c \<Longrightarrow> sends_just Q a c"
  by (force simp: sends_just_def)

lemma preorder_sends_just [simp]: "preorder_rel (sends_just Q)"
  by (rule preorder_relI [OF _ sends_just_trans]) (simp_all add: sends_just_def)

lemma sends_just_mono: "sends_just Q c c' \<Longrightarrow> (\<And>m. Q m \<Longrightarrow> Q' m) \<Longrightarrow> sends_just Q' c c'"
  by (auto simp: sends_just_def list_all_iff)

abbreviation sends :: "(client_msg \<Rightarrow> bool) \<Rightarrow> (client, 'a) act \<Rightarrow> bool" where
  "sends Q \<equiv> acts (\<lambda>_. True) (sends_just Q)"

lemma sendsD: "sends Q m \<Longrightarrow> m c = (r, c') \<Longrightarrow> sends_just Q c c'"
  using actsD [of _ _ m c] by fastforce

lemma coherent_sends: "coherent (\<lambda>_. True) (sends_just Q)"
  by simp

lemma sends_nothing: "(\<And>c. c_sent (snd (m c)) = c_sent c \<and> c_tick c \<le> c_tick (snd (m c))) \<Longrightarrow> sends Q m"
  by (simp add: acts_def sends_just_def)

lemma sends_basic: "sends Q (draw f)" "sends Q (emit e)" "sends Q (vget q)"
  by (intro sends_nothing; simp add: client_act_defs modify_def)+

lemma sends_vput: "sends Q (vput g)" "sends Q (vcall h)"
  by (intro sends_nothing; simp add: vput_def vcall_def split: sum.split prod.split)+

lemma sends_now: "sends Q (now_millis W)"
  unfolding now_millis_def by (rule sends_basic)

lemma sends_send: "Q msg \<Longrightarrow> sends Q (send W msg)"
  by (auto simp: acts_def sends_just_def client_act_defs act_defs)

lemmas send_rules = act_intros coherent_sends sends_basic sends_vput sends_now

lemma sends_ensure: "Q (FetchPrekeys peer) \<Longrightarrow> sends Q (ensure_olm W K peer)"
  unfolding ensure_olm_def get_device_def accept_identity_def send_and_wait_def by (intro send_rules sends_send)

lemma sends_olm: "(\<And>pl. Q (SendMsg [peer] ty pl gid ts)) \<Longrightarrow> sends Q (send_olm W K peer s p ty gid ts)"
  unfolding send_olm_def by (intro send_rules sends_send)

lemma sends_for_each: "(\<And>x. x \<in> set xs \<Longrightarrow> sends Q (f x)) \<Longrightarrow> sends Q (for_each xs f)"
  by (induction xs) (auto intro!: acts_andthen acts_ret)

text \<open>The messages that bring a key to the users of \<open>A\<close>.\<close>

fun key_traffic :: "string set \<Rightarrow> client_msg \<Rightarrow> bool" where
  "key_traffic A (SendMsg to ty _ _ _) = (set to \<subseteq> A \<and> ty = OLM_GROUP_KEY)"
| "key_traffic A (FetchPrekeys u) = (u \<in> A)"
| "key_traffic A _ = False"

lemma key_traffic_mono: "key_traffic A m \<Longrightarrow> A \<subseteq> B \<Longrightarrow> key_traffic B m"
  by (cases m) auto

text \<open>The loop body of \<open>distribute_group_key\<close>.\<close>

abbreviation serve :: "world \<Rightarrow> sealer \<Rightarrow> string \<Rightarrow> bytes \<Rightarrow> string \<Rightarrow> millis \<Rightarrow> string \<Rightarrow> (client, unit) act" where
  "serve W K me bytes gid now p \<equiv> (if p = me then ret () else bnd (ensure_olm W K p) (\<lambda>sess. case sess of
     None \<Rightarrow> ret () | Some session \<Rightarrow> send_olm W K p session bytes OLM_GROUP_KEY (Some gid) now))"

lemma sends_member: "p = me \<or> p \<in> A \<Longrightarrow> sends (key_traffic A) (serve W K me bytes gid now p)"
  by (intro send_rules sends_ensure sends_olm) auto

lemma sends_distribute: "set rs - {me} \<subseteq> A \<Longrightarrow> sends (key_traffic A) (distribute_group_key W K me gid name rs grp)"
  unfolding distribute_group_key_def get_device_def
  by (intro send_rules sends_for_each sends_member) auto

lemma sends_title: "sends Q (chat_title gid)"
  unfolding chat_title_def by (intro send_rules)

lemma sends_line: "sends Q (system_line W gid line ts)"
  unfolding system_line_def emit_system_def store_message_def by (intro send_rules)

section \<open>Shares of a group key\<close>

text \<open>A message with a share, encrypted for one user with a pairwise session.\<close>

definition share_message :: "world \<Rightarrow> sealer \<Rightarrow> string \<Rightarrow> group_key_share \<Rightarrow> string \<Rightarrow> bytes \<Rightarrow> client_msg \<Rightarrow> bool" where
  "share_message W K gid share peer session msg = (\<exists>t body session' ts.
     olm_encrypt (w_vz W) session (share_bytes (w_codec W) share) = Inr ((t, body), session') \<and>
     msg = SendMsg [peer] OLM_GROUP_KEY (encode_olm K t body) (Some gid) ts)"

text \<open>What a user gets between two states: with a pairwise session a share, else its prekeys are asked for.\<close>

definition handed :: "world \<Rightarrow> sealer \<Rightarrow> string \<Rightarrow> group_key_share \<Rightarrow> string \<Rightarrow> vault \<Rightarrow> client_msg list \<Rightarrow> bool" where
  "handed W K gid share peer v msgs = (case load_olm v K peer of Inl _ \<Rightarrow> False
     | Inr None \<Rightarrow> FetchPrekeys peer \<in> set msgs
     | Inr (Some session) \<Rightarrow> \<exists>msg \<in> set msgs. share_message W K gid share peer session msg)"

lemma handed_more: "handed W K gid share peer v msgs \<Longrightarrow> set msgs \<subseteq> set msgs' \<Longrightarrow> handed W K gid share peer v msgs'"
  by (auto simp: handed_def split: sum.splits option.splits)

text \<open>Serving one user leaves the sessions of the others as they are.\<close>

definition same_olm :: "string \<Rightarrow> vault \<Rightarrow> vault \<Rightarrow> bool" where
  "same_olm peer v v' = (map_of (olm_sessions v') peer = map_of (olm_sessions v) peer \<and> v_up v' = v_up v)"

lemma same_olm_load: "same_olm peer v v' \<Longrightarrow> load_olm v' K peer = load_olm v K peer"
  by (auto simp: same_olm_def load_olm_def open_row_def vq_def)

lemma preorder_same_olm: "preorder_rel (same_olm peer)"
  by (rule preorder_relI) (auto simp: same_olm_def)

lemma same_olm_put: "save_olm v K q s = Inr v' \<Longrightarrow> q \<noteq> peer \<Longrightarrow> same_olm peer v v'"
  by (auto simp: save_olm_def vq_def same_olm_def res_bind_Inr_iff update_conv' split: if_splits)

lemma same_olm_contact: "upsert_contact v u uuid ed curve = Inr v' \<Longrightarrow> same_olm peer v v'"
  by (auto simp: upsert_contact_def vq_def same_olm_def res_bind_Inr_iff split: if_splits)

lemma olm_ensure: "vacts (\<lambda>_. True) (same_olm peer) (ensure_olm W K q)"
  unfolding ensure_olm_def get_device_def accept_identity_def
  by (intro act_intros coherent_on_vault vacts_vput vacts_vcall) (simp_all add: preorder_same_olm same_olm_contact)

lemma olm_serve: "p \<noteq> q \<Longrightarrow> vacts (\<lambda>_. True) (same_olm p) (serve W K me bytes gid now q)"
  unfolding send_olm_def
  by (intro act_intros coherent_on_vault vacts_vput vacts_vcall olm_ensure) (auto simp: preorder_same_olm same_olm_put)

lemma handed_same: "same_olm p v v' \<Longrightarrow> handed W K gid share p v' msgs = handed W K gid share p v msgs"
  by (simp add: handed_def same_olm_load)

lemma bnd_sends:
  assumes "bnd m f c = (Inr r, c')" and "\<And>x. sends Q (f x)"
  shows "\<exists>x s. m c = (Inr x, s) \<and> sends_just Q s c'"
  using assms by (auto simp: bnd_ok dest: sendsD)

lemma first_asks:
  assumes "bnd (get_device K err) (\<lambda>d. bnd (send_and_wait W q) (f d)) c = (Inr r, c')"
    and "\<And>d x. sends (\<lambda>_. True) (f d x)"
  shows "\<exists>new. c_sent c' = c_sent c @ q # new"
proof -
  obtain d c1 where dev: "get_device K err c = (Inr d, c1)" "bnd (send_and_wait W q) (f d) c1 = (Inr r, c')"
    using assms(1) by (auto simp: bnd_ok [of "get_device K err"])
  obtain x c2 where "send_and_wait W q c1 = (Inr x, c2)" "sends_just (\<lambda>_. True) c2 c'"
    using bnd_sends [OF dev(2) assms(2)] by blast
  moreover have "c1 = c" using dev(1) by (auto simp: get_device_def stage_ok lift_ok)
  ultimately show ?thesis by (auto simp: send_and_wait_def stage_ok lift_ok sends_just_def dest!: send_ok)
qed

lemma ensure_asks:
  assumes "ensure_olm W K p c = (Inr r, c')" and "load_olm (c_vault c) K p = Inr None"
  shows "\<exists>new. c_sent c' = c_sent c @ FetchPrekeys p # new"
  using assms unfolding ensure_olm_def
  by (simp add: bnd_def [of "vget _"] vget_def) (erule first_asks, unfold accept_identity_def, intro send_rules)

lemma serve_hands:
  assumes "serve W K me (share_bytes (w_codec W) share) gid now p c = (Inr (), c')" and "p \<noteq> me"
  shows "\<exists>new. c_sent c' = c_sent c @ new \<and> handed W K gid share p (c_vault c) new"
proof (cases "load_olm (c_vault c) K p")
  case (Inl e)
  then show ?thesis using assms by (auto simp: ensure_olm_def bnd_ok vget_ok)
next
  case (Inr found)
  show ?thesis
  proof (cases found)
    case None
    from assms have run: "bnd (ensure_olm W K p) (\<lambda>sess. case sess of None \<Rightarrow> ret ()
        | Some session \<Rightarrow> send_olm W K p session (share_bytes (w_codec W) share) OLM_GROUP_KEY (Some gid) now) c = (Inr (), c')"
      by simp
    obtain r c3 where ens: "ensure_olm W K p c = (Inr r, c3)" and more: "sends_just (\<lambda>_. True) c3 c'"
      using bnd_sends [OF run, of "\<lambda>_. True"] by (force intro: send_rules sends_olm)
    from ens obtain new where "c_sent c3 = c_sent c @ FetchPrekeys p # new" using ensure_asks Inr None by blast
    with more show ?thesis using Inr None by (auto simp: handed_def sends_just_def)
  next
    case (Some session)
    with Inr assms obtain t body session' v where "olm_encrypt (w_vz W) session (share_bytes (w_codec W) share) = Inr ((t, body), session')"
      "send W (SendMsg [p] OLM_GROUP_KEY (encode_olm K t body) (Some gid) now) (c\<lparr>c_vault := v\<rparr>) = (Inr (), c')"
      by (auto simp: ensure_olm_def send_olm_def stage_ok lift_ok ret_ok)
    then show ?thesis using Inr Some by (auto simp: handed_def share_message_def dest!: send_ok)
  qed
qed

lemma all_served:
  assumes "for_each rs (serve W K me (share_bytes (w_codec W) share) gid now) c = (Inr (), c')"
  shows "\<exists>new. c_sent c' = c_sent c @ new \<and> (\<forall>p \<in> set rs - {me}. handed W K gid share p (c_vault c) new)"
  using assms
proof (induction rs arbitrary: c)
  case (Cons q rs)
  let ?serve = "serve W K me (share_bytes (w_codec W) share) gid now"
  from Cons.prems obtain c1 where run: "?serve q c = (Inr (), c1)" "for_each rs ?serve c1 = (Inr (), c')"
    unfolding for_each.simps andthen_unit by blast
  obtain later where later: "c_sent c' = c_sent c1 @ later" "\<forall>p \<in> set rs - {me}. handed W K gid share p (c_vault c1) later"
    using Cons.IH [OF run(2)] by blast
  obtain new where new: "c_sent c1 = c_sent c @ new" "q \<noteq> me \<Longrightarrow> handed W K gid share q (c_vault c) new"
  proof (cases "q = me")
    case True
    with run(1) show thesis by (intro that [of "[]"]) (auto simp: ret_ok)
  next
    case False
    with serve_hands [OF run(1)] that show thesis by blast
  qed
  have "handed W K gid share p (c_vault c) (new @ later)" if p: "p \<in> set (q # rs) - {me}" for p
  proof (cases "p = q")
    case True
    with new(2) p show ?thesis by (auto intro: handed_more)
  next
    case False
    then have "same_olm p (c_vault c) (c_vault c1)" using vactsD [OF olm_serve run(1)] by blast
    from handed_same [OF this, of W K gid share later] have "handed W K gid share p (c_vault c) later"
      using later(2) p False by simp
    then show ?thesis by (rule handed_more) simp
  qed
  then show ?case using new(1) later(1) by (intro exI [of _ "new @ later"]) simp
qed (simp add: ret_def)

lemma distribute_hands:
  assumes "distribute_group_key W K me gid name rs grp c = (Inr (), c')"
  shows "\<exists>new device members m. c_sent c' = c_sent c @ new \<and> load_account (c_vault c) K = Inr (Some device) \<and>
    get_members (c_vault c) gid = Inr members \<and> get_group_meta (c_vault c) gid = Inr m \<and>
    (\<forall>p \<in> set rs - {me}. handed W K gid (share_for W gid name device grp members m) p (c_vault c) new)"
proof -
  from assms obtain device members m where st: "load_account (c_vault c) K = Inr (Some device)"
      "get_members (c_vault c) gid = Inr members" "get_group_meta (c_vault c) gid = Inr m"
      "for_each rs (serve W K me (share_bytes (w_codec W) (share_for W gid name device grp members m)) gid
        (w_now W (c_tick c))) (c\<lparr>c_tick := Suc (c_tick c)\<rparr>) = (Inr (), c')"
    unfolding distribute_group_key_def
    by (auto simp: get_device_def now_millis_def stage_ok lift_ok ok_or_def split: option.splits)
  show ?thesis using all_served [OF st(4)] st by auto
qed

section \<open>The announcement of an event\<close>

fun is_event :: "client_msg \<Rightarrow> bool" where
  "is_event (SendMsg _ ty _ _ _) = (ty = GROUP_EVENT)"
| "is_event _ = False"

abbreviation quiet :: "(client, 'a) act \<Rightarrow> bool" where
  "quiet \<equiv> sends (\<lambda>m. \<not> is_event m)"

lemma key_traffic_quiet: "key_traffic A m \<Longrightarrow> \<not> is_event m"
  by (cases m) (auto simp: OLM_GROUP_KEY_def GROUP_EVENT_def)

lemma quiet_distribute: "quiet (distribute_group_key W K me gid name rs grp)"
  by (rule acts_weaken [OF sends_distribute [OF subset_UNIV]]) (auto dest: key_traffic_quiet elim: sends_just_mono)

text \<open>The announcement: one message to a list of members, encrypted with the group's key.\<close>

definition event_message :: "world \<Rightarrow> sealer \<Rightarrow> bytes \<Rightarrow> string \<Rightarrow> group_event \<Rightarrow> string list \<Rightarrow> millis \<Rightarrow> client_msg" where
  "event_message W K key gid ev to ts =
     SendMsg to GROUP_EVENT (b64_enc K (fst (group_encrypt (w_vz W) key (event_bytes (w_codec W) ev)))) (Some gid) ts"

lemma outbound_run:
  assumes "outbound_group W K gid c = (Inr (grp, fresh), c')"
  obtains stored where "load_group_out (c_vault c) K gid = Inr stored"
    "grp = (case stored of Some g \<Rightarrow> g | None \<Rightarrow> w_group_sender W (c_tick c))" "fresh = (stored = None)"
    "stored \<noteq> None \<Longrightarrow> c' = c" "c_sent c' = c_sent c" "c_tick c \<le> c_tick c'"
  using assms unfolding outbound_group_def
  by (auto simp: stage_ok ret_ok save_group_out_def res_bind_Inr_iff split: option.splits)

lemma broadcast_run:
  assumes "broadcast_group_event W K me gid name ev c = (Inr (), c')"
  shows "\<exists>stored others earlier now. load_group_out (c_vault c) K gid = Inr stored \<and>
    set others = roster (c_vault c) gid - {me} \<and>
    c_sent c' = c_sent c @ earlier @ (if others = [] then [] else
       [event_message W K (case stored of Some g \<Rightarrow> g | None \<Rightarrow> w_group_sender W (c_tick c)) gid ev others now]) \<and>
    list_all (key_traffic (roster (c_vault c) gid - {me})) earlier \<and>
    (stored \<noteq> None \<longrightarrow> earlier = [] \<and> olm_sessions (c_vault c') = olm_sessions (c_vault c)) \<and>
    (others \<noteq> [] \<longrightarrow> c_tick c < c_tick c')"
proof -
  let ?A = "roster (c_vault c) gid - {me}"
  let ?tail = "\<lambda>rs grp. case group_encrypt (w_vz W) grp (event_bytes (w_codec W) ev) of (body, grp') \<Rightarrow>
       andthen (vput (\<lambda>v. save_group_out v K gid grp'))
       (let recipients = filter (\<lambda>m. m \<noteq> me) rs in
        if recipients = [] then ret ()
        else bnd (now_millis W) (\<lambda>now. send W (SendMsg recipients GROUP_EVENT (b64_enc K body) (Some gid) now)))"
  obtain rs grp fresh c1 c2 where st: "get_members (c_vault c) gid = Inr rs" "outbound_group W K gid c = (Inr (grp, fresh), c1)"
      "(if fresh then distribute_group_key W K me gid name rs grp else ret ()) c1 = (Inr (), c2)" "?tail rs grp c2 = (Inr (), c')"
    using assms unfolding broadcast_group_event_def
    by (auto simp: bnd_ok [of "vget _"] vget_ok bnd_ok [of "outbound_group _ _ _"] andthen_unit [of "if _ then _ else _"])
  obtain stored where out: "load_group_out (c_vault c) K gid = Inr stored"
      "grp = (case stored of Some g \<Rightarrow> g | None \<Rightarrow> w_group_sender W (c_tick c))" "fresh = (stored = None)"
      "stored \<noteq> None \<Longrightarrow> c1 = c" "c_sent c1 = c_sent c" "c_tick c \<le> c_tick c1"
    by (rule outbound_run [OF st(2)]) blast
  have rs: "set rs = roster (c_vault c) gid" using st(1) by (force simp: get_members_def roster_def)
  then have "sends (key_traffic ?A) (if fresh then distribute_group_key W K me gid name rs grp else ret ())"
    by (intro acts_if sends_distribute acts_ret coherent_sends) simp_all
  from sendsD [OF this st(3)] obtain earlier where earlier: "c_sent c2 = c_sent c @ earlier" "list_all (key_traffic ?A) earlier"
      "c_tick c \<le> c_tick c2"
    using out(5,6) by (auto simp: sends_just_def)
  define others where "others = filter (\<lambda>m. m \<noteq> me) rs"
  from st(4) obtain now where now: "c_sent c' = c_sent c2 @ (if others = [] then [] else [event_message W K grp gid ev others now])"
      "olm_sessions (c_vault c') = olm_sessions (c_vault c2)" "others \<noteq> [] \<Longrightarrow> c_tick c2 < c_tick c'"
    unfolding others_def [symmetric] Let_def
    by (auto simp: andthen_unit vput_ok ret_ok now_millis_def bnd_ok draw_ok event_message_def save_group_out_def res_bind_Inr_iff
        dest!: send_ok split: prod.splits if_splits)
  show ?thesis
  proof (intro exI conjI impI)
    show "load_group_out (c_vault c) K gid = Inr stored" by (rule out(1))
    show "set others = ?A" using rs by (auto simp: others_def)
    show "c_sent c' = c_sent c @ earlier @ (if others = [] then [] else
        [event_message W K (case stored of Some g \<Rightarrow> g | None \<Rightarrow> w_group_sender W (c_tick c)) gid ev others now])"
      using now(1) earlier(1) out(2) by simp
    show "earlier = []" "olm_sessions (c_vault c') = olm_sessions (c_vault c)" if "stored \<noteq> None"
      using out(3) out(4) [OF that] that st(3) earlier(1) now(2) by (simp_all add: ret_ok)
    show "others \<noteq> [] \<Longrightarrow> c_tick c < c_tick c'" using now(3) earlier(3) by linarith
  qed (rule earlier(2))
qed

text \<open>The events among the messages sent between two states.\<close>

definition events_sent :: "client_msg list \<Rightarrow> client \<Rightarrow> client \<Rightarrow> bool" where
  "events_sent es c c' = (\<exists>new. c_sent c' = c_sent c @ new \<and> filter is_event new = es)"

lemma events_sent_trans: "events_sent es a b \<Longrightarrow> events_sent fs b c \<Longrightarrow> events_sent (es @ fs) a c"
  by (force simp: events_sent_def)

lemma quiet_run: "quiet m \<Longrightarrow> m c = (r, c') \<Longrightarrow> events_sent [] c c'"
  by (force simp: events_sent_def sends_just_def list_all_iff filter_empty_conv dest: sendsD)

text \<open>One message, under the given key, announces an event to the users of \<open>R\<close> but us, if there are any.\<close>

definition tells :: "world \<Rightarrow> sealer \<Rightarrow> string \<Rightarrow> bytes \<Rightarrow> string \<Rightarrow> group_event \<Rightarrow> string set \<Rightarrow> client \<Rightarrow> client \<Rightarrow> bool" where
  "tells W K me key gid ev R c c' = (\<exists>others ts. set others = R - {me} \<and>
     events_sent (if others = [] then [] else [event_message W K key gid ev others ts]) c c')"

lemma tells_before: "events_sent [] a b \<Longrightarrow> tells W K me key gid ev R b c \<Longrightarrow> tells W K me key gid ev R a c"
  unfolding tells_def using events_sent_trans [of "[]" a b] by fastforce

lemma tells_after: "tells W K me key gid ev R a b \<Longrightarrow> events_sent [] b c \<Longrightarrow> tells W K me key gid ev R a c"
  unfolding tells_def using events_sent_trans [of _ a b "[]" c] by fastforce

lemma broadcast_tells:
  assumes "broadcast_group_event W K me gid name ev c = (Inr (), c')" and "load_group_out (c_vault c) K gid = Inr (Some key)"
  shows "tells W K me key gid ev (roster (c_vault c) gid) c c'"
proof -
  from broadcast_run [OF assms(1)] obtain stored others earlier ts where run: "load_group_out (c_vault c) K gid = Inr stored"
      "set others = roster (c_vault c) gid - {me}" "stored \<noteq> None \<longrightarrow> earlier = []"
      "c_sent c' = c_sent c @ earlier @ (if others = [] then [] else
        [event_message W K (case stored of Some g \<Rightarrow> g | None \<Rightarrow> w_group_sender W (c_tick c)) gid ev others ts])"
    by blast
  have "stored = Some key" using run(1) assms(2) by simp
  with run(3,4) have "events_sent (if others = [] then [] else [event_message W K key gid ev others ts]) c c'"
    by (simp add: events_sent_def event_message_def)
  with run(2) show ?thesis unfolding tells_def by blast
qed

end
