(* ===== verification/Session_Moderation.thy ===== *)
theory Session_Moderation
  imports Session_Sends Net_Joins Net_Link
begin

text \<open>
  Moderating a group, from the owner's command over the message it sends to the members' vaults: commands
  and events refine one abstract access state, the group key is rotated away from a removed member and
  handed to those that stay, and where a suspension can come to nothing.
\<close>

section \<open>Stages\<close>

text \<open>The notice to everybody; the target dropped from the vault; the line for ourselves.\<close>

definition notice :: "world \<Rightarrow> sess \<Rightarrow> string \<Rightarrow> string \<Rightarrow> group_event \<Rightarrow> (client, unit) act" where
  "notice W S gid me ev = bnd (chat_title gid) (\<lambda>name. broadcast_group_event W (s_seal S) me gid name ev)"

definition dropped :: "vault \<Rightarrow> string \<Rightarrow> string \<Rightarrow> vault" where
  "dropped v gid u = v\<lparr>chat_members := filter (\<lambda>r. r \<noteq> (gid, u)) (chat_members v),
     group_in := AList.delete (gid, u) (group_in v)\<rparr>"

definition epilogue :: "world \<Rightarrow> string \<Rightarrow> string option \<Rightarrow> event \<Rightarrow> (client, unit) act" where
  "epilogue W gid line e = bnd (now_millis W) (\<lambda>now. andthen (system_line W gid line now) (emit e))"

lemma moderate_stages:
  assumes "moderate W S gid me u kind t c = (Inr (), c')"
  obtains c1 c3 where
    "notice W S gid me \<lparr>ge_kind = kind, ge_who = u, ge_mode = None, ge_until = t\<rparr> c = (Inr (), c1)"
    "rekey_group W S me gid (c1\<lparr>c_vault := dropped (c_vault c1) gid u\<rparr>) = (Inr (), c3)"
    "epilogue W gid (group_event_text kind u []) (InfoEvent (u @ '' '' @ kind)) c3 = (Inr (), c')"
proof -
  from assms obtain name c0 c1 v2 v3 c3 where st: "chat_title gid c = (Inr name, c0)"
    "broadcast_group_event W (s_seal S) me gid name \<lparr>ge_kind = kind, ge_who = u, ge_mode = None, ge_until = t\<rparr> c0 = (Inr (), c1)"
    "remove_member (c_vault c1) gid u = Inr v2" "delete_group_in v2 gid u = Inr v3"
    "rekey_group W S me gid (c1\<lparr>c_vault := v3\<rparr>) = (Inr (), c3)"
    "epilogue W gid (group_event_text kind u []) (InfoEvent (u @ '' '' @ kind)) c3 = (Inr (), c')"
    unfolding moderate_def epilogue_def by (auto simp: stage_ok)
  have "v3 = dropped (c_vault c1) gid u"
    using st(3,4) by (auto simp: remove_member_def delete_group_in_def dropped_def)
  with st show thesis by (intro that) (auto simp: notice_def bnd_ok)
qed

section \<open>The abstract access state\<close>

record group_access =
  ga_members :: "string set"
  ga_banned :: "string set"
  ga_suspended :: "string \<Rightarrow> millis option"
  ga_mode :: "string option"

definition access_of :: "vault \<Rightarrow> string \<Rightarrow> group_access" where
  "access_of v gid = \<lparr>ga_members = roster v gid, ga_banned = {u. map_of (group_bans v) (gid, u) \<noteq> None},
     ga_suspended = (\<lambda>u. map_of (group_suspensions v) (gid, u)), ga_mode = map_option access_mode (group_row v gid)\<rparr>"

definition access_step :: "group_event \<Rightarrow> group_access \<Rightarrow> group_access" where
  "access_step ev A =
     (let who = ge_who ev; kind = ge_kind ev; out = A\<lparr>ga_members := ga_members A - {who}\<rparr> in
      if kind = ''joined'' then A\<lparr>ga_members := insert who (ga_members A), ga_banned := ga_banned A - {who},
        ga_suspended := (ga_suspended A)(who := None)\<rparr>
      else if kind = ''removed'' then out
      else if kind = ''banned'' then out\<lparr>ga_banned := insert who (ga_banned A)\<rparr>
      else if kind = ''suspended'' then (case ge_until ev of None \<Rightarrow> out
        | Some t \<Rightarrow> out\<lparr>ga_suspended := (ga_suspended A)(who \<mapsto> t)\<rparr>)
      else if kind = ''access'' then (case ge_mode ev of None \<Rightarrow> A
        | Some m \<Rightarrow> if access_mode_valid m then A\<lparr>ga_mode := map_option (\<lambda>_. m) (ga_mode A)\<rparr> else A)
      else A)"

lemma find_map_row:
  "(\<And>g. group_id (f g) = group_id g) \<Longrightarrow> find (\<lambda>g. group_id g = gid) (map f gs) = map_option f (find (\<lambda>g. group_id g = gid) gs)"
  by (induction gs) auto

lemma row_set_access: "set_access_mode v gid mode = Inr v' \<Longrightarrow>
    group_row v' gid = map_option (\<lambda>g. g\<lparr>access_mode := mode\<rparr>) (group_row v gid)"
proof -
  assume s: "set_access_mode v gid mode = Inr v'"
  let ?f = "\<lambda>g :: group_meta. if group_id g = gid then g\<lparr>access_mode := mode\<rparr> else g"
  have "find (\<lambda>g. group_id g = gid) (map ?f gs) = map_option ?f (find (\<lambda>g. group_id g = gid) gs)" for gs
    by (rule find_map_row) simp
  then have "group_row v' gid = map_option ?f (group_row v gid)"
    using s by (auto simp: set_access_mode_def group_row_def)
  also have "\<dots> = map_option (\<lambda>g. g\<lparr>access_mode := mode\<rparr>) (group_row v gid)"
    by (auto simp: group_row_def find_Some_iff intro!: option.map_cong0 split: option.split)
  finally show ?thesis .
qed

text \<open>The effects of the single operations.\<close>

lemma access_ops:
  "add_member v gid u = Inr v' \<Longrightarrow> access_of v' gid = (access_of v gid)\<lparr>ga_members := insert u (ga_members (access_of v gid))\<rparr>"
  "remove_member v gid u = Inr v' \<Longrightarrow> access_of v' gid = (access_of v gid)\<lparr>ga_members := ga_members (access_of v gid) - {u}\<rparr>"
  "ban_user v gid u ts = Inr v' \<Longrightarrow> access_of v' gid = (access_of v gid)\<lparr>ga_banned := insert u (ga_banned (access_of v gid))\<rparr>"
  "unban_user v gid u = Inr v' \<Longrightarrow> access_of v' gid = (access_of v gid)\<lparr>ga_banned := ga_banned (access_of v gid) - {u}\<rparr>"
  "suspend_user v gid u t = Inr v' \<Longrightarrow> access_of v' gid = (access_of v gid)\<lparr>ga_suspended := (ga_suspended (access_of v gid))(u \<mapsto> t)\<rparr>"
  "clear_suspension v gid u = Inr v' \<Longrightarrow> access_of v' gid = (access_of v gid)\<lparr>ga_suspended := (ga_suspended (access_of v gid))(u := None)\<rparr>"
  "delete_group_in v gid u = Inr v' \<Longrightarrow> access_of v' gid = access_of v gid"
  "set_access_mode v gid mode = Inr v' \<Longrightarrow> access_of v' gid = (access_of v gid)\<lparr>ga_mode := map_option (\<lambda>_. mode) (ga_mode (access_of v gid))\<rparr>"
  subgoal by (auto simp: access_of_def add_member_def roster_def group_row_def)
  subgoal by (auto simp: access_of_def remove_member_def roster_def group_row_def)
  subgoal by (auto simp: access_of_def ban_user_def roster_def group_row_def)
  subgoal by (auto simp: access_of_def unban_user_def roster_def group_row_def)
  subgoal by (auto simp: access_of_def suspend_user_def roster_def group_row_def)
  subgoal by (auto simp: access_of_def clear_suspension_def roster_def group_row_def)
  subgoal by (auto simp: access_of_def delete_group_in_def roster_def group_row_def)
  subgoal
    by (frule row_set_access)
      (auto simp: access_of_def set_access_mode_def roster_def option.map_comp o_def)
  done

text \<open>The sending side leaves it alone.\<close>

definition same_access_of :: "string \<Rightarrow> vault \<Rightarrow> vault \<Rightarrow> bool" where
  "same_access_of gid v v' = (access_of v' gid = access_of v gid)"

lemma same_access_of_tables:
  "groups v' = groups v \<Longrightarrow> chat_members v' = chat_members v \<Longrightarrow> group_bans v' = group_bans v \<Longrightarrow>
     group_suspensions v' = group_suspensions v \<Longrightarrow> same_access_of gid v v'"
  by (simp add: same_access_of_def access_of_def roster_def group_row_def)

interpretation rules: crypto_ops "\<lambda>_. True" "same_access_of gid" for gid
proof
  show "coherent (\<lambda>_. True) (same_access_of gid)" by (auto simp: same_access_of_def intro: preorder_relI)
qed (auto simp: session_op_defs upsert_contact_def intro!: same_access_of_tables)

lemma rules_system_line: "vacts (\<lambda>_. True) (same_access_of gid) (system_line W g line ts)"
  unfolding system_line_def emit_system_def store_message_def
  by (intro rules.vrules) (auto simp: insert_message_def intro: same_access_of_tables)

lemma rules_stages:
  "vacts (\<lambda>_. True) (same_access_of gid) (notice W S g me ev)"
  "vacts (\<lambda>_. True) (same_access_of gid) (rekey_group W S me g)"
  "vacts (\<lambda>_. True) (same_access_of gid) (epilogue W g line e)"
  unfolding notice_def rekey_group_def epilogue_def
  by (intro rules.vrules rules.chat_title rules.broadcast_group_event rules.distribute_group_key rules_system_line;
      erule (1) rules.keep_group_out)+

lemma rules_admit: "vacts (\<lambda>_. True) (same_access_of gid) (andthen (system_line W g line ts) (emit_chats X))"
  by (intro rules.vrules rules_system_line)

section \<open>Members follow\<close>






section \<open>The owner carries out\<close>

text \<open>
  The event an owner's command stands for, when its checks pass: the clock is read where the code does.
\<close>

fun commanded :: "world \<Rightarrow> client \<Rightarrow> string \<Rightarrow> chat_command \<Rightarrow> (string \<times> group_event) option" where
  "commanded W c me (RemoveMember gid u) =
     (if u = me then None else Some (gid, \<lparr>ge_kind = ''removed'', ge_who = u, ge_mode = None, ge_until = None\<rparr>))"
| "commanded W c me (BanMember gid u) =
     (if u = me then None else Some (gid, \<lparr>ge_kind = ''banned'', ge_who = u, ge_mode = None, ge_until = None\<rparr>))"
| "commanded W c me (SuspendMember gid u d) = (case parse_duration d of
       None \<Rightarrow> None
     | Some ms \<Rightarrow> if u = me \<or> ms \<le> 0 then None else Some (gid, \<lparr>ge_kind = ''suspended'', ge_who = u,
         ge_mode = None, ge_until = Some (wrap_i64 (w_now W (c_tick c) + ms))\<rparr>))"
| "commanded W c me (SetAccess gid mode) =
     (if access_mode_valid mode
      then Some (gid, \<lparr>ge_kind = ''access'', ge_who = [], ge_mode = Some mode, ge_until = None\<rparr>) else None)"
| "commanded W c me (InviteMember gid u) =
     (if u = me \<or> u \<in> ga_banned (access_of (c_vault c) gid) \<or> suspended_at (c_vault c) gid u (w_now W (c_tick c))
      then None else Some (gid, joined_event u))"
| "commanded W c me (AcceptMember gid u) =
     (if map_of (group_join_requests (c_vault c)) (gid, u) = None \<or> u \<in> ga_banned (access_of (c_vault c) gid) \<or>
         suspended_at (c_vault c) gid u (w_now W (c_tick c))
      then None else Some (gid, joined_event u))"
| "commanded W c me _ = None"

lemma moderate_access:
  assumes "moderate W S gid me u kind t c = (Inr (), c')"
  shows "access_of (c_vault c') gid = (access_of (c_vault c) gid)\<lparr>ga_members := ga_members (access_of (c_vault c) gid) - {u}\<rparr>"
proof -
  obtain c1 c3 where st:
    "notice W S gid me \<lparr>ge_kind = kind, ge_who = u, ge_mode = None, ge_until = t\<rparr> c = (Inr (), c1)"
    "rekey_group W S me gid (c1\<lparr>c_vault := dropped (c_vault c1) gid u\<rparr>) = (Inr (), c3)"
    "epilogue W gid (group_event_text kind u []) (InfoEvent (u @ '' '' @ kind)) c3 = (Inr (), c')"
    using moderate_stages [OF assms] .
  have "access_of (c_vault c1) gid = access_of (c_vault c) gid"
    "access_of (c_vault c3) gid = access_of (dropped (c_vault c1) gid u) gid"
    "access_of (c_vault c') gid = access_of (c_vault c3) gid"
    using vactsD [OF rules_stages(1) st(1), of gid] vactsD [OF rules_stages(2) st(2), of gid]
      vactsD [OF rules_stages(3) st(3), of gid]
    by (simp_all add: same_access_of_def)
  moreover have "access_of (dropped v gid u) gid = (access_of v gid)\<lparr>ga_members := ga_members (access_of v gid) - {u}\<rparr>" for v
    by (auto simp: access_of_def dropped_def roster_def group_row_def)
  ultimately show ?thesis by simp
qed

lemma admit_stages:
  assumes "admit_member W X gid u now c = (Inr (), c')"
  obtains v1 v2 name grp fresh c1 c2 c3 where "add_member (c_vault c) gid u = Inr v1" "remove_join_request v1 gid u = Inr v2"
    "outbound_group W (p_seal X) gid (c\<lparr>c_vault := v2\<rparr>) = (Inr (grp, fresh), c1)"
    "distribute_group_key W (p_seal X) (p_me X) gid name [u] grp c1 = (Inr (), c2)"
    "broadcast_group_event W (p_seal X) (p_me X) gid name (joined_event u) c2 = (Inr (), c3)"
    "andthen (system_line W gid (group_event_text ''joined'' u []) now) (emit_chats X) c3 = (Inr (), c')"
  using assms unfolding admit_member_def chat_title_def
  by (auto simp: bnd_ok [of "vget _"] bnd_ok [of "bnd (vget _) _"] bnd_ok [of "outbound_group _ _ _"] vget_ok ret_ok vput_ok
      andthen_unit [of "vput _"] andthen_unit [of "distribute_group_key _ _ _ _ _ _ _"] andthen_unit [of "broadcast_group_event _ _ _ _ _ _"])

lemma admit_access:
  assumes "admit_member W X gid u now c = (Inr (), c')"
  shows "access_of (c_vault c') gid = (access_of (c_vault c) gid)\<lparr>ga_members := insert u (ga_members (access_of (c_vault c) gid))\<rparr>"
proof (rule admit_stages [OF assms])
  fix v1 v2 name grp fresh c1 c2 c3
  assume st: "add_member (c_vault c) gid u = Inr v1" "remove_join_request v1 gid u = Inr v2"
    "outbound_group W (p_seal X) gid (c\<lparr>c_vault := v2\<rparr>) = (Inr (grp, fresh), c1)"
    "distribute_group_key W (p_seal X) (p_me X) gid name [u] grp c1 = (Inr (), c2)"
    "broadcast_group_event W (p_seal X) (p_me X) gid name (joined_event u) c2 = (Inr (), c3)"
    "andthen (system_line W gid (group_event_text ''joined'' u []) now) (emit_chats X) c3 = (Inr (), c')"
  have "access_of (c_vault c') gid = access_of v2 gid"
    using vactsD [OF rules.outbound_group st(3), of gid] vactsD [OF rules.distribute_group_key st(4), of gid]
      vactsD [OF rules.broadcast_group_event st(5), of gid] vactsD [OF rules_admit st(6), of gid]
    by (simp add: same_access_of_def)
  moreover have "access_of v2 gid = access_of v1 gid"
    using st(2) by (auto simp: remove_join_request_def access_of_def roster_def group_row_def)
  ultimately show ?thesis using access_ops(1) [OF st(1)] by simp
qed

lemma not_suspended_access:
  assumes "is_suspended v gid u now = Inr (b, v')"
  shows "b = suspended_at v gid u now"
    and "\<not> b \<Longrightarrow> access_of v' gid = (access_of v gid)\<lparr>ga_suspended := (ga_suspended (access_of v gid))(u := None)\<rparr>"
proof -
  from assms show "b = suspended_at v gid u now"
    by (auto simp: is_suspended_def suspended_until_def suspended_at_def res_bind_Inr_iff split: option.splits if_splits)
  assume "\<not> b"
  with assms consider "map_of (group_suspensions v) (gid, u) = None" "v' = v" | "clear_suspension v gid u = Inr v'"
    by (auto simp: is_suspended_def suspended_until_def res_bind_Inr_iff split: option.splits if_splits)
  then show "access_of v' gid = (access_of v gid)\<lparr>ga_suspended := (ga_suspended (access_of v gid))(u := None)\<rparr>"
  proof cases
    case 1
    then have "(ga_suspended (access_of v gid))(u := None) = ga_suspended (access_of v gid)"
      by (intro fun_upd_idem) (simp add: access_of_def)
    with 1 show ?thesis by simp
  next
    case 2
    then show ?thesis by (rule access_ops)
  qed
qed

text \<open>What has happened before a command changes the roster or tells anybody: nothing sent, keys and roster as before.\<close>

definition prepared :: "client \<Rightarrow> client \<Rightarrow> bool" where
  "prepared c c0 = (c_sent c0 = c_sent c \<and> group_out (c_vault c0) = group_out (c_vault c) \<and> v_up (c_vault c0) = v_up (c_vault c) \<and>
     chat_members (c_vault c0) = chat_members (c_vault c))"


text \<open>The three kinds of command an owner has: each is a preparation, then the change and the announcement.\<close>

definition moderates :: "world \<Rightarrow> sess \<Rightarrow> string \<Rightarrow> string \<Rightarrow> group_event \<Rightarrow> client \<Rightarrow> client \<Rightarrow> bool" where
  "moderates W S gid me ev c c' = (\<exists>u kind t c0. ev = \<lparr>ge_kind = kind, ge_who = u, ge_mode = None, ge_until = t\<rparr> \<and> prepared c c0 \<and>
     access_step ev (access_of (c_vault c) gid) =
       (access_of (c_vault c0) gid)\<lparr>ga_members := ga_members (access_of (c_vault c0) gid) - {u}\<rparr> \<and>
     moderate W S gid me u kind t c0 = (Inr (), c'))"

definition admits :: "world \<Rightarrow> sess \<Rightarrow> string \<Rightarrow> string \<Rightarrow> group_event \<Rightarrow> client \<Rightarrow> client \<Rightarrow> bool" where
  "admits W S gid me ev c c' = (\<exists>u now c0 c3. ev = joined_event u \<and> prepared c c0 \<and>
     access_step ev (access_of (c_vault c) gid) =
       (access_of (c_vault c0) gid)\<lparr>ga_members := insert u (ga_members (access_of (c_vault c0) gid))\<rparr> \<and>
     admit_member W (as_user S me) gid u now c0 = (Inr (), c3) \<and> c_vault c' = c_vault c3 \<and> c_sent c' = c_sent c3)"

definition reopens :: "world \<Rightarrow> sess \<Rightarrow> string \<Rightarrow> string \<Rightarrow> group_event \<Rightarrow> client \<Rightarrow> client \<Rightarrow> bool" where
  "reopens W S gid me ev c c' = (\<exists>c0 c1 line e. prepared c c0 \<and>
     access_step ev (access_of (c_vault c) gid) = access_of (c_vault c0) gid \<and>
     notice W S gid me ev c0 = (Inr (), c1) \<and> epilogue W gid line e c1 = (Inr (), c'))"

lemma let_in:
  assumes "unless_banned gid u (unless_suspended W gid u what (\<lambda>now.
      andthen (admit_member W (as_user S me) gid u now) (emit (InfoEvent msg)))) c = (Inr (), c')"
    and "u \<notin> ga_banned (access_of (c_vault c) gid)" and "\<not> suspended_at (c_vault c) gid u (w_now W (c_tick c))"
  shows "admits W S gid me (joined_event u) c c'"
proof -
  have nb: "map_of (group_bans (c_vault c)) (gid, u) = None" using assms(2) by (auto simp: access_of_def)
  have up: "v_up (c_vault c)"
    using assms(1) by (auto simp: unless_banned_def stage_ok is_banned_def)
  obtain b v1 where sus: "is_suspended (c_vault c) gid u (w_now W (c_tick c)) = Inr (b, v1)"
    and run: "(if b then fail_with ''suspended'' (u @ '' is suspended; /unsuspend first to '' @ what)
       else andthen (admit_member W (as_user S me) gid u (w_now W (c_tick c))) (emit (InfoEvent msg)))
         (c\<lparr>c_tick := Suc (c_tick c), c_vault := v1\<rparr>) = (Inr (), c')"
    using assms(1) nb up
    by (auto simp: unless_banned_def unless_suspended_def is_banned_def vget_def now_millis_def bnd_ok draw_ok vcall_ok
        bnd_def [of "vget _"])
  have b: "\<not> b" using not_suspended_access(1) [OF sus] assms(3) by simp
  with run obtain c3 where
      "admit_member W (as_user S me) gid u (w_now W (c_tick c)) (c\<lparr>c_tick := Suc (c_tick c), c_vault := v1\<rparr>) = (Inr (), c3)"
      "c_vault c' = c_vault c3" "c_sent c' = c_sent c3"
    by (auto simp: andthen_ok emit_ok)
  moreover have "prepared c (c\<lparr>c_tick := Suc (c_tick c), c_vault := v1\<rparr>)"
    using sus by (auto simp: prepared_def is_suspended_def suspended_until_def clear_suspension_def res_bind_Inr_iff
        split: option.splits if_splits)
  moreover have "ga_banned (access_of (c_vault c) gid) - {u} = ga_banned (access_of (c_vault c) gid)" using assms(2) by simp
  ultimately show ?thesis
    unfolding admits_def using not_suspended_access(2) [OF sus b]
    by (intro exI conjI) (rule refl | assumption | simp add: access_step_def joined_event_def)+
qed

lemma bnd_andthen: "bnd m (\<lambda>x. andthen (f x) n) = andthen (bnd m f) n"
  by (rule ext) (auto simp: andthen_def bnd_def split: prod.split sum.split)

lemma reopened:
  assumes "access_mode_valid mode" and "cmd_set_access W S gid mode c = (Inr (), c')" and "\<And>f. as_owner S gid f c = f me c"
  shows "reopens W S gid me \<lparr>ge_kind = ''access'', ge_who = [], ge_mode = Some mode, ge_until = None\<rparr> c c'"
proof -
  let ?ev = "\<lparr>ge_kind = ''access'', ge_who = [], ge_mode = Some mode, ge_until = None\<rparr>"
  let ?closing = "epilogue W gid (group_event_text ''access'' [] mode) (InfoEvent (''access mode set to '' @ mode))"
  have "cmd_set_access W S gid mode c = andthen (vput (\<lambda>v. set_access_mode v gid mode)) (andthen (notice W S gid me ?ev) ?closing) c"
    using assms(1) by (simp add: cmd_set_access_def assms(3) notice_def epilogue_def bnd_andthen)
  with assms(2) obtain v1 c2 where run: "set_access_mode (c_vault c) gid mode = Inr v1"
      "notice W S gid me ?ev (c\<lparr>c_vault := v1\<rparr>) = (Inr (), c2)" "?closing c2 = (Inr (), c')"
    by (auto simp: andthen_ok vput_ok)
  moreover have "prepared c (c\<lparr>c_vault := v1\<rparr>)" using run(1) by (auto simp: prepared_def set_access_mode_def)
  moreover have "access_step ?ev (access_of (c_vault c) gid) = access_of (c_vault (c\<lparr>c_vault := v1\<rparr>)) gid"
    using access_ops(8) [OF run(1)] assms(1) by (simp add: access_step_def)
  ultimately show ?thesis unfolding reopens_def by blast
qed

text \<open>Commands that moderate; \<open>as\<close> is what \<open>as_owner_run\<close> gives.\<close>

lemma bans:
  assumes "ban_member W S gid u c = (Inr (), c')" and "u \<noteq> me" and as: "\<And>f. as_owner S gid f c = f me c"
  shows "moderates W S gid me \<lparr>ge_kind = ''banned'', ge_who = u, ge_mode = None, ge_until = None\<rparr> c c'"
proof -
  obtain v1 where run: "ban_user (c_vault c) gid u (w_now W (c_tick c)) = Inr v1"
      "moderate W S gid me u ''banned'' None (c\<lparr>c_tick := Suc (c_tick c), c_vault := v1\<rparr>) = (Inr (), c')"
    using assms by (auto simp: ban_member_def now_millis_def stage_ok)
  then have "prepared c (c\<lparr>c_tick := Suc (c_tick c), c_vault := v1\<rparr>)" by (auto simp: prepared_def ban_user_def)
  then show ?thesis using run access_ops(3) [OF run(1)] by (auto simp: moderates_def access_step_def)
qed

lemma suspends:
  assumes "suspend_member W S gid u d c = (Inr (), c')" and "u \<noteq> me" and "parse_duration d = Some ms" and "0 < ms"
    and "til = wrap_i64 (w_now W (c_tick c) + ms)" and as: "\<And>f. as_owner S gid f c = f me c"
  shows "moderates W S gid me \<lparr>ge_kind = ''suspended'', ge_who = u, ge_mode = None, ge_until = Some til\<rparr> c c'"
proof -
  obtain v1 where run: "suspend_user (c_vault c) gid u til = Inr v1"
      "moderate W S gid me u ''suspended'' (Some til) (c\<lparr>c_tick := Suc (c_tick c), c_vault := v1\<rparr>) = (Inr (), c')"
    using assms by (auto simp: suspend_member_def now_millis_def stage_ok Let_def)
  then have "prepared c (c\<lparr>c_tick := Suc (c_tick c), c_vault := v1\<rparr>)" by (auto simp: prepared_def suspend_user_def)
  then show ?thesis using run access_ops(5) [OF run(1)] by (auto simp: moderates_def access_step_def)
qed

lemma removes:
  assumes "cmd_remove_member W S gid u c = (Inr (), c')" and "u \<noteq> me" and as: "\<And>f. as_owner S gid f c = f me c"
  shows "moderates W S gid me \<lparr>ge_kind = ''removed'', ge_who = u, ge_mode = None, ge_until = None\<rparr> c c'"
  using assms by (auto simp: cmd_remove_member_def moderates_def access_step_def prepared_def intro!: exI [of _ c])

lemma owner_stages:
  assumes "v_up (c_vault c)" and "s_linked S" and "my_name (c_vault c) = Some me"
    and "owned_by (group_row (c_vault c) gid) me"
    and "commanded W c me cmd = Some (gid, ev)" and "run_chat W S cmd c = (Inr (), c')"
  shows "moderates W S gid me ev c c' \<or> admits W S gid me ev c c' \<or> reopens W S gid me ev c c'"
proof -
  note as = as_owner_run [OF assms(1-4)]
  show ?thesis
  proof (cases cmd)
    case (RemoveMember g u)
    with assms(5,6) removes [OF _ _ as] show ?thesis by (auto split: if_splits)
  next
    case (BanMember g u)
    with assms(5,6) bans [OF _ _ as] show ?thesis by (auto split: if_splits)
  next
    case (SuspendMember g u d)
    with assms(5,6) suspends [OF _ _ _ _ refl as] show ?thesis by (auto split: if_splits option.splits)
  next
    case (SetAccess g mode)
    with assms(5,6) reopened [OF _ _ as] show ?thesis by (auto split: if_splits)
  next
    case (InviteMember g u)
    with assms(5,6) as show ?thesis
      by (auto simp: invite_member_def intro: let_in split: if_splits)
  next
    case (AcceptMember g u)
    with assms(1,5,6) as show ?thesis
      by (auto simp: accept_member_def vget_def bnd_def [of "vget _"] has_join_request_def intro: let_in split: if_splits)
  qed (use assms(5) in auto)
qed

lemma owner_carries_out:
  assumes "v_up (c_vault c)" and "s_linked S" and "my_name (c_vault c) = Some me"
    and "owned_by (group_row (c_vault c) gid) me"
    and "commanded W c me cmd = Some (gid, ev)" and "run_chat W S cmd c = (Inr (), c')"
  shows "access_of (c_vault c') gid = access_step ev (access_of (c_vault c) gid)"
  using owner_stages [OF assms]
proof (elim disjE)
  assume "moderates W S gid me ev c c'"
  then show ?thesis by (auto simp: moderates_def dest: moderate_access)
next
  assume "admits W S gid me ev c c'"
  then show ?thesis by (auto simp: admits_def dest: admit_access)
next
  assume "reopens W S gid me ev c c'"
  then obtain c0 c1 line e where "access_step ev (access_of (c_vault c) gid) = access_of (c_vault c0) gid"
      and run: "notice W S gid me ev c0 = (Inr (), c1)" "epilogue W gid line e c1 = (Inr (), c')"
    by (auto simp: reopens_def)
  then show ?thesis
    using vactsD [OF rules_stages(1) run(1), of gid] vactsD [OF rules_stages(3) run(2), of gid] by (simp add: same_access_of_def)
qed

section \<open>Rotating the key\<close>

definition same_group_out :: "vault \<Rightarrow> vault \<Rightarrow> bool" where
  "same_group_out v v' = (group_out v' = group_out v \<and> v_up v' = v_up v)"

interpretation outs: olm_ops "\<lambda>_. True" same_group_out
  by unfold_locales (auto simp: same_group_out_def session_op_defs upsert_contact_def intro: preorder_relI)

lemma outs_epilogue: "vacts (\<lambda>_. True) same_group_out (epilogue W gid line e)"
  unfolding epilogue_def system_line_def emit_system_def store_message_def
  by (intro outs.vrules) (auto simp: same_group_out_def insert_message_def)

lemma epilogue_silent: "sends Q (epilogue W gid line e)"
  unfolding epilogue_def by (intro send_rules sends_line)

lemma notice_broadcasts:
  assumes "notice W S gid me ev c = (Inr (), c')"
  obtains name where "broadcast_group_event W (s_seal S) me gid name ev c = (Inr (), c')"
  using assms by (auto simp: notice_def chat_title_def stage_ok ret_ok)

lemma rekey_run:
  assumes "rekey_group W S me gid c = (Inr (), c')" and "seals (s_seal S)"
  shows "load_group_out (c_vault c') (s_seal S) gid = Inr (Some (w_group_sender W (c_tick c)))"
    and "\<exists>later device name members m. c_sent c' = c_sent c @ later \<and>
      list_all (key_traffic (roster (c_vault c) gid - {me})) later \<and> set members = roster (c_vault c) gid \<and>
      (\<forall>p \<in> roster (c_vault c) gid - {me}. handed W (s_seal S) gid
        (share_for W gid name device (w_group_sender W (c_tick c)) members m) p (c_vault c) later)"
proof -
  let ?g = "w_group_sender W (c_tick c)"
  obtain v1 rs name where st: "save_group_out (c_vault c) (s_seal S) gid ?g = Inr v1" "get_members v1 gid = Inr rs"
      "distribute_group_key W (s_seal S) me gid name rs ?g (c\<lparr>c_tick := Suc (c_tick c), c_vault := v1\<rparr>) = (Inr (), c')"
    using assms(1) by (auto simp: rekey_group_def chat_title_def stage_ok ret_ok)
  obtain blob where blob: "to_pickle_encrypted (s_seal S) ?g = Inr blob" "v1 = (c_vault c)\<lparr>group_out := AList.update gid blob (group_out (c_vault c))\<rparr>"
      "v_up (c_vault c)"
    using st(1) by (auto simp: save_group_out_def res_bind_Inr_iff)
  have "group_out (c_vault c') = group_out v1" "v_up (c_vault c')"
    using vactsD [OF outs.distribute_group_key st(3)] blob(2,3) by (simp_all add: same_group_out_def)
  then show "load_group_out (c_vault c') (s_seal S) gid = Inr (Some ?g)"
    using blob assms(2) by (simp add: load_group_out_def open_row_def seals_def)
  have rs: "set rs = roster (c_vault c) gid" using st(2) blob(2) by (force simp: get_members_def roster_def)
  have "sends_just (key_traffic (roster (c_vault c) gid - {me})) (c\<lparr>c_tick := Suc (c_tick c), c_vault := v1\<rparr>) c'"
    by (rule sendsD [OF sends_distribute st(3)]) (simp add: rs)
  then obtain later where later: "c_sent c' = c_sent c @ later" "list_all (key_traffic (roster (c_vault c) gid - {me})) later"
    by (auto simp: sends_just_def)
  have "same_olm p v1 (c_vault c)" for p by (simp add: same_olm_def blob(2))
  note same = handed_same [OF this]
  from distribute_hands [OF st(3)] obtain device m where
      "\<forall>p \<in> set rs - {me}. handed W (s_seal S) gid (share_for W gid name device ?g rs m) p v1 later"
    using later(1) st(2) by auto
  then show "\<exists>later device name members m. c_sent c' = c_sent c @ later \<and>
      list_all (key_traffic (roster (c_vault c) gid - {me})) later \<and> set members = roster (c_vault c) gid \<and>
      (\<forall>p \<in> roster (c_vault c) gid - {me}. handed W (s_seal S) gid (share_for W gid name device ?g members m) p (c_vault c) later)"
    using later rs same by (intro exI conjI) simp_all
qed

lemma notice_run:
  assumes "notice W S gid me ev c = (Inr (), c1)" and "u \<in> roster (c_vault c) gid" and "u \<noteq> me"
  shows "\<exists>stored dest earlier now. load_group_out (c_vault c) (s_seal S) gid = Inr stored \<and>
    set dest = roster (c_vault c) gid - {me} \<and> c_sent c1 = c_sent c @ earlier @
      [event_message W (s_seal S) (case stored of Some g \<Rightarrow> g | None \<Rightarrow> w_group_sender W (c_tick c)) gid ev dest now] \<and>
    list_all (key_traffic (roster (c_vault c) gid - {me})) earlier \<and>
    (stored \<noteq> None \<longrightarrow> earlier = [] \<and> olm_sessions (c_vault c1) = olm_sessions (c_vault c)) \<and> c_tick c < c_tick c1"
proof -
  obtain name where "broadcast_group_event W (s_seal S) me gid name ev c = (Inr (), c1)" using notice_broadcasts [OF assms(1)] .
  from broadcast_run [OF this] obtain stored dest earlier now where told: "load_group_out (c_vault c) (s_seal S) gid = Inr stored"
      "set dest = roster (c_vault c) gid - {me}"
      "c_sent c1 = c_sent c @ earlier @ (if dest = [] then [] else
        [event_message W (s_seal S) (case stored of Some g \<Rightarrow> g | None \<Rightarrow> w_group_sender W (c_tick c)) gid ev dest now])"
      "list_all (key_traffic (roster (c_vault c) gid - {me})) earlier"
      "stored \<noteq> None \<longrightarrow> earlier = [] \<and> olm_sessions (c_vault c1) = olm_sessions (c_vault c)"
      "dest \<noteq> [] \<longrightarrow> c_tick c < c_tick c1"
    by (elim exE conjE) (rule that)
  have "u \<in> set dest" unfolding told(2) using assms(2,3) by simp
  then have "dest \<noteq> []" by (cases dest) simp_all
  then show ?thesis using told by (intro exI conjI) (assumption | simp)+
qed

text \<open>C5: Removing, banning and suspending rotate the key. Everybody on the roster, the target among them, is told
  in one message under the key in use (the stored one; if there is none, one is minted and shared first). Then
  the target leaves the roster and a new sender key, drawn only after that message, becomes the group's. All
  that is sent from then on are shares of that key to the members that remain, and requests for their prekeys:
  each remaining member with a pairwise session gets the new key, the others are asked for.\<close>

theorem moderation_rotates_the_key:
  assumes "moderate W S gid me u kind t c = (Inr (), c')" and "seals (s_seal S)"
    and "u \<in> roster (c_vault c) gid" and "u \<noteq> me"
  shows "\<exists>stored (c1 :: client) earlier dest now later key share.
    load_group_out (c_vault c) (s_seal S) gid = Inr stored \<and> set dest = roster (c_vault c) gid - {me} \<and>
    c_sent c1 = c_sent c @ earlier @ [event_message W (s_seal S) (case stored of Some g \<Rightarrow> g | None \<Rightarrow> w_group_sender W (c_tick c))
      gid \<lparr>ge_kind = kind, ge_who = u, ge_mode = None, ge_until = t\<rparr> dest now] \<and>
    list_all (key_traffic (roster (c_vault c) gid - {me})) earlier \<and>
    (stored \<noteq> None \<longrightarrow> earlier = [] \<and> olm_sessions (c_vault c1) = olm_sessions (c_vault c)) \<and>
    c_tick c < c_tick c1 \<and> key = w_group_sender W (c_tick c1) \<and>
    load_group_out (c_vault c') (s_seal S) gid = Inr (Some key) \<and> roster (c_vault c') gid = roster (c_vault c) gid - {u} \<and>
    c_sent c' = c_sent c1 @ later \<and> list_all (key_traffic (roster (c_vault c') gid - {me})) later \<and>
    gs_group_id share = gid \<and> gs_session_key share = session_key_b64 (w_vz W) key \<and> set (gs_members share) = roster (c_vault c') gid \<and>
    (\<forall>p \<in> roster (c_vault c') gid - {me}. handed W (s_seal S) gid share p (c_vault c1) later)"
proof -
  let ?ev = "\<lparr>ge_kind = kind, ge_who = u, ge_mode = None, ge_until = t\<rparr>" and ?K = "s_seal S"
  obtain c1 c3 where st: "notice W S gid me ?ev c = (Inr (), c1)"
    "rekey_group W S me gid (c1\<lparr>c_vault := dropped (c_vault c1) gid u\<rparr>) = (Inr (), c3)"
    "epilogue W gid (group_event_text kind u []) (InfoEvent (u @ '' '' @ kind)) c3 = (Inr (), c')"
    using moderate_stages [OF assms(1)] .
  let ?key = "w_group_sender W (c_tick c1)"
  have now: "roster (c_vault c') gid = roster (c_vault c) gid - {u}"
    using arg_cong [OF moderate_access [OF assms(1)], of ga_members] by (simp add: access_of_def)
  have "roster (c_vault c1) gid = roster (c_vault c) gid"
    using vactsD [OF rules_stages(1) st(1), of gid] by (auto simp: same_access_of_def access_of_def)
  then have left: "roster (dropped (c_vault c1) gid u) gid = roster (c_vault c') gid"
    unfolding now by (auto simp: dropped_def roster_def)
  from notice_run [OF st(1) assms(3,4)] obtain stored dest earlier now where told: "load_group_out (c_vault c) ?K gid = Inr stored"
      "set dest = roster (c_vault c) gid - {me}" "c_sent c1 = c_sent c @ earlier @
        [event_message W ?K (case stored of Some g \<Rightarrow> g | None \<Rightarrow> w_group_sender W (c_tick c)) gid ?ev dest now]"
      "list_all (key_traffic (roster (c_vault c) gid - {me})) earlier"
      "stored \<noteq> None \<longrightarrow> earlier = [] \<and> olm_sessions (c_vault c1) = olm_sessions (c_vault c)" "c_tick c < c_tick c1"
    by (elim exE conjE) (rule that)
  have same: "same_olm p (c_vault c1) (dropped (c_vault c1) gid u)" for p by (simp add: same_olm_def dropped_def)
  from rekey_run(2) [OF st(2) assms(2)] obtain later device name members m where new: "c_sent c3 = c_sent c1 @ later" "list_all (key_traffic (roster (c_vault c') gid - {me})) later"
      "set members = roster (c_vault c') gid"
      "\<forall>p \<in> roster (c_vault c') gid - {me}. handed W ?K gid
         (share_for W gid name device (w_group_sender W (c_tick c1)) members m) p (c_vault c1) later"
    by (simp add: left handed_same [OF same]) (elim exE conjE, rule that)
  have silent: "c_sent c' = c_sent c3" using sendsD [OF epilogue_silent [of "\<lambda>_. False"] st(3)] by (auto simp: sends_just_def list_all_iff)
  have kept: "load_group_out (c_vault c') ?K gid = Inr (Some (w_group_sender W (c_tick c1)))"
    using rekey_run(1) [OF st(2) assms(2)] vactsD [OF outs_epilogue st(3)]
    by (auto simp: load_group_out_def open_row_def res_bind_Inr_iff same_group_out_def vq_def)
  define share where "share = share_for W gid name device ?key members m"
  have wire: "c_sent c' = c_sent c1 @ later" using new(1) silent by simp
  have given: "gs_group_id share = gid" "gs_session_key share = session_key_b64 (w_vz W) ?key" "set (gs_members share) = roster (c_vault c') gid"
    "\<forall>p \<in> roster (c_vault c') gid - {me}. handed W ?K gid share p (c_vault c1) later"
    using new(3,4) by (simp_all add: share_def share_for_def)
  show ?thesis by (intro exI conjI) (rule refl told wire left now kept new(2) given)+
qed

text \<open>We, \<open>al\<close>, own group \<open>g\<close> with bob and cy, and cy has our key; events are written as two words.\<close>

definition demo_owner :: client where
  "demo_owner = demo_client\<lparr>c_vault := (c_vault demo_client)\<lparr>meta := [(''username'', ''al''), (''account_pickle'', ''D'')],
     chat_members := [(''g'', ''al''), (''g'', ''bob''), (''g'', ''cy'')], group_out := [(''g'', ''K'')],
     group_in := [((''g'', ''al''), ''K''), ((''g'', ''bob''), ''S'')]\<rparr>\<rparr>"

definition event_world :: world where
  "event_world = demo_world\<lparr>w_vz := demo_vz\<lparr>vz_group_encrypt := (\<lambda>g p. (CHR ''0'' # p, g))\<rparr>,
     w_codec := demo_codec\<lparr>event_bytes := (\<lambda>e. ge_kind e @ '' '' @ ge_who e),
       event_of := (\<lambda>b. Inr \<lparr>ge_kind = takeWhile (\<lambda>c. c \<noteq> CHR '' '') b, ge_who = tl (dropWhile (\<lambda>c. c \<noteq> CHR '' '') b),
         ge_mode = None, ge_until = None\<rparr>)\<rparr>\<rparr>"

lemma demo_owner_facts: "v_up (c_vault demo_owner)" "s_linked demo_sess" "my_name (c_vault demo_owner) = Some ''al''"
    "owned_by (group_row (c_vault demo_owner) ''g'') ''al''" "seals (s_seal demo_sess)"
    "roster (c_vault demo_owner) ''g'' = {''al'', ''bob'', ''cy''}"
  by (auto simp add: demo_owner_def demo_sess_def demo_defs my_name_def group_row_def owned_by_def seals_def roster_def)

lemmas moderate_run_defs = moderate_def broadcast_group_event_def outbound_group_def rekey_group_def distribute_group_key_def
      chat_title_def get_chat_def get_members_def get_device_def ensure_olm_def send_olm_def load_olm_def load_group_out_def
      open_row_def system_line_def emit_system_def store_message_def group_event_text_def session_op_defs table_op_defs
      load_account_def meta_get_def ok_or_def get_group_meta_def olm_encrypt_def group_encrypt_def map_err_def
      demo_owner_def demo_sess_def demo_defs act_defs client_act_defs

lemma demo_moderate: "\<exists>c'. moderate event_world demo_sess ''g'' ''al'' ''bob'' ''removed'' None demo_owner = (Inr (), c')"
proof -
  have "fst (moderate event_world demo_sess ''g'' ''al'' ''bob'' ''removed'' None demo_owner) = Inr ()"
    by (simp add: moderate_run_defs event_world_def)
  then show ?thesis by (metis prod.collapse)
qed

theorem moderation_rotates_the_key_witness:
  "\<exists>c' (c1 :: client) later share. moderate event_world demo_sess ''g'' ''al'' ''bob'' ''removed'' None demo_owner = (Inr (), c') \<and>
     c_sent c' = c_sent c1 @ later \<and> roster (c_vault c') ''g'' = {''al'', ''cy''} \<and>
     gs_session_key share = session_key_b64 (w_vz event_world) (w_group_sender event_world (c_tick c1)) \<and>
     handed event_world demo_seal ''g'' share ''cy'' (c_vault c1) later"
proof -
  obtain c' where run: "moderate event_world demo_sess ''g'' ''al'' ''bob'' ''removed'' None demo_owner = (Inr (), c')"
    using demo_moderate by blast
  have K: "s_seal demo_sess = demo_seal" and bob: "''bob'' \<in> roster (c_vault demo_owner) ''g''" "''bob'' \<noteq> ''al''"
    by (simp_all add: demo_sess_def demo_owner_facts(6))
  have left: "roster (c_vault demo_owner) ''g'' - {''bob''} = {''al'', ''cy''}" unfolding demo_owner_facts(6) by auto
  show ?thesis
    using moderation_rotates_the_key [OF run demo_owner_facts(5) bob] run
    unfolding K left by (elim exE conjE) auto
qed

section \<open>The owner announces\<close>







section \<open>Owner and members\<close>




section \<open>Suspensions that end before they start\<close>

lemma wrap_below: "i64_max < x \<Longrightarrow> x \<le> 2 * i64_max \<Longrightarrow> wrap_i64 x < 0"
proof -
  assume x: "i64_max < x" "x \<le> 2 * i64_max"
  have "(x + 2 ^ 63 - 2 ^ 64) mod 2 ^ 64 = x + 2 ^ 63 - 2 ^ 64"
    using x by (intro mod_pos_pos_trivial) (simp_all add: i64_max_def)
  then have "(x + 2 ^ 63) mod 2 ^ 64 = x + 2 ^ 63 - 2 ^ 64" by (simp only: minus_mod_self2)
  then show ?thesis using x by (simp add: wrap_i64_def i64_max_def)
qed

text \<open>C35: A suspension runs from the owner's clock for the given time as long as their sum fits an \<open>i64\<close>. A
  longer one, which \<open>parse_duration\<close> accepts, wraps around to a deadline in the distant past: the target is
  removed, but is not suspended at any time.\<close>

theorem suspension_deadline:
  assumes "v_up (c_vault c)" and "s_linked S" and "my_name (c_vault c) = Some me"
    and "owned_by (group_row (c_vault c) gid) me" and "u \<noteq> me"
    and "parse_duration d = Some ms" and "0 < ms" and "now = w_now W (c_tick c)" and "0 \<le> now" and "now \<le> i64_max"
    and "run_chat W S (SuspendMember gid u d) c = (Inr (), c')"
  shows "(now + ms \<le> i64_max \<longrightarrow> suspended_at (c_vault c') gid u t = (t < now + ms)) \<and>
    (i64_max < now + ms \<longrightarrow> 0 \<le> t \<longrightarrow> \<not> suspended_at (c_vault c') gid u t)"
proof (intro conjI impI)
  let ?ev = "\<lparr>ge_kind = ''suspended'', ge_who = u, ge_mode = None, ge_until = Some (wrap_i64 (now + ms))\<rparr>"
  have "commanded W c me (SuspendMember gid u d) = Some (gid, ?ev)"
    using assms(5-8) by simp
  from owner_carries_out [OF assms(1-4) this assms(11)]
  have "ga_suspended (access_of (c_vault c') gid) u = Some (wrap_i64 (now + ms))"
    by (simp add: access_step_def)
  then have susp: "suspended_at (c_vault c') gid u t \<longleftrightarrow> t < wrap_i64 (now + ms)"
    by (simp add: access_of_def suspended_at_def)
  have ms: "ms \<le> i64_max" using parse_duration_bounds [OF assms(6)] by simp
  show "now + ms \<le> i64_max \<Longrightarrow> suspended_at (c_vault c') gid u t = (t < now + ms)"
    using susp assms(7,9) wrap_i64_id [of "now + ms"] by (simp add: in_i64_def i64_min_def)
  show "i64_max < now + ms \<Longrightarrow> 0 \<le> t \<Longrightarrow> \<not> suspended_at (c_vault c') gid u t"
    using susp wrap_below [of "now + ms"] ms assms(10) by simp
qed

text \<open>For 106751991167 days, in November 2023.\<close>

definition late_world :: world where
  "late_world = demo_world\<lparr>w_now := (\<lambda>_. 1700000000000)\<rparr>"

lemma late_duration: "parse_duration ''106751991167d'' = Some 9223372036828800000"
proof -
  have "show_nat 106751991167 = ''106751991167''" by (simp add: show_nat.simps hex_digit_def)
  moreover have "parse_duration (show_nat 106751991167 @ ''d'') = checked_i64 (int 106751991167 * 86400000)"
    by (rule parse_duration_number) (simp_all add: unit_ms_def i64_max_def)
  ultimately show ?thesis by (simp add: checked_i64_def in_i64_def i64_min_def i64_max_def)
qed

lemma late_suspend: "\<exists>c'. run_chat late_world demo_sess (SuspendMember ''g'' ''bob'' ''106751991167d'') demo_owner = (Inr (), c')"
proof -
  have "fst (run_chat late_world demo_sess (SuspendMember ''g'' ''bob'' ''106751991167d'') demo_owner) = Inr ()"
    by (simp add: suspend_member_def as_owner_run [OF demo_owner_facts(1-4)] late_duration)
      (simp add: late_world_def moderate_run_defs)
  then show ?thesis by (metis prod.collapse)
qed

theorem suspension_deadline_witness:
  "\<exists>c'. run_chat late_world demo_sess (SuspendMember ''g'' ''bob'' ''106751991167d'') demo_owner = (Inr (), c') \<and>
     \<not> suspended_at (c_vault c') ''g'' ''bob'' 1700000000001"
proof -
  obtain c' where run: "run_chat late_world demo_sess (SuspendMember ''g'' ''bob'' ''106751991167d'') demo_owner = (Inr (), c')"
    using late_suspend by blast
  have "\<not> suspended_at (c_vault c') ''g'' ''bob'' 1700000000001"
    using suspension_deadline [OF demo_owner_facts(1-4) _ late_duration _ refl _ _ run]
    by (simp add: late_world_def i64_max_def)
  with run show ?thesis by blast
qed

end
