(* ===== verification/Nitro.thy ===== *)
theory Nitro
  imports Prelude
begin

text \<open>
  The verifier of AWS Nitro attestation documents (backend/attest/src/nitro.rs). Parsing COSE, CBOR
  and X.509 and the P-384 signature itself are third-party code: functions of \<open>nitro_prims\<close>, which
  return the library's error text where they refuse. A certificate is the parts of it the code reads.
  \<open>i64\<close> conversions and differences wrap, as in a release build.
\<close>

section \<open>Data\<close>

record cose_sign1 =
  cs_payload :: "bytes option"
  cs_signature :: bytes
  cs_tbs :: bytes

record attestation_doc =
  ad_module_id :: string
  ad_digest :: string
  ad_timestamp :: nat
  ad_pcrs :: "(nat \<times> bytes) list"
  ad_certificate :: bytes
  ad_cabundle :: "bytes list"
  ad_user_data :: "bytes option"
  ad_nonce :: "bytes option"

record nitro_claims =
  nc_pcr0_hex :: string
  nc_module_id :: string
  nc_user_data :: "bytes option"

record certificate =
  ct_spki_der :: "string + bytes"
  ct_key_bits :: "bytes option"
  ct_not_before_ms :: nat
  ct_not_after_ms :: nat
  ct_extensions :: "(string \<times> bytes) list option"
  ct_tbs_der :: "string + bytes"
  ct_signature :: "bytes option"

record 'k nitro_prims =
  np_cose :: "bytes \<Rightarrow> string + cose_sign1"
  np_cbor :: "bytes \<Rightarrow> string + attestation_doc"
  np_cert :: "bytes \<Rightarrow> string + certificate"
  np_basic_constraints :: "bytes \<Rightarrow> string + bool"
  np_sec1_key :: "bytes \<Rightarrow> string + 'k"
  np_sig_der :: "bytes \<Rightarrow> string + bytes"
  np_sig_raw :: "bytes \<Rightarrow> string + bytes"
  np_verify :: "'k \<Rightarrow> bytes \<Rightarrow> bytes \<Rightarrow> string + unit"

definition MAX_AGE_MS :: int where "MAX_AGE_MS = 5 * 60 * 1000"
definition OID_BASIC_CONSTRAINTS :: string where "OID_BASIC_CONSTRAINTS = ''2.5.29.19''"

section \<open>Certificates\<close>

definition p384_from_cert :: "'k nitro_prims \<Rightarrow> certificate \<Rightarrow> string + 'k" where
  "p384_from_cert N c =
     res_bind (ok_or ''no spki bits'' (ct_key_bits c)) (\<lambda>b.
       map_err (\<lambda>e. ''p384 key: '' @ e) (np_sec1_key N b))"

definition spki_bytes :: "certificate \<Rightarrow> string + bytes" where
  "spki_bytes c = map_err (\<lambda>e. ''spki: '' @ e) (ct_spki_der c)"

definition check_validity :: "certificate \<Rightarrow> millis \<Rightarrow> string + unit" where
  "check_validity c now_ms =
     (let nb = wrap_i64 (int (ct_not_before_ms c)); na = wrap_i64 (int (ct_not_after_ms c))
      in if now_ms < nb then Inl ''certificate not yet valid''
         else if now_ms > na then Inl ''certificate expired''
         else Inr ())"

definition verify_cert_signed_by :: "'k nitro_prims \<Rightarrow> certificate \<Rightarrow> 'k \<Rightarrow> string + unit" where
  "verify_cert_signed_by N child issuer_key =
     res_bind (map_err (\<lambda>e. ''encode tbs: '' @ e) (ct_tbs_der child)) (\<lambda>tbs.
     res_bind (ok_or ''no signature bits'' (ct_signature child)) (\<lambda>sig_bytes.
     res_bind (map_err (\<lambda>e. ''cert sig parse: '' @ e) (np_sig_der N sig_bytes)) (\<lambda>sig.
       map_err (\<lambda>e. ''cert chain signature invalid: '' @ e) (np_verify N issuer_key tbs sig))))"

text \<open>\<open>require_ca\<close>: the first basicConstraints extension decides.\<close>

fun require_ca_ext :: "'k nitro_prims \<Rightarrow> (string \<times> bytes) list \<Rightarrow> string + unit" where
  "require_ca_ext N [] = Inl ''issuer cert lacks basicConstraints CA:TRUE''"
| "require_ca_ext N ((oid, v) # exts) =
     (if oid = OID_BASIC_CONSTRAINTS then
        res_bind (map_err (\<lambda>e. ''basicConstraints decode: '' @ e) (np_basic_constraints N v)) (\<lambda>ca.
          if \<not> ca then Inl ''issuer cert is not a CA (basicConstraints CA:FALSE)'' else Inr ())
      else require_ca_ext N exts)"

definition require_ca :: "'k nitro_prims \<Rightarrow> certificate \<Rightarrow> string + unit" where
  "require_ca N c =
     res_bind (ok_or ''issuer cert has no extensions (missing basicConstraints)'' (ct_extensions c))
       (require_ca_ext N)"

section \<open>The chain\<close>

definition root_trusted :: "'k nitro_prims \<Rightarrow> bytes list \<Rightarrow> bytes \<Rightarrow> bool" where
  "root_trusted N roots root_spki =
     list_ex (\<lambda>r. case np_cert N r of Inl e \<Rightarrow> False
       | Inr c \<Rightarrow> (case spki_bytes c of Inl e \<Rightarrow> False | Inr s \<Rightarrow> s = root_spki)) roots"

fun check_links :: "'k nitro_prims \<Rightarrow> certificate list \<Rightarrow> string + unit" where
  "check_links N (a # b # cs) =
     res_bind (p384_from_cert N a) (\<lambda>k.
     res_bind (verify_cert_signed_by N b k) (\<lambda>_. check_links N (b # cs)))"
| "check_links N _ = Inr ()"

definition verify_chain ::
    "'k nitro_prims \<Rightarrow> bytes \<Rightarrow> bytes list \<Rightarrow> bytes list \<Rightarrow> millis \<Rightarrow> string + 'k" where
  "verify_chain N leaf_der cabundle roots now_ms =
     (if cabundle = [] then Inl ''empty cabundle''
      else if roots = [] then Inl ''no pinned roots configured''
      else
        res_bind (traverse (\<lambda>c. map_err (\<lambda>e. ''cabundle cert: '' @ e) (np_cert N c)) cabundle) (\<lambda>cas.
        res_bind (map_err (\<lambda>e. ''leaf cert: '' @ e) (np_cert N leaf_der)) (\<lambda>leaf.
        let path = cas @ [leaf] in
        res_bind (spki_bytes (hd path)) (\<lambda>root_spki.
        res_bind (ensure (root_trusted N roots root_spki)
                    ''attestation root is not the pinned AWS Nitro root'') (\<lambda>_.
        res_bind (traverse (\<lambda>c. check_validity c now_ms) path) (\<lambda>_.
        res_bind (check_links N path) (\<lambda>_.
        res_bind (traverse (require_ca N) (butlast path)) (\<lambda>_.
          p384_from_cert N (last path)))))))))"

section \<open>The document\<close>

definition verify_cose_with_key :: "'k nitro_prims \<Rightarrow> cose_sign1 \<Rightarrow> 'k \<Rightarrow> string + unit" where
  "verify_cose_with_key N cose key =
     res_bind (map_err (\<lambda>e. ''bad signature: '' @ e) (np_sig_raw N (cs_signature cose))) (\<lambda>sig.
       map_err (\<lambda>e. ''cose signature invalid: '' @ e) (np_verify N key (cs_tbs cose) sig))"

definition parse_doc :: "'k nitro_prims \<Rightarrow> bytes \<Rightarrow> string + attestation_doc" where
  "parse_doc N payload = map_err (\<lambda>e. ''cbor decode: '' @ e) (np_cbor N payload)"

text \<open>\<open>i64::abs\<close> in a release build keeps the least value.\<close>

definition abs_i64 :: "int \<Rightarrow> int" where
  "abs_i64 x = wrap_i64 \<bar>x\<bar>"

definition nitro_verify ::
    "'k nitro_prims \<Rightarrow> bytes \<Rightarrow> string option \<Rightarrow> bytes \<Rightarrow> millis \<Rightarrow> bytes list \<Rightarrow> bytes option \<Rightarrow>
     string + nitro_claims" where
  "nitro_verify N quote expected_pcr0_hex expected_nonce now_ms roots expect_user_data =
     res_bind (map_err (\<lambda>e. ''cose parse: '' @ e) (np_cose N quote)) (\<lambda>cose.
     res_bind (ok_or ''attestation has no payload'' (cs_payload cose)) (\<lambda>payload.
     res_bind (parse_doc N payload) (\<lambda>doc.
     res_bind (verify_chain N (ad_certificate doc) (ad_cabundle doc) roots now_ms) (\<lambda>leaf_key.
     res_bind (verify_cose_with_key N cose leaf_key) (\<lambda>_.
     let age = wrap_i64 (now_ms - wrap_i64 (int (ad_timestamp doc))) in
     res_bind (ensure (\<not> abs_i64 age > MAX_AGE_MS)
                 (''attestation timestamp not fresh (age '' @ show_int age @ '' ms)'')) (\<lambda>_.
     res_bind (ensure (ad_nonce doc = Some expected_nonce)
                 ''attestation nonce does not match the client nonce'') (\<lambda>_.
     res_bind (ok_or ''no PCR0 in attestation'' (map_of (ad_pcrs doc) 0)) (\<lambda>pcr0.
     let pcr0_hex = hex_encode pcr0 in
     res_bind (ensure (case expected_pcr0_hex of None \<Rightarrow> True
                         | Some e \<Rightarrow> eq_ignore_ascii_case e pcr0_hex)
                 ''PCR0 does not match the official enclave measurement'') (\<lambda>_.
     res_bind (ensure (case expect_user_data of None \<Rightarrow> True | Some w \<Rightarrow> ad_user_data doc = Some w)
                 ''attestation user_data does not bind the server instance key'') (\<lambda>_.
       Inr \<lparr>nc_pcr0_hex = pcr0_hex, nc_module_id = ad_module_id doc,
            nc_user_data = ad_user_data doc\<rparr>))))))))))"

section \<open>What an accepted chain is\<close>

text \<open>The certification relation: a pinned root, extended by certificates each signed by the one before.\<close>

definition valid_at :: "certificate \<Rightarrow> millis \<Rightarrow> bool" where
  "valid_at c now \<longleftrightarrow> wrap_i64 (int (ct_not_before_ms c)) \<le> now \<and> now \<le> wrap_i64 (int (ct_not_after_ms c))"

definition is_ca :: "'k nitro_prims \<Rightarrow> certificate \<Rightarrow> bool" where
  "is_ca N c \<longleftrightarrow> (\<exists>exts v. ct_extensions c = Some exts \<and> map_of exts OID_BASIC_CONSTRAINTS = Some v \<and>
     np_basic_constraints N v = Inr True)"

definition signed_by :: "'k nitro_prims \<Rightarrow> certificate \<Rightarrow> certificate \<Rightarrow> bool" where
  "signed_by N issuer child \<longleftrightarrow> (\<exists>bits key tbs sig_bytes sig u. ct_key_bits issuer = Some bits \<and>
     np_sec1_key N bits = Inr key \<and> ct_tbs_der child = Inr tbs \<and> ct_signature child = Some sig_bytes \<and>
     np_sig_der N sig_bytes = Inr sig \<and> np_verify N key tbs sig = Inr u)"

inductive certified :: "'k nitro_prims \<Rightarrow> bytes list \<Rightarrow> millis \<Rightarrow> certificate \<Rightarrow> bool"
  for N roots now where
  pinned_root: "ct_spki_der c = Inr s \<Longrightarrow> root_trusted N roots s \<Longrightarrow> valid_at c now \<Longrightarrow>
     certified N roots now c"
| issued: "certified N roots now issuer \<Longrightarrow> is_ca N issuer \<Longrightarrow> signed_by N issuer c \<Longrightarrow>
     valid_at c now \<Longrightarrow> certified N roots now c"

lemma require_ca_Inr: "require_ca N c = Inr u \<longleftrightarrow> is_ca N c"
proof -
  have "require_ca_ext N exts = Inr u \<longleftrightarrow>
      (\<exists>v. map_of exts OID_BASIC_CONSTRAINTS = Some v \<and> np_basic_constraints N v = Inr True)" for exts
    by (induction exts) (auto simp: res_bind_Inr_iff split: if_splits)
  then show ?thesis by (auto simp: require_ca_def res_bind_Inr_iff is_ca_def)
qed

lemma check_validity_Inr: "check_validity c now = Inr u \<longleftrightarrow> valid_at c now"
  by (auto simp: check_validity_def Let_def valid_at_def)

lemma signed_by_Inr:
  "(\<exists>k u. p384_from_cert N a = Inr k \<and> verify_cert_signed_by N b k = Inr u) \<longleftrightarrow> signed_by N a b"
  by (auto simp: p384_from_cert_def verify_cert_signed_by_def res_bind_Inr_iff signed_by_def)

lemma check_links_Inr:
  "check_links N path = Inr u \<longleftrightarrow> successively (signed_by N) path"
  by (induction N path rule: check_links.induct)
    (auto simp: res_bind_Inr_iff signed_by_Inr [symmetric])

lemma certified_path:
  assumes "successively (signed_by N) (path @ [leaf])" and "path \<noteq> []" and "\<forall>c \<in> set (path @ [leaf]). valid_at c now"
    and "\<forall>c \<in> set path. is_ca N c" and "ct_spki_der (hd path) = Inr s" and "root_trusted N roots s"
  shows "certified N roots now leaf"
  using assms
proof (induction path arbitrary: leaf rule: rev_induct)
  case Nil
  then show ?case by simp
next
  case (snoc c path)
  have "certified N roots now c"
  proof (cases "path = []")
    case True
    with snoc.prems show ?thesis by (auto intro: pinned_root)
  next
    case False
    then show ?thesis
      using snoc.prems by (intro snoc.IH) (auto simp: successively_append_iff)
  qed
  with snoc.prems show ?case by (auto intro: issued simp: successively_append_iff)
qed

lemma traverse_ok: "traverse f xs = Inr ys \<Longrightarrow> x \<in> set xs \<Longrightarrow> \<exists>y. f x = Inr y"
  by (auto simp: traverse_Inr list_all2_conv_all_nth in_set_conv_nth)

lemma verify_chain_sound:
  assumes "verify_chain N leaf_der cabundle roots now = Inr key"
  shows "\<exists>leaf. np_cert N leaf_der = Inr leaf \<and> certified N roots now leaf \<and> p384_from_cert N leaf = Inr key"
proof -
  from assms obtain cas leaf s where ne: "cabundle \<noteq> []"
    and cas: "traverse (\<lambda>c. map_err (\<lambda>e. ''cabundle cert: '' @ e) (np_cert N c)) cabundle = Inr cas"
    and leaf: "np_cert N leaf_der = Inr leaf" and s: "spki_bytes (hd (cas @ [leaf])) = Inr s"
    and root: "root_trusted N roots s"
    and valid: "\<exists>us. traverse (\<lambda>c. check_validity c now) (cas @ [leaf]) = Inr us"
    and links: "\<exists>u. check_links N (cas @ [leaf]) = Inr u" and ca: "\<exists>us. traverse (require_ca N) cas = Inr us"
    and key: "p384_from_cert N leaf = Inr key"
    by (auto simp: verify_chain_def Let_def res_bind_Inr_iff split: if_splits)
  have ne': "cas \<noteq> []" using ne cas by (auto simp: traverse_Inr)
  have "certified N roots now leaf"
  proof (rule certified_path)
    show "\<forall>c \<in> set (cas @ [leaf]). valid_at c now"
    proof
      fix c assume c: "c \<in> set (cas @ [leaf])"
      from valid obtain us where us: "traverse (\<lambda>c. check_validity c now) (cas @ [leaf]) = Inr us" ..
      from traverse_ok [OF us c] show "valid_at c now" by (simp add: check_validity_Inr)
    qed
    show "\<forall>c \<in> set cas. is_ca N c"
    proof
      fix c assume c: "c \<in> set cas"
      from ca obtain us where us: "traverse (require_ca N) cas = Inr us" ..
      from traverse_ok [OF us c] show "is_ca N c" by (simp add: require_ca_Inr)
    qed
    show "successively (signed_by N) (cas @ [leaf])" using links by (auto simp: check_links_Inr)
    show "ct_spki_der (hd cas) = Inr s" using s ne' by (simp add: spki_bytes_def)
  qed (use ne' root in auto)
  with leaf key show ?thesis by blast
qed

section \<open>What an accepted quote is\<close>

lemma wrap_i64_range_cases:
  assumes "0 \<le> x" "x < 2 ^ 64"
  shows "wrap_i64 x = (if x < 2 ^ 63 then x else x - 2 ^ 64)"
proof (cases "x < 2 ^ 63")
  case True
  with assms show ?thesis by (simp add: wrap_i64_def)
next
  case False
  have "x + 2 ^ 63 = (x - 2 ^ 63) + 2 ^ 64" by simp
  then have "(x + 2 ^ 63) mod 2 ^ 64 = (x - 2 ^ 63) mod 2 ^ 64" by (metis mod_add_self2)
  also have "\<dots> = x - 2 ^ 63" using assms False by (intro mod_pos_pos_trivial) auto
  finally show ?thesis using False by (simp add: wrap_i64_def)
qed

text \<open>The age check on a clock away from the ends of the range: near, or half the range ahead.\<close>

lemma fresh_iff:
  assumes now: "MAX_AGE_MS < now" "now \<le> i64_max - MAX_AGE_MS" and ts: "ts < 2 ^ 64"
  shows "\<not> abs_i64 (wrap_i64 (now - wrap_i64 (int ts))) > MAX_AGE_MS \<longleftrightarrow>
    \<bar>now - int ts\<bar> \<le> MAX_AGE_MS \<or> int ts = now + 2 ^ 63"
proof -
  have "int ts < int (2 ^ 64)" using ts by (simp only: of_nat_less_iff)
  then have ts': "0 \<le> int ts" "int ts < 2 ^ 64" by simp_all
  show ?thesis
  proof (cases "int ts < 2 ^ 63")
    case True
    then have "wrap_i64 (int ts) = int ts" using wrap_i64_range_cases ts' by simp
    moreover have "in_i64 (now - int ts)" "in_i64 \<bar>now - int ts\<bar>"
      using True ts' now unfolding in_i64_def i64_min_def i64_max_def MAX_AGE_MS_def by linarith+
    ultimately show ?thesis using True now ts'
      by (auto simp: abs_i64_def wrap_i64_id MAX_AGE_MS_def)
  next
    case big: False
    then have w: "wrap_i64 (int ts) = int ts - 2 ^ 64" using wrap_i64_range_cases ts' by simp
    let ?d = "now - (int ts - 2 ^ 64)"
    have d: "MAX_AGE_MS < ?d" "?d \<le> 2 ^ 64 - 1"
      using big ts' now by (simp_all add: MAX_AGE_MS_def i64_max_def)
    show ?thesis
    proof (cases "?d < 2 ^ 63")
      case True
      then have "in_i64 ?d" using d by (simp add: in_i64_def i64_min_def i64_max_def MAX_AGE_MS_def)
      then have "abs_i64 (wrap_i64 ?d) = ?d" using d by (simp add: abs_i64_def wrap_i64_id MAX_AGE_MS_def)
      then show ?thesis using w d True big now ts' by (auto simp: MAX_AGE_MS_def i64_max_def)
    next
      case ge: False
      then have wd: "wrap_i64 ?d = ?d - 2 ^ 64" using wrap_i64_range_cases [of ?d] d by (simp add: MAX_AGE_MS_def)
      show ?thesis
      proof (cases "?d = 2 ^ 63")
        case True
        then have "wrap_i64 ?d = - (2 ^ 63)" using wd by simp
        then have "abs_i64 (wrap_i64 ?d) = - (2 ^ 63)" by (simp add: abs_i64_def wrap_i64_def)
        then show ?thesis using w True by (auto simp: MAX_AGE_MS_def)
      next
        case False
        then have "in_i64 \<bar>?d - 2 ^ 64\<bar>" using ge d by (simp add: in_i64_def i64_min_def i64_max_def)
        then have "abs_i64 (wrap_i64 ?d) = 2 ^ 64 - ?d" using wd d by (simp add: abs_i64_def wrap_i64_id)
        then show ?thesis using w False ge big now ts' by (auto simp: MAX_AGE_MS_def i64_max_def)
      qed
    qed
  qed
qed

text \<open>C23: What a green verdict rests on. A quote that verifies is a COSE message signed by a leaf
  certificate that descends, through valid certificates each a CA and each signing the next, from a
  pinned AWS root; its document answers this client's nonce, measures the pinned enclave image, binds
  the server's instance key, and is at most five minutes old or ahead (or, by the wrap-around of
  \<open>i64\<close>, exactly 2 ^ 63 milliseconds ahead).\<close>

theorem nitro_verify_sound:
  assumes "nitro_verify N quote (Some pcr0) nonce now roots (Some key) = Inr claims"
    and "MAX_AGE_MS < now" and "now \<le> i64_max - MAX_AGE_MS" and "\<forall>p d. np_cbor N p = Inr d \<longrightarrow> ad_timestamp d < 2 ^ 64"
  shows "\<exists>cose payload doc leaf k sig u m. np_cose N quote = Inr cose \<and> cs_payload cose = Some payload \<and>
    np_cbor N payload = Inr doc \<and> np_cert N (ad_certificate doc) = Inr leaf \<and> certified N roots now leaf \<and>
    p384_from_cert N leaf = Inr k \<and> np_sig_raw N (cs_signature cose) = Inr sig \<and>
    np_verify N k (cs_tbs cose) sig = Inr u \<and>
    (\<bar>now - int (ad_timestamp doc)\<bar> \<le> MAX_AGE_MS \<or> int (ad_timestamp doc) = now + 2 ^ 63) \<and>
    ad_nonce doc = Some nonce \<and> map_of (ad_pcrs doc) 0 = Some m \<and>
    eq_ignore_ascii_case pcr0 (hex_encode m) \<and> nc_pcr0_hex claims = hex_encode m \<and>
    ad_user_data doc = Some key"
proof -
  from assms(1) obtain cose payload doc k sig u m where
    "np_cose N quote = Inr cose" "cs_payload cose = Some payload" and doc: "np_cbor N payload = Inr doc"
    and chain: "verify_chain N (ad_certificate doc) (ad_cabundle doc) roots now = Inr k"
    and "np_sig_raw N (cs_signature cose) = Inr sig" "np_verify N k (cs_tbs cose) sig = Inr u"
    and age: "\<not> abs_i64 (wrap_i64 (now - wrap_i64 (int (ad_timestamp doc)))) > MAX_AGE_MS"
    and "ad_nonce doc = Some nonce" "map_of (ad_pcrs doc) 0 = Some m"
    "eq_ignore_ascii_case pcr0 (hex_encode m)" "nc_pcr0_hex claims = hex_encode m"
    "ad_user_data doc = Some key"
    by (auto simp: nitro_verify_def parse_doc_def verify_cose_with_key_def Let_def res_bind_Inr_iff)
  with verify_chain_sound [OF chain] fresh_iff [OF assms(2,3) assms(4) [rule_format, OF doc]] show ?thesis by blast
qed

section \<open>A small quote\<close>

text \<open>One root, one leaf, and signatures that are the key followed by the signed bytes.\<close>

definition demo_cert :: "string \<Rightarrow> bytes \<Rightarrow> certificate" where
  "demo_cert name sig = \<lparr>ct_spki_der = Inr name, ct_key_bits = Some name, ct_not_before_ms = 0,
     ct_not_after_ms = 2000000000000, ct_extensions = Some [(OID_BASIC_CONSTRAINTS, ''ca'')],
     ct_tbs_der = Inr name, ct_signature = Some sig\<rparr>"

definition demo_nitro :: "string nitro_prims" where
  "demo_nitro = \<lparr>
     np_cose = (\<lambda>q. Inr \<lparr>cs_payload = Some q, cs_signature = ''LT'', cs_tbs = ''T''\<rparr>),
     np_cbor = (\<lambda>p. Inr \<lparr>ad_module_id = ''i'', ad_digest = ''SHA384'', ad_timestamp = 1700000000000,
       ad_pcrs = [(0, ''m'')], ad_certificate = ''L'', ad_cabundle = [''R''], ad_user_data = Some ''ik'',
       ad_nonce = Some ''nn''\<rparr>),
     np_cert = (\<lambda>d. if d = ''R'' then Inr (demo_cert ''R'' []) else if d = ''L'' then Inr (demo_cert ''L'' ''RL'')
       else Inl ''der''),
     np_basic_constraints = (\<lambda>v. Inr (v = ''ca'')), np_sec1_key = Inr, np_sig_der = Inr, np_sig_raw = Inr,
     np_verify = (\<lambda>k t s. if s = k @ t then Inr () else Inl ''sig'')\<rparr>"

lemmas demo_nitro_eval = demo_nitro_def demo_cert_def nitro_verify_def parse_doc_def verify_chain_def
  verify_cose_with_key_def spki_bytes_def root_trusted_def check_validity_def wrap_i64_def Let_def
  require_ca_def OID_BASIC_CONSTRAINTS_def p384_from_cert_def verify_cert_signed_by_def abs_i64_def
  MAX_AGE_MS_def map_err_def ok_or_def ensure_def

lemma demo_nitro_accepts:
  "nitro_verify demo_nitro ''Q'' (Some (hex_encode ''m'')) ''nn'' 1700000100000 [''R''] (Some ''ik'')
     = Inr \<lparr>nc_pcr0_hex = hex_encode ''m'', nc_module_id = ''i'', nc_user_data = Some ''ik''\<rparr>"
  by (simp add: demo_nitro_eval eq_ignore_ascii_case_def)

theorem nitro_verify_sound_witness:
  "\<exists>leaf. np_cert demo_nitro ''L'' = Inr leaf \<and> certified demo_nitro [''R''] 1700000100000 leaf"
proof -
  have now: "MAX_AGE_MS < 1700000100000" "1700000100000 \<le> i64_max - MAX_AGE_MS"
    by (simp_all add: MAX_AGE_MS_def i64_max_def)
  have ts: "\<forall>p d. np_cbor demo_nitro p = Inr d \<longrightarrow> ad_timestamp d < 2 ^ 64"
    by (auto simp: demo_nitro_def)
  from nitro_verify_sound [OF demo_nitro_accepts now ts] obtain p doc leaf where
    "np_cbor demo_nitro p = Inr doc" "np_cert demo_nitro (ad_certificate doc) = Inr leaf"
    "certified demo_nitro [''R''] 1700000100000 leaf" by blast
  then show ?thesis by (auto simp: demo_nitro_def)
qed

end
