(* ===== verification/Attest.thy ===== *)
theory Attest
  imports Nitro
begin

text \<open>
  Server attestation (backend/attest/src/lib.rs and official.rs): the attestation a server builds, the
  verdict a client reaches, and the trust set the client pins. Base64, BLAKE3, Ed25519 and the
  server's own executable are functions of \<open>att_prims\<close>.
\<close>

section \<open>Data\<close>

datatype tier = Unsigned | Software | Tee

record attestation =
  at_tier :: tier
  at_nonce :: string
  at_server_unix_ms :: millis
  at_build_hash :: string
  at_build_hash_alg :: string
  at_release_version :: string
  at_release_key_id :: string
  at_release_sig :: string
  at_instance_pub :: string
  at_instance_sig :: string
  at_tee_quote :: "string option"

datatype verdict = Green | Yellow | Red

record verify_result =
  vr_verdict :: verdict
  vr_tier :: tier
  vr_reason :: string
  vr_build_hash :: string
  vr_fingerprint :: string

record att_prims =
  ap_b64_encode :: "bytes \<Rightarrow> string"
  ap_b64_decode :: "string \<Rightarrow> string + bytes"
  ap_blake3 :: "bytes \<Rightarrow> bytes"
  ap_public_of :: "bytes \<Rightarrow> bytes"
  ap_sign :: "bytes \<Rightarrow> bytes \<Rightarrow> bytes"
  ap_valid_key :: "bytes \<Rightarrow> bool"
  ap_valid_sig :: "bytes \<Rightarrow> bool"
  ap_verify_strict :: "bytes \<Rightarrow> bytes \<Rightarrow> bytes \<Rightarrow> bool"
  ap_current_exe :: "bytes option"

record official =
  of_release_pubkeys :: "(string \<times> string) list"
  of_build_hash :: "string option"
  of_nitro_pcr0 :: "string option"
  of_nitro_roots :: "bytes list"

section \<open>Signed messages\<close>

definition release_msg :: "string \<Rightarrow> string \<Rightarrow> bytes" where
  "release_msg version build_hash = ''cherm-release'' @ newline # version @ newline # build_hash"

definition instance_msg :: "string \<Rightarrow> string \<Rightarrow> millis \<Rightarrow> bytes" where
  "instance_msg nonce_b64 build_hash ts =
     ''cherm-instance'' @ newline # nonce_b64 @ newline # build_hash @ newline # show_int ts"

section \<open>Helpers\<close>

definition decode32 :: "att_prims \<Rightarrow> string \<Rightarrow> string + bytes" where
  "decode32 A b64 = res_bind (ap_b64_decode A b64) (\<lambda>v.
     if length v = 32 then Inr v else Inl ''expected 32 bytes'')"

fun chunks :: "nat \<Rightarrow> 'a list \<Rightarrow> 'a list list" where
  "chunks n [] = []"
| "chunks n (x # xs) = (if n = 0 then [x # xs] else take n (x # xs) # chunks n (drop n (x # xs)))"

fun join :: "string \<Rightarrow> string list \<Rightarrow> string" where
  "join sep [] = []"
| "join sep [x] = x"
| "join sep (x # y # ys) = x @ sep @ join sep (y # ys)"

definition fingerprint_of :: "att_prims \<Rightarrow> string \<Rightarrow> string" where
  "fingerprint_of A key_b64 = join '' '' (chunks 4 (hex_encode (take 12 (ap_blake3 A key_b64))))"

definition build_hash :: "att_prims \<Rightarrow> string" where
  "build_hash A = (case ap_current_exe A of
     Some bs \<Rightarrow> hex_encode (ap_blake3 A bs) | None \<Rightarrow> ''unknown'')"

text \<open>\<open>pem_first_der\<close>: the lines of the first block, trimmed and joined.\<close>

fun pem_body :: "bool \<Rightarrow> string list \<Rightarrow> string" where
  "pem_body in_block [] = []"
| "pem_body in_block (l # ls) =
     (if prefix ''-----BEGIN'' l then pem_body True ls
      else if prefix ''-----END'' l then []
      else if in_block then trim l @ pem_body in_block ls
      else pem_body in_block ls)"

definition pem_first_der :: "att_prims \<Rightarrow> string \<Rightarrow> string + bytes" where
  "pem_first_der A pem =
     (let b64 = pem_body False (lines pem)
      in if b64 = [] then Inl ''no PEM block found'' else ap_b64_decode A b64)"

section \<open>The server's side\<close>

text \<open>A release or instance key is its 32 secret bytes.\<close>

type_synonym signing_key = bytes

definition key_from_secret_b64 :: "att_prims \<Rightarrow> string \<Rightarrow> string + signing_key" where
  "key_from_secret_b64 A s = decode32 A s"

definition public_b64 :: "att_prims \<Rightarrow> signing_key \<Rightarrow> string" where
  "public_b64 A k = ap_b64_encode A (ap_public_of A k)"

definition release_key_id :: "att_prims \<Rightarrow> signing_key \<Rightarrow> string" where
  "release_key_id A k = ap_b64_encode A (take 8 (ap_public_of A k))"

definition release_sign :: "att_prims \<Rightarrow> signing_key \<Rightarrow> string \<Rightarrow> string \<Rightarrow> string" where
  "release_sign A k version bh = ap_b64_encode A (ap_sign A k (release_msg version bh))"

definition instance_sign :: "att_prims \<Rightarrow> signing_key \<Rightarrow> string \<Rightarrow> string \<Rightarrow> millis \<Rightarrow> string" where
  "instance_sign A k nonce bh ts = ap_b64_encode A (ap_sign A k (instance_msg nonce bh ts))"

definition build_software ::
    "att_prims \<Rightarrow> string \<Rightarrow> string \<Rightarrow> millis \<Rightarrow> signing_key \<Rightarrow> signing_key \<Rightarrow> attestation" where
  "build_software A nonce_b64 version now_ms release inst =
     (let bh = build_hash A in
      \<lparr>at_tier = Software, at_nonce = nonce_b64, at_server_unix_ms = now_ms, at_build_hash = bh,
       at_build_hash_alg = ''blake3'', at_release_version = version,
       at_release_key_id = release_key_id A release, at_release_sig = release_sign A release version bh,
       at_instance_pub = public_b64 A inst, at_instance_sig = instance_sign A inst nonce_b64 bh now_ms,
       at_tee_quote = None\<rparr>)"

definition build_unsigned ::
    "att_prims \<Rightarrow> string \<Rightarrow> string \<Rightarrow> millis \<Rightarrow> signing_key \<Rightarrow> attestation" where
  "build_unsigned A nonce_b64 version now_ms inst =
     (let bh = build_hash A in
      \<lparr>at_tier = Unsigned, at_nonce = nonce_b64, at_server_unix_ms = now_ms, at_build_hash = bh,
       at_build_hash_alg = ''blake3'', at_release_version = version, at_release_key_id = [],
       at_release_sig = [], at_instance_pub = public_b64 A inst,
       at_instance_sig = instance_sign A inst nonce_b64 bh now_ms, at_tee_quote = None\<rparr>)"

section \<open>The client's side\<close>

definition verify_ed :: "att_prims \<Rightarrow> string \<Rightarrow> bytes \<Rightarrow> string \<Rightarrow> bool" where
  "verify_ed A pub_b64 msg sig_b64 =
     (case (decode32 A pub_b64, ap_b64_decode A sig_b64) of
        (Inr pk, Inr sig) \<Rightarrow> ap_valid_key A pk \<and> ap_valid_sig A sig \<and> ap_verify_strict A pk msg sig
      | _ \<Rightarrow> False)"

definition verify_release_sig ::
    "att_prims \<Rightarrow> official \<Rightarrow> string \<Rightarrow> string \<Rightarrow> string \<Rightarrow> string \<Rightarrow> bool" where
  "verify_release_sig A off key_id version bh sig_b64 =
     (case find (\<lambda>(i, _). i = key_id) (of_release_pubkeys off) of
        None \<Rightarrow> False
      | Some (_, pub_b64) \<Rightarrow> verify_ed A pub_b64 (release_msg version bh) sig_b64)"

definition verify_instance_sig ::
    "att_prims \<Rightarrow> string \<Rightarrow> string \<Rightarrow> string \<Rightarrow> millis \<Rightarrow> string \<Rightarrow> bool" where
  "verify_instance_sig A instance_pub nonce bh ts sig_b64 =
     verify_ed A instance_pub (instance_msg nonce bh ts) sig_b64"

definition em_dash :: string where "em_dash = [CHR 0xE2, CHR 0x80, CHR 0x94]"

definition red_result :: "att_prims \<Rightarrow> attestation \<Rightarrow> string \<Rightarrow> verify_result" where
  "red_result A att reason = \<lparr>vr_verdict = Red, vr_tier = at_tier att, vr_reason = reason,
     vr_build_hash = at_build_hash att, vr_fingerprint = fingerprint_of A (at_instance_pub att)\<rparr>"

definition verify_software :: "att_prims \<Rightarrow> attestation \<Rightarrow> official \<Rightarrow> verify_result" where
  "verify_software A att off =
     (if \<not> verify_release_sig A off (at_release_key_id att) (at_release_version att) (at_build_hash att)
             (at_release_sig att)
      then red_result A att ''release signature is not from the official project key''
      else if (case of_build_hash off of Some e \<Rightarrow> e \<noteq> at_build_hash att | None \<Rightarrow> False)
      then red_result A att ''build hash does not match the official public codebase''
      else if \<not> verify_instance_sig A (at_instance_pub att) (at_nonce att) (at_build_hash att)
                  (at_server_unix_ms att) (at_instance_sig att)
      then red_result A att ''server instance signature is invalid''
      else \<lparr>vr_verdict = Yellow, vr_tier = at_tier att,
            vr_reason = ''this server has only a software signature'',
            vr_build_hash = at_build_hash att, vr_fingerprint = fingerprint_of A (at_instance_pub att)\<rparr>)"

definition verify_tee ::
    "att_prims \<Rightarrow> 'k nitro_prims \<Rightarrow> attestation \<Rightarrow> string \<Rightarrow> millis \<Rightarrow> official \<Rightarrow> verify_result" where
  "verify_tee A N att expected_nonce_b64 now_ms off =
     (case at_tee_quote att of
        None \<Rightarrow> red_result A att ''tee tier but no quote provided''
      | Some q \<Rightarrow>
          (case of_nitro_pcr0 off of
             None \<Rightarrow> red_result A att
               ''TEE verification unavailable: no official Nitro PCR0 is pinned in this build''
           | Some expected_pcr0 \<Rightarrow>
               (case (ap_b64_decode A q, ap_b64_decode A expected_nonce_b64) of
                  (Inr quote, Inr nonce_bytes) \<Rightarrow>
                    (let instance_raw = (case ap_b64_decode A (at_instance_pub att) of Inr b \<Rightarrow> b | Inl e \<Rightarrow> [])
                     in case nitro_verify N quote (Some expected_pcr0) nonce_bytes now_ms
                               (of_nitro_roots off) (Some instance_raw) of
                          Inr claims \<Rightarrow>
                            \<lparr>vr_verdict = Green, vr_tier = at_tier att,
                             vr_reason = ''hardware TEE attests the official build'',
                             vr_build_hash = nc_pcr0_hex claims,
                             vr_fingerprint = fingerprint_of A (at_instance_pub att)\<rparr>
                        | Inl e \<Rightarrow> red_result A att (''TEE quote verification failed: '' @ e))
                | _ \<Rightarrow> red_result A att ''malformed tee quote or nonce'')))"

definition verify ::
    "att_prims \<Rightarrow> 'k nitro_prims \<Rightarrow> attestation \<Rightarrow> string \<Rightarrow> millis \<Rightarrow> official \<Rightarrow> verify_result" where
  "verify A N att expected_nonce_b64 now_ms off =
     (if at_nonce att \<noteq> expected_nonce_b64
      then red_result A att ''attestation nonce did not match (possible replay)''
      else case at_tier att of
             Unsigned \<Rightarrow> red_result A att (''server provided no signature '' @ em_dash @
               '' its code is unverified'')
           | Software \<Rightarrow> verify_software A att off
           | Tee \<Rightarrow> verify_tee A N att expected_nonce_b64 now_ms off)"

section \<open>The pinned trust set\<close>

definition DEV_RELEASE_PUBLIC_B64 :: string where
  "DEV_RELEASE_PUBLIC_B64 = ''rP8FiokGtvgz/SsImR73QCYo8fL5tAbw333dA5tUNJ8=''"

definition key_id_of :: "att_prims \<Rightarrow> string \<Rightarrow> string" where
  "key_id_of A pub_b64 = (case ap_b64_decode A pub_b64 of
     Inr bs \<Rightarrow> if length bs \<ge> 8 then ap_b64_encode A (take 8 bs) else []
   | Inl e \<Rightarrow> [])"

definition add_key :: "att_prims \<Rightarrow> string \<Rightarrow> (string \<times> string) list \<Rightarrow> (string \<times> string) list" where
  "add_key A p keys = (let i = key_id_of A p
     in if i \<noteq> [] \<and> \<not> list_ex (\<lambda>(e, _). e = i) keys then keys @ [(i, p)] else keys)"

definition add_keys :: "att_prims \<Rightarrow> string \<Rightarrow> (string \<times> string) list \<Rightarrow> (string \<times> string) list" where
  "add_keys A raw keys =
     fold (add_key A) (filter (\<lambda>s. s \<noteq> []) (map trim (split_on CHR '','' raw))) keys"

text \<open>What \<open>pinned\<close> reads: the keys baked in at build time, the build profile, the environment, the
  vendored root certificate.\<close>

record trust_inputs =
  ti_baked_release_pubs :: "string option"
  ti_debug_assertions :: bool
  ti_env_release_pubs :: "string option"
  ti_env_hash :: "string option"
  ti_env_pcr0 :: "string option"
  ti_root_pem :: string

definition nonempty_env :: "string option \<Rightarrow> string option" where
  "nonempty_env v = (case v of Some s \<Rightarrow> if s \<noteq> [] then Some s else None | None \<Rightarrow> None)"

definition pinned :: "att_prims \<Rightarrow> trust_inputs \<Rightarrow> official" where
  "pinned A ti =
     (let ks = (case ti_baked_release_pubs ti of Some b \<Rightarrow> add_keys A b [] | None \<Rightarrow> []);
          ks = (case ti_env_release_pubs ti of Some e \<Rightarrow> add_keys A e ks | None \<Rightarrow> ks);
          ks = (if ti_debug_assertions ti then add_keys A DEV_RELEASE_PUBLIC_B64 ks else ks)
      in \<lparr>of_release_pubkeys = ks, of_build_hash = nonempty_env (ti_env_hash ti),
          of_nitro_pcr0 = nonempty_env (ti_env_pcr0 ti),
          of_nitro_roots = (case pem_first_der A (ti_root_pem ti) of Inr d \<Rightarrow> [d] | Inl e \<Rightarrow> [])\<rparr>)"

section \<open>What the verdicts mean\<close>

lemma red_result_verdict [simp]: "vr_verdict (red_result A att r) = Red"
  by (simp add: red_result_def)

lemma verify_software_yellow:
  "vr_verdict (verify_software A att off) = Yellow \<longleftrightarrow>
     verify_release_sig A off (at_release_key_id att) (at_release_version att) (at_build_hash att) (at_release_sig att) \<and>
     (\<forall>h. of_build_hash off = Some h \<longrightarrow> at_build_hash att = h) \<and>
     verify_instance_sig A (at_instance_pub att) (at_nonce att) (at_build_hash att) (at_server_unix_ms att) (at_instance_sig att)"
  by (auto simp: verify_software_def split: option.split)

lemma verify_software_not_green: "vr_verdict (verify_software A att off) \<noteq> Green"
  by (simp add: verify_software_def)

lemma verify_tee_not_yellow: "vr_verdict (verify_tee A N att n now off) \<noteq> Yellow"
  by (auto simp: verify_tee_def Let_def split: option.split sum.split prod.split)

lemma verify_tee_green:
  assumes "vr_verdict (verify_tee A N att nonce now off) = Green"
  shows "\<exists>q pcr0 quote nb raw claims. at_tee_quote att = Some q \<and> of_nitro_pcr0 off = Some pcr0 \<and>
    ap_b64_decode A q = Inr quote \<and> ap_b64_decode A nonce = Inr nb \<and>
    raw = (case ap_b64_decode A (at_instance_pub att) of Inr b \<Rightarrow> b | Inl e \<Rightarrow> []) \<and>
    nitro_verify N quote (Some pcr0) nb now (of_nitro_roots off) (Some raw) = Inr claims \<and>
    vr_build_hash (verify_tee A N att nonce now off) = nc_pcr0_hex claims"
  using assms by (auto simp: verify_tee_def Let_def split: option.splits sum.splits prod.splits)

text \<open>A small server and its client: a signature is the public key followed by the message.\<close>

definition demo_att :: att_prims where
  "demo_att = \<lparr>ap_b64_encode = (\<lambda>b. b), ap_b64_decode = Inr, ap_blake3 = (\<lambda>b. b),
     ap_public_of = (\<lambda>k. take 32 (k @ replicate 32 CHR ''x'')), ap_sign = (\<lambda>k m. take 32 (k @ replicate 32 CHR ''x'') @ m),
     ap_valid_key = (\<lambda>_. True), ap_valid_sig = (\<lambda>_. True), ap_verify_strict = (\<lambda>p m s. s = p @ m),
     ap_current_exe = None\<rparr>"

definition demo_official :: official where
  "demo_official = \<lparr>of_release_pubkeys = [(release_key_id demo_att ''rk'', public_b64 demo_att ''rk'')],
     of_build_hash = None, of_nitro_pcr0 = None, of_nitro_roots = []\<rparr>"

lemma demo_yellow:
  "vr_verdict (verify demo_att demo_nitro (build_software demo_att ''n'' ''1'' 5 ''rk'' ''ik'') ''n'' 6 demo_official) = Yellow"
  by (simp add: verify_def verify_software_yellow verify_release_sig_def verify_instance_sig_def verify_ed_def
      decode32_def build_software_def Let_def demo_official_def demo_att_def public_b64_def release_key_id_def
      release_sign_def instance_sign_def)

text \<open>C9: No colour without its proof. A verdict is yellow only for the software tier, with a signature
  by a pinned release key over this version and build hash, the pinned build hash where one is set,
  and the server's own signature over this client's nonce; it is green only for the TEE tier, with a
  pinned enclave measurement and a quote that verifies for this nonce and the server's instance key,
  and then the hash shown is the measured one. Everything else, an unsigned server and an answer to
  another nonce included, is red.\<close>

theorem verdict_sound:
  fixes A :: att_prims and N :: "'k nitro_prims" and off :: official
  defines "v \<equiv> verify A N"
  shows "(vr_verdict (v att nonce now off) = Yellow \<longleftrightarrow> at_nonce att = nonce \<and> at_tier att = Software \<and>
      (\<exists>i pub. find (\<lambda>(j, _). j = at_release_key_id att) (of_release_pubkeys off) = Some (i, pub) \<and>
         verify_ed A pub (release_msg (at_release_version att) (at_build_hash att)) (at_release_sig att)) \<and>
      (\<forall>h. of_build_hash off = Some h \<longrightarrow> at_build_hash att = h) \<and>
      verify_ed A (at_instance_pub att) (instance_msg nonce (at_build_hash att) (at_server_unix_ms att)) (at_instance_sig att))
    \<and> (vr_verdict (v att nonce now off) = Green \<longrightarrow> at_nonce att = nonce \<and> at_tier att = Tee \<and>
      (\<exists>q pcr0 quote nb claims. at_tee_quote att = Some q \<and> of_nitro_pcr0 off = Some pcr0 \<and>
         ap_b64_decode A q = Inr quote \<and> ap_b64_decode A nonce = Inr nb \<and>
         nitro_verify N quote (Some pcr0) nb now (of_nitro_roots off)
           (Some (case ap_b64_decode A (at_instance_pub att) of Inr b \<Rightarrow> b | Inl e \<Rightarrow> [])) = Inr claims \<and>
         vr_build_hash (v att nonce now off) = nc_pcr0_hex claims))"
proof -
  have "verify_release_sig A off k ver bh sg \<longleftrightarrow>
      (\<exists>i pub. find (\<lambda>(j, _). j = k) (of_release_pubkeys off) = Some (i, pub) \<and>
         verify_ed A pub (release_msg ver bh) sg)" for k ver bh sg
    by (auto simp: verify_release_sig_def split: option.split)
  then show ?thesis
    using verify_tee_green [of A N att nonce now off]
    by (cases "at_tier att") (auto simp: v_def verify_def verify_software_yellow verify_software_not_green
        verify_tee_not_yellow verify_instance_sig_def)
qed

theorem verdict_sound_witness:
  "\<exists>pub. verify_ed demo_att pub (release_msg ''1'' (build_hash demo_att)) (release_sign demo_att ''rk'' ''1'' (build_hash demo_att))"
  using conjunct1 [OF verdict_sound [of demo_att demo_nitro "build_software demo_att ''n'' ''1'' 5 ''rk'' ''ik''" "''n''" 6 demo_official]]
    demo_yellow
  by (auto simp: build_software_def Let_def)

text \<open>A release signature is about one build. Two releases whose versions are single lines have the
  same signed text only if they are the same version and the same build hash.\<close>

theorem release_msg_injective:
  assumes "newline \<notin> set v" and "newline \<notin> set v'" and "release_msg v h = release_msg v' h'"
  shows "v = v' \<and> h = h'"
  using assms newline_split [of newline v v' h h'] by (simp add: release_msg_def)

theorem release_msg_injective_witness:
  "release_msg ''1.0'' ''ab'' \<noteq> release_msg ''1.1'' ''ab''"
  using release_msg_injective [of "''1.0''" "''1.1''" "''ab''" "''ab''"] by (auto simp: newline_def)

section \<open>A genuine server is believed\<close>

text \<open>What the verifier relies on of the libraries: base64 decodes what it encoded, public keys have 32
  bytes, and a signature made with a secret key verifies under its public key.\<close>

definition sound_crypto :: "att_prims \<Rightarrow> bool" where
  "sound_crypto A \<longleftrightarrow> (\<forall>b. ap_b64_decode A (ap_b64_encode A b) = Inr b) \<and>
     (\<forall>k. length (ap_public_of A k) = 32 \<and> ap_valid_key A (ap_public_of A k)) \<and>
     (\<forall>k m. ap_valid_sig A (ap_sign A k m) \<and> ap_verify_strict A (ap_public_of A k) m (ap_sign A k m))"

lemma verify_ed_own:
  "sound_crypto A \<Longrightarrow> verify_ed A (public_b64 A k) m (ap_b64_encode A (ap_sign A k m))"
  by (simp add: sound_crypto_def verify_ed_def public_b64_def decode32_def)

text \<open>The software tier works end to end. A server that signs with a release key the client has
  pinned under its id, running the pinned build where one is pinned, gets a yellow verdict on its
  answer to the client's nonce; the same server without attestation gets a red one.\<close>

theorem software_tier_complete:
  assumes "sound_crypto A" and "(release_key_id A rk, public_b64 A rk) \<in> set (of_release_pubkeys off)"
    and "distinct (map fst (of_release_pubkeys off))"
    and "\<forall>h. of_build_hash off = Some h \<longrightarrow> h = build_hash A"
  shows "vr_verdict (verify A N (build_software A nonce version now rk ik) nonce now' off) = Yellow
    \<and> vr_verdict (verify A N (build_unsigned A nonce version now ik) nonce now' off) = Red"
proof -
  have "find (\<lambda>(j, _). j = release_key_id A rk) ks = Some (release_key_id A rk, public_b64 A rk)"
    if "(release_key_id A rk, public_b64 A rk) \<in> set ks" "distinct (map fst ks)" for ks :: "(string \<times> string) list"
    using that by (induction ks) force+
  with assms have "find (\<lambda>(j, _). j = release_key_id A rk) (of_release_pubkeys off)
      = Some (release_key_id A rk, public_b64 A rk)" by blast
  with assms verify_ed_own [OF assms(1)] show ?thesis
    by (auto simp: verify_def verify_software_yellow verify_release_sig_def verify_instance_sig_def
        build_software_def build_unsigned_def Let_def release_sign_def instance_sign_def)
qed

theorem software_tier_complete_witness:
  "vr_verdict (verify demo_att demo_nitro (build_software demo_att ''n'' ''1'' 5 ''rk'' ''ik'') ''n'' 6
     \<lparr>of_release_pubkeys = [(release_key_id demo_att ''rk'', public_b64 demo_att ''rk'')], of_build_hash = None,
      of_nitro_pcr0 = None, of_nitro_roots = []\<rparr>) = Yellow"
proof -
  have "sound_crypto demo_att" by (simp add: sound_crypto_def demo_att_def min_def)
  from software_tier_complete [where N = demo_nitro, OF this, of "''rk''" "\<lparr>of_release_pubkeys =
      [(release_key_id demo_att ''rk'', public_b64 demo_att ''rk'')], of_build_hash = None,
      of_nitro_pcr0 = None, of_nitro_roots = []\<rparr>"]
  show ?thesis by simp
qed

section \<open>The trust set\<close>

text \<open>Each pinned key is filed under the id made of its own first eight bytes, once.\<close>

definition keys_ok :: "att_prims \<Rightarrow> (string \<times> string) list \<Rightarrow> bool" where
  "keys_ok A ks \<longleftrightarrow> distinct (map fst ks) \<and> (\<forall>(i, p) \<in> set ks. i = key_id_of A p \<and> i \<noteq> [])"

lemma add_key_ok: "keys_ok A ks \<Longrightarrow> keys_ok A (add_key A p ks)"
  by (auto simp: keys_ok_def add_key_def Let_def list_ex_iff)

lemma add_keys_ok: "keys_ok A ks \<Longrightarrow> keys_ok A (add_keys A raw ks)"
proof -
  have "keys_ok A ks \<Longrightarrow> keys_ok A (fold (add_key A) ps ks)" for ps
    by (induction ps arbitrary: ks) (auto intro: add_key_ok)
  then show "keys_ok A ks \<Longrightarrow> keys_ok A (add_keys A raw ks)" by (simp add: add_keys_def)
qed

lemma pinned_keys_ok: "keys_ok A (of_release_pubkeys (pinned A ti))"
proof -
  have "keys_ok A []" by (simp add: keys_ok_def)
  then show ?thesis by (simp add: pinned_def Let_def add_keys_ok split: option.split)
qed

lemma set_add_keys: "snd ` set (add_keys A raw ks) \<subseteq> snd ` set ks \<union> set (map trim (split_on CHR '','' raw))"
proof -
  have step: "snd ` set (add_key A p ks) \<subseteq> insert p (snd ` set ks)" for p ks
    by (auto simp: add_key_def Let_def)
  have "snd ` set (fold (add_key A) ps ks) \<subseteq> snd ` set ks \<union> set ps" for ps
  proof (induction ps arbitrary: ks)
    case (Cons p ps)
    show ?case using Cons.IH [of "add_key A p ks"] step [of p ks] by auto
  qed simp
  from this [of "filter (\<lambda>s. s \<noteq> []) (map trim (split_on CHR '','' raw))"] show ?thesis
    by (auto simp: add_keys_def)
qed

text \<open>The development key is no anchor of a release build. In a release build that was given no
  release keys nobody's software signature is believed, and every pinned key comes from the baked or
  the environment's list; in every build each key is filed once, under its own id.\<close>

theorem release_trust_set:
  assumes "\<not> ti_debug_assertions ti"
  shows "keys_ok A (of_release_pubkeys (pinned A ti)) \<and>
    snd ` set (of_release_pubkeys (pinned A ti)) \<subseteq>
      (\<Union>raw \<in> set_option (ti_baked_release_pubs ti) \<union> set_option (ti_env_release_pubs ti).
         set (map trim (split_on CHR '','' raw))) \<and>
    (ti_baked_release_pubs ti = None \<longrightarrow> ti_env_release_pubs ti = None \<longrightarrow>
       vr_verdict (verify A N att nonce now (pinned A ti)) \<noteq> Yellow)"
proof -
  have "snd ` set (of_release_pubkeys (pinned A ti)) \<subseteq>
      (\<Union>raw \<in> set_option (ti_baked_release_pubs ti) \<union> set_option (ti_env_release_pubs ti).
         set (map trim (split_on CHR '','' raw)))"
  proof -
    have "snd ` set (add_keys A e (add_keys A b [])) \<subseteq>
        set (map trim (split_on CHR '','' b)) \<union> set (map trim (split_on CHR '','' e))"
      "snd ` set (add_keys A b []) \<subseteq> set (map trim (split_on CHR '','' b))" for b e
      using set_add_keys [of A e "add_keys A b []"] set_add_keys [of A b "[]"] by auto
    then show ?thesis using assms by (simp add: pinned_def Let_def split: option.split)
  qed
  moreover have "of_release_pubkeys (pinned A ti) = []"
    if "ti_baked_release_pubs ti = None" "ti_env_release_pubs ti = None"
    using that assms by (simp add: pinned_def Let_def)
  ultimately show ?thesis using pinned_keys_ok verdict_sound [of A N att nonce now "pinned A ti"] by auto
qed

theorem release_trust_set_witness:
  "vr_verdict (verify demo_att demo_nitro (build_software demo_att ''n'' ''1'' 5 ''rk'' ''ik'') ''n'' 6
     (pinned demo_att \<lparr>ti_baked_release_pubs = None, ti_debug_assertions = False,
        ti_env_release_pubs = None, ti_env_hash = None, ti_env_pcr0 = None, ti_root_pem = []\<rparr>)) \<noteq> Yellow"
  using release_trust_set [where N = demo_nitro, of "\<lparr>ti_baked_release_pubs = None,
      ti_debug_assertions = False, ti_env_release_pubs = None, ti_env_hash = None, ti_env_pcr0 = None,
      ti_root_pem = []\<rparr>" demo_att]
  by simp

end
