(* ===== verification/Client_Attest.thy ===== *)
theory Client_Attest
  imports Attest Proto
begin

text \<open>
  The client's probe of a server before any account exists, backend/core/src/attest_client.rs: which
  questions it asks and what the badge in the server list rests on.
\<close>

section \<open>The probe\<close>

record attest_outcome =
  ao_verdict :: verdict
  ao_tier :: tier
  ao_reason :: string
  ao_build_hash :: string
  ao_fingerprint :: string
  ao_server_name :: string
  ao_repo_url :: string
  ao_description :: string

definition verdict_str :: "verdict \<Rightarrow> string" where
  "verdict_str v = (case v of Green \<Rightarrow> ''green'' | Yellow \<Rightarrow> ''yellow'' | Red \<Rightarrow> ''red'')"

definition tier_str :: "tier \<Rightarrow> string" where
  "tier_str t = (case t of Unsigned \<Rightarrow> ''unsigned'' | Software \<Rightarrow> ''software'' | Tee \<Rightarrow> ''tee'')"

text \<open>
  The connection of one probe: whether it opens, and what each exchange (a frame written, the next one
  read) gives, by its place in the conversation; the clock, the nonce and \<open>serde_json\<close> on an attestation.
\<close>

record 'k prober =
  pr_att :: att_prims
  pr_nitro :: "'k nitro_prims"
  pr_official :: official
  pr_of_value :: "json \<Rightarrow> string + attestation"
  pr_nonce :: bytes
  pr_now :: millis
  pr_connect :: "string \<Rightarrow> string + unit"
  pr_exchange :: "nat \<Rightarrow> client_msg \<Rightarrow> string + server_msg"

definition server_metadata :: "server_msg \<Rightarrow> string \<times> string \<times> string" where
  "server_metadata m = (case m of ServerInfo name repo_url description _ _ \<Rightarrow> (name, repo_url, description)
     | _ \<Rightarrow> ([], [], []))"

definition check_server :: "'k prober \<Rightarrow> string \<Rightarrow> string + attest_outcome" where
  "check_server Q addr =
     (let A = pr_att Q; nonce = ap_b64_encode A (pr_nonce Q) in
      res_bind (pr_connect Q addr) (\<lambda>_.
      res_bind (pr_exchange Q 0 (ClientHello (build_hash A) ''0.1.0+dev'')) (\<lambda>_.
      res_bind (pr_exchange Q 1 GetServerInfo) (\<lambda>info.
      let metadata = server_metadata info in
      res_bind (pr_exchange Q 2 (AttestRequest nonce)) (\<lambda>resp. case resp of
          AttestResponse j \<Rightarrow> res_bind (pr_of_value Q j) (\<lambda>att.
            (let r = verify A (pr_nitro Q) att nonce (pr_now Q) (pr_official Q) in
             Inr \<lparr>ao_verdict = vr_verdict r, ao_tier = vr_tier r, ao_reason = vr_reason r,
               ao_build_hash = vr_build_hash r, ao_fingerprint = vr_fingerprint r, ao_server_name = fst metadata,
               ao_repo_url = fst (snd metadata), ao_description = snd (snd metadata)\<rparr>))
        | ErrorMsg code message \<Rightarrow> Inl (code @ '': '' @ message)
        | _ \<Rightarrow> Inl ''unexpected attestation reply'')))))"

lemma verify_nonce: "vr_verdict (verify A N att nonce now off) \<noteq> Red \<Longrightarrow> at_nonce att = nonce"
  by (auto simp: verify_def red_result_def split: if_splits)

lemma check_server_verified:
  assumes "check_server Q addr = Inr out"
  obtains j att where
    "pr_exchange Q 2 (AttestRequest (ap_b64_encode (pr_att Q) (pr_nonce Q))) = Inr (AttestResponse j)"
    "pr_of_value Q j = Inr att"
    "ao_verdict out = vr_verdict (verify (pr_att Q) (pr_nitro Q) att (ap_b64_encode (pr_att Q) (pr_nonce Q)) (pr_now Q) (pr_official Q))"
proof -
  from assms obtain resp where "pr_exchange Q 2 (AttestRequest (ap_b64_encode (pr_att Q) (pr_nonce Q))) = Inr resp"
    by (auto simp: check_server_def Let_def res_bind_Inr_iff)
  with assms show thesis
    by (cases resp) (auto simp: check_server_def Let_def res_bind_Inr_iff intro: that)
qed

end
