(* ===== verification/Plugins.thy ===== *)
theory Plugins
  imports Client_Base
begin

text \<open>
  The plugin manager of backend/core/src/plugins.rs, and the update check of update.rs: what each command
  fetches from the store, what it checks, what it writes under \<open>~/.cherm/plugins\<close> and which events it
  emits. The store and the disk are an argument.
\<close>

section \<open>State and surroundings\<close>

text \<open>The files below the plugins directory, by their path there, which has one or two components.\<close>

datatype node = Dir | File bytes

type_synonym files = "(string list \<times> node) list"

record plugins =
  pl_files :: files
  pl_events :: "event list"
  pl_tick :: nat

text \<open>An HTTP response: its announced length, and the chunks of its body until the end or an error.\<close>

record response =
  rs_length :: "nat option"
  rs_chunks :: "(string + bytes) list"

text \<open>
  \<open>pe_get\<close> and \<open>pe_post\<close> are the store's answers, \<open>pe_disk\<close> whether a write succeeds, \<open>pe_debug\<close> is Rust's
  \<open>{:?}\<close> of a string; the others are SHA-256 and \<open>serde_json\<close> on the shapes of the format.
\<close>

record plugin_env =
  pe_store :: string
  pe_update_url :: string
  pe_submit_token :: "string option"
  pe_get :: "nat \<Rightarrow> string \<Rightarrow> string + response"
  pe_post :: "nat \<Rightarrow> string \<Rightarrow> manifest \<times> string \<Rightarrow> string option \<Rightarrow> string + bool \<times> string \<times> string"
  pe_disk :: "nat \<Rightarrow> string + unit"
  pe_sha256 :: "bytes \<Rightarrow> bytes"
  pe_debug :: "string \<Rightarrow> string"
  pe_manifest_of :: "bytes \<Rightarrow> string + manifest"
  pe_package_of :: "bytes \<Rightarrow> string + package"
  pe_store_index_of :: "bytes \<Rightarrow> string + manifest list"
  pe_installed_of :: "bytes \<Rightarrow> string + installed list"
  pe_value_of :: "bytes \<Rightarrow> string + json"
  pe_release_of :: "bytes \<Rightarrow> string + string \<times> string \<times> string \<times> string"
  pe_manifest_bytes :: "manifest \<Rightarrow> bytes"
  pe_installed_bytes :: "installed list \<Rightarrow> bytes"
  pe_palette_json :: "(string \<times> string) list \<Rightarrow> json"
  pe_widgets_json :: "widget list \<Rightarrow> json"
  pe_json_bytes :: "json \<Rightarrow> bytes"

definition MAX_MANIFEST_BYTES :: nat where "MAX_MANIFEST_BYTES = 1024 * 1024"
definition MAX_PACKAGE_BYTES :: nat where "MAX_PACKAGE_BYTES = 4 * 1024 * 1024"

section \<open>Reading a body\<close>

fun read_chunks :: "nat \<Rightarrow> bytes \<Rightarrow> (string + bytes) list \<Rightarrow> string + bytes" where
  "read_chunks mx buf [] = Inr buf"
| "read_chunks mx buf (Inl e # cs) = Inl (''read body: '' @ e)"
| "read_chunks mx buf (Inr chunk # cs) =
     (if length buf + length chunk > mx then Inl (''response exceeded '' @ show_nat mx @ '' bytes'')
      else read_chunks mx (buf @ chunk) cs)"

definition read_capped :: "response \<Rightarrow> nat \<Rightarrow> string + bytes" where
  "read_capped resp mx = (case rs_length resp of
       Some len \<Rightarrow> if len > mx
         then Inl (''response too large ('' @ show_nat len @ '' bytes > '' @ show_nat mx @ '')'')
         else read_chunks mx [] (rs_chunks resp)
     | None \<Rightarrow> read_chunks mx [] (rs_chunks resp))"

section \<open>Files\<close>

definition read_to_string :: "string list \<Rightarrow> files \<Rightarrow> string option" where
  "read_to_string p fs = (case map_of fs p of Some (File b) \<Rightarrow> if utf8_valid b then Some b else None | _ \<Rightarrow> None)"

definition create_dir_all :: "string list \<Rightarrow> files \<Rightarrow> string + files" where
  "create_dir_all p fs = (case map_of fs p of
       Some (File _) \<Rightarrow> Inl ''File exists''
     | Some Dir \<Rightarrow> Inr fs
     | None \<Rightarrow> Inr (AList.update p Dir fs))"

definition write_file :: "string list \<Rightarrow> bytes \<Rightarrow> files \<Rightarrow> string + files" where
  "write_file p b fs =
     (if map_of fs p = Some Dir then Inl ''Is a directory''
      else if butlast p \<noteq> [] \<and> map_of fs (butlast p) \<noteq> Some Dir then Inl ''No such file or directory''
      else Inr (AList.update p (File b) fs))"

definition remove_file :: "string list \<Rightarrow> files \<Rightarrow> string + files" where
  "remove_file p fs = (case map_of fs p of
       Some (File _) \<Rightarrow> Inr (AList.delete p fs)
     | Some Dir \<Rightarrow> Inl ''Is a directory''
     | None \<Rightarrow> Inl ''No such file or directory'')"

definition remove_dir_all :: "string list \<Rightarrow> files \<Rightarrow> string + files" where
  "remove_dir_all p fs = (if map_of fs p = Some Dir then Inr (filter (\<lambda>(q, n). \<not> prefix p q) fs)
     else Inl ''Not a directory'')"

definition draw_plugins :: "(nat \<Rightarrow> 'a) \<Rightarrow> (plugins, 'a) act" where
  "draw_plugins f s = (Inr (f (pl_tick s)), s\<lparr>pl_tick := Suc (pl_tick s)\<rparr>)"

text \<open>A change of the files, unless the disk refuses it.\<close>

definition on_disk :: "plugin_env \<Rightarrow> (files \<Rightarrow> string + files) \<Rightarrow> (plugins, unit) act" where
  "on_disk P f = bnd (draw_plugins (pe_disk P)) (\<lambda>d. andthen (lift d)
     (bnd (gets (\<lambda>s. f (pl_files s))) (\<lambda>r. bnd (lift r) (\<lambda>fs. modify (\<lambda>s. s\<lparr>pl_files := fs\<rparr>)))))"

definition tell :: "event \<Rightarrow> (plugins, unit) act" where
  "tell e = modify (\<lambda>s. s\<lparr>pl_events := pl_events s @ [e]\<rparr>)"

definition tell_plugin :: "plugin_event \<Rightarrow> (plugins, unit) act" where
  "tell_plugin e = tell (PluginEvent e)"

definition complain :: "string \<Rightarrow> string \<Rightarrow> (plugins, unit) act" where
  "complain code message = tell (err_event code message)"

section \<open>Paths and the index\<close>

definition installed_path :: "string list" where "installed_path = [''installed.json'']"
definition active_theme_path :: "string list" where "active_theme_path = [''active-theme.json'']"
definition active_widgets_path :: "string list" where "active_widgets_path = [''active-widgets.json'']"

definition plugin_dir :: "plugin_env \<Rightarrow> string \<Rightarrow> string + string list" where
  "plugin_dir P name = (let seg = sanitize name in
     if seg = [] then Inl (''invalid plugin name '' @ pe_debug P name) else Inr [seg])"

definition load_installed :: "plugin_env \<Rightarrow> files \<Rightarrow> installed list" where
  "load_installed P fs = (case read_to_string installed_path fs of
       None \<Rightarrow> []
     | Some b \<Rightarrow> (case pe_installed_of P b of Inr idx \<Rightarrow> idx | Inl _ \<Rightarrow> []))"

definition save_installed :: "plugin_env \<Rightarrow> installed list \<Rightarrow> (plugins, unit) act" where
  "save_installed P idx = on_disk P (write_file installed_path (pe_installed_bytes P idx))"

definition load_package :: "plugin_env \<Rightarrow> files \<Rightarrow> string \<Rightarrow> string + package" where
  "load_package P fs name = res_bind (plugin_dir P name) (\<lambda>dir.
     case read_to_string (dir @ [''package.json'']) fs of
       None \<Rightarrow> Inl ''cannot read the package''
     | Some b \<Rightarrow> pe_package_of P b)"

section \<open>Activation\<close>

definition clean_widget :: "widget \<Rightarrow> widget" where
  "clean_widget w = w\<lparr>wd_value := map_option (\<lambda>v. clean_display v 256) (wd_value w),
     wd_format := map_option (\<lambda>v. clean_display v 64) (wd_format w)\<rparr>"

fun collect_active :: "plugin_env \<Rightarrow> files \<Rightarrow> theme option \<times> widget list \<Rightarrow> installed list \<Rightarrow> theme option \<times> widget list" where
  "collect_active P fs (pal, ws) [] = (pal, ws)"
| "collect_active P fs (pal, ws) (p # ps) =
     (if \<not> in_active p then collect_active P fs (pal, ws) ps
      else case load_package P fs (mf_name (in_manifest p)) of
          Inl _ \<Rightarrow> collect_active P fs (pal, ws) ps
        | Inr pkg \<Rightarrow> collect_active P fs
            (case pk_theme pkg of Some t \<Rightarrow> Some t | None \<Rightarrow> pal, ws @ map clean_widget (pk_widgets pkg)) ps)"

definition show_theme :: "plugin_env \<Rightarrow> theme option \<Rightarrow> (plugins, unit) act" where
  "show_theme P pal = (case pal of
       Some t \<Rightarrow> (let v = pe_palette_json P (theme_to_palette t) in
         andthen (on_disk P (write_file active_theme_path (pe_json_bytes P v))) (tell_plugin (ThemeEvent (Some v))))
     | None \<Rightarrow> andthen (ignoring (on_disk P (remove_file active_theme_path))) (tell_plugin (ThemeEvent None)))"

definition show_widgets :: "plugin_env \<Rightarrow> widget list \<Rightarrow> (plugins, unit) act" where
  "show_widgets P ws = (let v = pe_widgets_json P ws in
     andthen (on_disk P (write_file active_widgets_path (pe_json_bytes P v))) (tell_plugin (WidgetsEvent v)))"

definition apply_active :: "plugin_env \<Rightarrow> installed list \<Rightarrow> (plugins, unit) act" where
  "apply_active P idx = bnd (gets (\<lambda>s. collect_active P (pl_files s) (None, []) idx)) (\<lambda>(pal, ws).
     andthen (show_theme P pal) (show_widgets P ws))"

text \<open>At startup the files are shown as they are.\<close>

definition emit_active :: "plugin_env \<Rightarrow> (plugins, unit) act" where
  "emit_active P = bnd (gets pl_files) (\<lambda>fs.
     andthen (case read_to_string active_theme_path fs of None \<Rightarrow> ret ()
       | Some b \<Rightarrow> (case pe_value_of P b of Inr v \<Rightarrow> tell_plugin (ThemeEvent (Some v)) | Inl _ \<Rightarrow> ret ()))
     (case read_to_string active_widgets_path fs of None \<Rightarrow> ret ()
       | Some b \<Rightarrow> (case pe_value_of P b of Inr v \<Rightarrow> tell_plugin (WidgetsEvent v) | Inl _ \<Rightarrow> ret ())))"

section \<open>Commands\<close>

definition fetch :: "plugin_env \<Rightarrow> string \<Rightarrow> (plugins, string + response) act" where
  "fetch P url = draw_plugins (\<lambda>n. pe_get P n url)"

definition list_store :: "plugin_env \<Rightarrow> (plugins, unit) act" where
  "list_store P = bnd (fetch P (pe_store P @ ''/index'')) (\<lambda>r. case r of
       Inl e \<Rightarrow> complain ''store_unreachable'' (''could not reach the plugin store: '' @ e)
     | Inr resp \<Rightarrow>
         (let idx = (case res_bind (read_capped resp MAX_MANIFEST_BYTES) (pe_store_index_of P) of Inr ms \<Rightarrow> ms | Inl _ \<Rightarrow> []) in
          bnd (gets (\<lambda>s. load_installed P (pl_files s))) (\<lambda>installed.
          tell_plugin (StorePlugins (map (\<lambda>m. manifest_to_value m installed) idx)))))"

definition list_installed :: "plugin_env \<Rightarrow> (plugins, unit) act" where
  "list_installed P = bnd (gets (\<lambda>s. load_installed P (pl_files s))) (\<lambda>idx.
     tell_plugin (InstalledPlugins (map (\<lambda>i. ((manifest_to_value (in_manifest i) idx)\<lparr>pv_installed := True\<rparr>, in_active i)) idx)))"

definition download :: "plugin_env \<Rightarrow> string \<Rightarrow> string \<Rightarrow> nat \<Rightarrow> (plugins, bytes) act" where
  "download P url what mx = bnd (fetch P url) (\<lambda>r.
     bnd (lift (map_err (\<lambda>e. ''fetch '' @ what @ '': '' @ e) r)) (\<lambda>resp.
     lift (map_err (\<lambda>e. ''read '' @ what @ '': '' @ e) (read_capped resp mx))))"

text \<open>The files and the record of a verified package, and what follows.\<close>

definition record_install :: "plugin_env \<Rightarrow> string list \<Rightarrow> manifest \<Rightarrow> bytes \<Rightarrow> (plugins, unit) act" where
  "record_install P dir m package =
     andthen (on_disk P (create_dir_all dir))
     (andthen (on_disk P (write_file (dir @ [''manifest.json'']) (pe_manifest_bytes P m)))
     (andthen (on_disk P (write_file (dir @ [''package.json'']) package))
     (bnd (gets (\<lambda>s. load_installed P (pl_files s))) (\<lambda>idx.
     let idx' = filter (\<lambda>p. mf_name (in_manifest p) \<noteq> mf_name m) idx @ [\<lparr>in_manifest = m, in_active = True\<rparr>] in
     andthen (save_installed P idx')
     (andthen (apply_active P idx')
     (andthen (tell_plugin (PluginInstalled (mf_name m) (mf_version m) (mf_category m)))
     (andthen (tell (InfoEvent (''installed '' @ mf_name m @ '' v'' @ mf_version m @ '' ('' @ mf_category m @ '')'')))
     (list_installed P))))))))"

text \<open>What stands between a download and the disk: the first reason against the package, if there is one.\<close>

definition package_refused :: "plugin_env \<Rightarrow> string \<Rightarrow> manifest \<Rightarrow> bytes \<Rightarrow> string option" where
  "package_refused P name m package =
     (let got = hex_encode (pe_sha256 P package) in
      if mf_package_sha256 m = [] then Some (name @ '' has no package checksum - refusing to install an unverified plugin'')
      else if got \<noteq> mf_package_sha256 m
      then Some (''package checksum mismatch for '' @ name @ '' (expected '' @ mf_package_sha256 m @ '', got '' @ got @ '')'')
      else None)"

definition install :: "plugin_env \<Rightarrow> string \<Rightarrow> (plugins, unit) act" where
  "install P input =
     (let name = trim input in
      case plugin_dir P name of
        Inl _ \<Rightarrow> complain ''plugin_rejected'' (''invalid plugin name '' @ pe_debug P name)
      | Inr dir \<Rightarrow>
          bnd (download P (pe_store P @ ''/'' @ sanitize name @ ''/manifest'') ''manifest'' MAX_MANIFEST_BYTES) (\<lambda>mb.
          bnd (lift (map_err (\<lambda>e. ''parse manifest: '' @ e) (pe_manifest_of P mb))) (\<lambda>m.
          if trim (mf_name m) \<noteq> name
          then complain ''plugin_rejected'' (''store returned a manifest for '' @ pe_debug P (mf_name m) @ '', not '' @ pe_debug P name)
          else (case validate_permissions (mf_permissions m) of
              Inl e \<Rightarrow> complain ''plugin_rejected'' (name @ '' requests unsafe permissions: '' @ e)
            | Inr _ \<Rightarrow>
                bnd (download P (pe_store P @ ''/'' @ sanitize name @ ''/package'') ''package'' MAX_PACKAGE_BYTES) (\<lambda>package.
                (case package_refused P name m package of
                  Some why \<Rightarrow> complain ''verify_failed'' why
                | None \<Rightarrow> bnd (lift (map_err (\<lambda>e. ''parse package: '' @ e) (pe_package_of P package))) (\<lambda>_.
                    record_install P dir m package)))))))"

definition remove_plugin :: "plugin_env \<Rightarrow> string \<Rightarrow> (plugins, unit) act" where
  "remove_plugin P name = bnd (gets (\<lambda>s. load_installed P (pl_files s))) (\<lambda>before.
     let idx = filter (\<lambda>p. mf_name (in_manifest p) \<noteq> name) before in
     if length idx = length before then complain ''not_installed'' (name @ '' is not installed'')
     else
       andthen (case plugin_dir P name of Inr dir \<Rightarrow> ignoring (on_disk P (remove_dir_all dir)) | Inl _ \<Rightarrow> ret ())
       (andthen (save_installed P idx)
       (andthen (apply_active P idx)
       (andthen (tell (InfoEvent (''removed '' @ name)))
       (list_installed P)))))"

text \<open>The loop over the installed plugins, with the number of updates found so far.\<close>

fun look_for_updates :: "plugin_env \<Rightarrow> nat \<Rightarrow> installed list \<Rightarrow> (plugins, nat) act" where
  "look_for_updates P found [] = ret found"
| "look_for_updates P found (p # ps) =
     bnd (fetch P (pe_store P @ ''/'' @ sanitize (mf_name (in_manifest p)) @ ''/manifest'')) (\<lambda>r.
     case res_bind r (\<lambda>resp. res_bind (read_capped resp MAX_MANIFEST_BYTES) (pe_manifest_of P)) of
       Inl _ \<Rightarrow> look_for_updates P found ps
     | Inr latest \<Rightarrow>
         if is_newer (mf_version latest) (mf_version (in_manifest p))
         then andthen (tell_plugin (PluginUpdateAvailable (mf_name (in_manifest p)) (mf_version (in_manifest p))
             (mf_version latest) (mf_category latest))) (look_for_updates P (Suc found) ps)
         else look_for_updates P found ps)"

definition check_updates :: "plugin_env \<Rightarrow> (plugins, unit) act" where
  "check_updates P = bnd (gets (\<lambda>s. load_installed P (pl_files s))) (\<lambda>idx.
     bnd (look_for_updates P 0 idx) (\<lambda>found.
     tell (InfoEvent (if found = 0 then ''all plugins up to date'' else show_nat found @ '' plugin update(s) available''))))"

definition submit :: "plugin_env \<Rightarrow> manifest \<Rightarrow> json \<Rightarrow> (plugins, unit) act" where
  "submit P m0 package =
     (if mf_name m0 = [] \<or> mf_version m0 = []
      then complain ''bad_submission'' ''plugin name and version are required''
      else (case validate_permissions (mf_permissions m0) of
          Inl e \<Rightarrow> complain ''plugin_rejected'' (''submission requests unsafe permissions: '' @ e)
        | Inr _ \<Rightarrow>
            (let m = m0\<lparr>mf_category := ''community_unaudited''\<rparr>;
                 token = (case pe_submit_token P of Some t \<Rightarrow> if t = [] then None else Some t | None \<Rightarrow> None) in
             bnd (draw_plugins (\<lambda>n. pe_post P n (pe_store P @ ''/submit'') (m, package) token)) (\<lambda>r. case r of
                 Inl e \<Rightarrow> complain ''submit_failed'' (''could not reach the store: '' @ e)
               | Inr (success, status, txt) \<Rightarrow>
                   if success
                   then andthen (tell_plugin (PluginSubmitted (mf_name m) (mf_version m) ''community_unaudited''))
                     (tell (InfoEvent (''submitted '' @ mf_name m @ '' v'' @ mf_version m @
                       '' - listed as community unaudited (use at your own risk) pending Cherm review'')))
                   else complain ''submit_failed'' (''store rejected submission ('' @ status @ ''): '' @ txt)))))"

section \<open>Updates of the client\<close>

text \<open>update.rs; the announced length is capped, the rest of the response is read whole.\<close>

fun all_chunks :: "(string + bytes) list \<Rightarrow> string + bytes" where
  "all_chunks [] = Inr []"
| "all_chunks (Inl e # cs) = Inl e"
| "all_chunks (Inr chunk # cs) = res_bind (all_chunks cs) (\<lambda>r. Inr (chunk @ r))"

definition release_meta :: "plugin_env \<Rightarrow> response \<Rightarrow> string \<times> string \<times> string \<times> string" where
  "release_meta P resp =
     (if (case rs_length resp of Some len \<Rightarrow> len > 256 * 1024 | None \<Rightarrow> False) then ([], [], [], [])
      else case res_bind (all_chunks (rs_chunks resp)) (pe_release_of P) of Inr m \<Rightarrow> m | Inl _ \<Rightarrow> ([], [], [], []))"

definition check_client_update :: "plugin_env \<Rightarrow> string \<Rightarrow> (plugins, unit) act" where
  "check_client_update P current_version = bnd (fetch P (pe_update_url P)) (\<lambda>r. case r of
       Inl e \<Rightarrow> complain ''update_check_failed'' (''could not check for updates: '' @ e)
     | Inr resp \<Rightarrow> (case release_meta P resp of (version, notes_url, url, channel) \<Rightarrow>
         (let current = hd (split_on CHR ''+'' current_version) in
          if version \<noteq> [] \<and> is_newer version current
          then tell_plugin (ClientUpdateAvailable current_version version notes_url url channel)
          else tell (InfoEvent (''client is up to date (v'' @ current @ '')'')))))"

section \<open>Dispatch\<close>

text \<open>The plugin and update commands of ipc.rs; a submitted manifest is still JSON.\<close>

datatype plugin_command =
    ListStore
  | ListInstalled
  | InstallPlugin string
  | RemovePlugin string
  | CheckPluginUpdates
  | SubmitPlugin json json
  | CheckClientUpdate

fun run_plugin :: "plugin_env \<Rightarrow> string \<Rightarrow> plugin_command \<Rightarrow> (plugins, unit) act" where
  "run_plugin P version ListStore = list_store P"
| "run_plugin P version ListInstalled = list_installed P"
| "run_plugin P version (InstallPlugin name) = install P name"
| "run_plugin P version (RemovePlugin name) = remove_plugin P name"
| "run_plugin P version CheckPluginUpdates = check_updates P"
| "run_plugin P version (SubmitPlugin m package) = (case pe_manifest_of P m of
     Inr mf \<Rightarrow> submit P mf package
   | Inl e \<Rightarrow> complain ''bad_submission'' (''invalid plugin manifest: '' @ e))"
| "run_plugin P version CheckClientUpdate = check_client_update P version"

end
