(* ===== verification/App.thy ===== *)
theory App
  imports Session_Facts Client_Attest Plugins
begin

text \<open>
  The application around the chat commands, backend/core/src/session.rs (\<open>App\<close>) and main.rs: the index of
  servers, one vault file per server, which server is active and linked, and the commands that register,
  connect, switch, remove, check, back up and restore.
\<close>

section \<open>State\<close>

text \<open>A known server at run time: \<open>sv_reader\<close> says, if a reader task was kept, whether it still runs.\<close>

record server =
  sv_link :: bool
  sv_reader :: "bool option"

record identity_file =
  if_server :: string
  if_username :: string
  if_uuid :: string
  if_ed25519 :: string
  if_account :: string

text \<open>
  \<open>a_files\<close> holds the vault files by server id; a vault in use is the file's contents. \<open>a_saved\<close> is
  servers.json, \<open>a_backups\<close> the files of identity-backups, \<open>a_plugins\<close> those of plugins, \<open>a_sent\<close> what went to
  each server's writer.
\<close>

record app =
  a_master :: bytes
  a_index :: server_index
  a_saved :: server_index
  a_servers :: "(string \<times> server) list"
  a_active :: "string option"
  a_files :: "(string \<times> vault) list"
  a_backups :: "(string \<times> identity_file) list"
  a_plugins :: files
  a_sent :: "(string \<times> client_msg list) list"
  a_events :: "event list"
  a_tick :: nat

record 'k app_env =
  e_world :: world
  e_seal :: "bytes \<Rightarrow> sealer"
  e_keyed_blake3 :: "bytes \<Rightarrow> bytes \<Rightarrow> bytes"
  e_connect :: "nat \<Rightarrow> string + unit"
  e_disk :: "nat \<Rightarrow> string + unit"
  e_opens :: "nat \<Rightarrow> bool"
  e_probe :: "nat \<Rightarrow> 'k prober"
  e_timely :: "nat \<Rightarrow> bool"
  e_rng :: "nat \<Rightarrow> string \<Rightarrow> nat \<Rightarrow> nat \<Rightarrow> nat"
  e_file :: "string \<Rightarrow> string + string + identity_file"
  e_export :: "bytes \<Rightarrow> string + string"
  e_import :: "string \<Rightarrow> string + bytes"
  e_plugins :: plugin_env
  e_machine_id :: string
  e_build_hash :: string

definition PREKEY_BATCH :: nat where "PREKEY_BATCH = 20"
definition CLIENT_VERSION :: string where "CLIENT_VERSION = ''0.1.1''"

definition sid :: "'k app_env \<Rightarrow> string \<Rightarrow> string" where
  "sid E addr = server_id (w_blake3 (e_world E)) addr"

definition seal_of :: "'k app_env \<Rightarrow> app \<Rightarrow> string \<Rightarrow> sealer" where
  "seal_of E a addr = e_seal E (derive_vault_key (e_keyed_blake3 E) (a_master a) (sid E addr))"

section \<open>Basic actions\<close>

definition ask :: "(nat \<Rightarrow> 'a) \<Rightarrow> (app, 'a) act" where
  "ask f a = (Inr (f (a_tick a)), a\<lparr>a_tick := Suc (a_tick a)\<rparr>)"

definition announce :: "event \<Rightarrow> (app, unit) act" where
  "announce e = modify (\<lambda>a. a\<lparr>a_events := a_events a @ [e]\<rparr>)"

definition report :: "string \<Rightarrow> string \<Rightarrow> (app, unit) act" where
  "report code message = announce (err_event code message)"

definition disk :: "'k app_env \<Rightarrow> (app, unit) act" where
  "disk E = bnd (ask (e_disk E)) lift"

definition save_index :: "'k app_env \<Rightarrow> (app, unit) act" where
  "save_index E = andthen (disk E) (modify (\<lambda>a. a\<lparr>a_saved := a_index a\<rparr>))"

definition on_index :: "(server_index \<Rightarrow> server_index) \<Rightarrow> (app, unit) act" where
  "on_index f = modify (\<lambda>a. a\<lparr>a_index := f (a_index a)\<rparr>)"

text \<open>A client action on one server's vault and link.\<close>

definition client_of :: "'k app_env \<Rightarrow> string \<Rightarrow> app \<Rightarrow> client" where
  "client_of E addr a = \<lparr>c_vault = (case map_of (a_files a) (sid E addr) of None \<Rightarrow> empty_vault | Some v \<Rightarrow> v),
     c_events = a_events a, c_sent = (case map_of (a_sent a) addr of None \<Rightarrow> [] | Some ms \<Rightarrow> ms), c_tick = a_tick a\<rparr>"

definition put_client :: "'k app_env \<Rightarrow> string \<Rightarrow> client \<Rightarrow> app \<Rightarrow> app" where
  "put_client E addr c a = a\<lparr>a_files := AList.update (sid E addr) (c_vault c) (a_files a),
     a_events := c_events c, a_sent := AList.update addr (c_sent c) (a_sent a), a_tick := c_tick c\<rparr>"

definition on_server :: "'k app_env \<Rightarrow> string \<Rightarrow> (client, 'a) act \<Rightarrow> (app, 'a) act" where
  "on_server E addr m = zoom (client_of E addr) (put_client E addr) m"

text \<open>An action of the plugin manager.\<close>

definition plugins_of :: "app \<Rightarrow> plugins" where
  "plugins_of a = \<lparr>pl_files = a_plugins a, pl_events = a_events a, pl_tick = a_tick a\<rparr>"

definition put_plugins :: "plugins \<Rightarrow> app \<Rightarrow> app" where
  "put_plugins p a = a\<lparr>a_plugins := pl_files p, a_events := pl_events p, a_tick := pl_tick p\<rparr>"

definition on_plugins :: "(plugins, 'a) act \<Rightarrow> (app, 'a) act" where
  "on_plugins m = zoom plugins_of put_plugins m"

section \<open>Servers\<close>

definition ensure_server :: "'k app_env \<Rightarrow> string \<Rightarrow> (app, unit) act" where
  "ensure_server E addr = bnd (gets a_servers) (\<lambda>servers.
     if map_of servers addr \<noteq> None then ret ()
     else andthen (disk E)
       (bnd (ask (e_opens E)) (\<lambda>key_ok.
       bnd (ask (e_rng E)) (\<lambda>rng.
       bnd (gets (\<lambda>a. open_vault key_ok (c_vault (client_of E addr a)) (\<lambda>gid i. gen_group_key (rng gid i)))) (\<lambda>opened.
       bnd (lift opened) (\<lambda>v.
       andthen (modify (\<lambda>a. a\<lparr>a_files := AList.update (sid E addr) v (a_files a),
           a_servers := AList.update addr \<lparr>sv_link = False, sv_reader = None\<rparr> (a_servers a),
           a_index := ensure_record addr (a_index a)\<rparr>))
       (save_index E)))))))"

definition linked :: "app \<Rightarrow> string \<Rightarrow> bool" where
  "linked a addr = (case map_of (a_servers a) addr of None \<Rightarrow> False | Some s \<Rightarrow> sv_link s)"

definition active_sess :: "'k app_env \<Rightarrow> app \<Rightarrow> sess option" where
  "active_sess E a = (case a_active a of
       None \<Rightarrow> None
     | Some addr \<Rightarrow> (case map_of (a_servers a) addr of
         None \<Rightarrow> None
       | Some s \<Rightarrow> Some \<lparr>s_seal = seal_of E a addr, s_addr = addr, s_linked = sv_link s\<rparr>))"

definition map_servers :: "(string \<Rightarrow> server \<Rightarrow> server) \<Rightarrow> app \<Rightarrow> app" where
  "map_servers f a = a\<lparr>a_servers := map (\<lambda>(addr, s). (addr, f addr s)) (a_servers a)\<rparr>"

definition prune_dead_links :: "(app, unit) act" where
  "prune_dead_links = modify (map_servers (\<lambda>_ s.
     if sv_reader s = Some False then s\<lparr>sv_reader := None, sv_link := False\<rparr> else s))"

definition teardown_link :: "string \<Rightarrow> (app, unit) act" where
  "teardown_link addr = modify (map_servers (\<lambda>x s. if x = addr then s\<lparr>sv_reader := None, sv_link := False\<rparr> else s))"

definition go_live :: "string \<Rightarrow> (app, unit) act" where
  "go_live addr = modify (\<lambda>a. (map_servers (\<lambda>x s. if x = addr then s\<lparr>sv_link := True, sv_reader := Some True\<rparr> else s) a)
     \<lparr>a_active := Some addr\<rparr>)"

definition servers_value :: "'k app_env \<Rightarrow> app \<Rightarrow>
    (string \<times> string \<times> string \<times> string option \<times> string option \<times> string option \<times> bool) list" where
  "servers_value E a = map (\<lambda>r. (sid E (sr_addr r), sr_addr r,
     case sr_name r of Some n \<Rightarrow> n | None \<Rightarrow> host_of (sr_addr r), sr_tier r, sr_verdict r, sr_username r,
     a_active a = Some (sr_addr r))) (a_index a)"

definition emit_servers :: "'k app_env \<Rightarrow> (app, unit) act" where
  "emit_servers E = bnd (gets (servers_value E)) (\<lambda>vs. announce (ServersEvent vs))"

definition emit_ready :: "'k app_env \<Rightarrow> (app, unit) act" where
  "emit_ready E = bnd (gets (servers_value E)) (\<lambda>vs. andthen (announce (ReadyEvent vs CLIENT_VERSION))
     (on_plugins (emit_active (e_plugins E))))"

definition announce_chats :: "'k app_env \<Rightarrow> string \<Rightarrow> (app, unit) act" where
  "announce_chats E addr = on_server E addr (bnd (vget (\<lambda>v. build_chats_event v addr)) emit)"

section \<open>Attestation\<close>

definition apply_verdict :: "string \<Rightarrow> attest_outcome \<Rightarrow> (app, unit) act" where
  "apply_verdict addr out = on_index (set_attest addr (verdict_str (ao_verdict out)) (tier_str (ao_tier out)))"

definition refresh_verdicts :: "'k app_env \<Rightarrow> (app, unit) act" where
  "refresh_verdicts E =
     bnd (gets (\<lambda>a. map sr_addr (a_index a))) (\<lambda>addrs.
     bnd (gets a_tick) (\<lambda>start.
     andthen (for_each addrs (\<lambda>addr.
       bnd (ask (\<lambda>n. (e_timely E n, Client_Attest.check_server (e_probe E n) addr))) (\<lambda>(timely, r).
       case r of Inr out \<Rightarrow> if timely then apply_verdict addr out else ret () | Inl _ \<Rightarrow> ret ())))
     (if \<exists>k < length addrs. e_timely E (start + k) \<and>
           (\<exists>out. Client_Attest.check_server (e_probe E (start + k)) (addrs ! k) = Inr out)
      then andthen (ignoring (save_index E)) (emit_servers E) else ret ())))"

definition check_server_cmd :: "'k app_env \<Rightarrow> string \<Rightarrow> string option \<Rightarrow> (app, unit) act" where
  "check_server_cmd E input name =
     (let addr = normalize_addr input in
      andthen (on_index (ensure_record addr))
      (andthen (case name of None \<Rightarrow> ret () | Some n \<Rightarrow> on_index (set_name addr (trim n)))
      (bnd (ask (\<lambda>n. Client_Attest.check_server (e_probe E n) addr)) (\<lambda>r.
      andthen (case r of
          Inr out \<Rightarrow> andthen (announce (AttestEvent addr (verdict_str (ao_verdict out)) (tier_str (ao_tier out))
              (ao_reason out) (ao_build_hash out) (ao_fingerprint out) (ao_server_name out) (ao_repo_url out)
              (ao_description out))) (apply_verdict addr out)
        | Inl e \<Rightarrow> report ''check_failed'' e)
      (save_index E)))))"

section \<open>Accounts\<close>

text \<open>The result of an action as a value, its error included.\<close>

definition attempt :: "('s, 'a) act \<Rightarrow> ('s, string + 'a) act" where
  "attempt m s = (case m s of (r, s') \<Rightarrow> (Inr r, s'))"

definition ensure_device :: "world \<Rightarrow> sealer \<Rightarrow> (client, bytes) act" where
  "ensure_device W K = bnd (vget (\<lambda>v. load_account v K)) (\<lambda>d. case d of
       Some device \<Rightarrow> ret device
     | None \<Rightarrow> bnd (draw (w_device W)) (\<lambda>device. andthen (vput (\<lambda>v. save_account v K device)) (ret device)))"

definition to_otks :: "(string \<times> string) list \<Rightarrow> one_time_key list" where
  "to_otks otks = map (\<lambda>(key_id, curve). \<lparr>otk_key_id = key_id, otk_curve25519 = curve\<rparr>) otks"

definition fresh_prekeys :: "world \<Rightarrow> sealer \<Rightarrow> bytes \<Rightarrow> (client, one_time_key list \<times> bytes) act" where
  "fresh_prekeys W K device =
     (case generate_one_time_keys (w_vz W) device PREKEY_BATCH of (otks, device1) \<Rightarrow>
        let device2 = vz_mark_published (w_vz W) device1 in
        andthen (vput (\<lambda>v. save_account v K device2)) (ret (to_otks otks, device2)))"

definition remember :: "(string \<times> string) list \<Rightarrow> (client, unit) act" where
  "remember kvs = for_each kvs (\<lambda>(k, x). vput (\<lambda>v. meta_set v k x))"

definition backup_identity ::
    "'k app_env \<Rightarrow> string \<Rightarrow> string \<Rightarrow> string \<Rightarrow> bytes \<Rightarrow> (app, string) act" where
  "backup_identity E addr username uuid device =
     (let path = sid E addr @ ''_'' @ username @ ''.chermkey'' in
      bnd (lift (e_export E device)) (\<lambda>account.
      andthen (disk E)
      (andthen (modify (\<lambda>a. a\<lparr>a_backups := AList.update path \<lparr>if_server = addr, if_username = username, if_uuid = uuid,
          if_ed25519 = ed25519_b64 (w_vz (e_world E)) device, if_account = account\<rparr> (a_backups a)\<rparr>))
      (ret path))))"

definition client_hello :: "'k app_env \<Rightarrow> client_msg" where
  "client_hello E = ClientHello (e_build_hash E) CLIENT_VERSION"

definition question :: "'k app_env \<Rightarrow> string \<Rightarrow> client_msg \<Rightarrow> (app, server_msg) act" where
  "question E addr msg = on_server E addr (send_and_wait (e_world E) msg)"

text \<open>How registering and connecting end, once the account is saved.\<close>

definition finish_login ::
    "'k app_env \<Rightarrow> string \<Rightarrow> string \<Rightarrow> one_time_key list \<Rightarrow> event list \<Rightarrow> (app, unit) act" where
  "finish_login E addr uname otks events =
     andthen (go_live addr)
     (andthen (ignoring (question E addr (PublishPrekeys otks)))
     (andthen (ignoring (on_server E addr (send (e_world E) Pull)))
     (andthen (on_index (set_username addr uname))
     (andthen (save_index E)
     (andthen (for_each (events @ [ConnectedEvent addr uname]) announce)
     (andthen (announce_chats E addr)
     (emit_servers E)))))))"

definition registered :: "'k app_env \<Rightarrow> string \<Rightarrow> bytes \<Rightarrow> string \<Rightarrow> string \<Rightarrow> (app, unit) act" where
  "registered E addr device uuid uname =
     (let Z = w_vz (e_world E) in
      bnd (gets (\<lambda>a. seal_of E a addr)) (\<lambda>K.
      andthen (on_server E addr (andthen (remember [(''username'', uname), (''uuid'', uuid), (''server'', addr)])
        (vput (\<lambda>v. upsert_contact v uname uuid (ed25519_b64 Z device) (curve25519_b64 Z device)))))
      (bnd (on_server E addr (fresh_prekeys (e_world E) K device)) (\<lambda>(otks, device').
      bnd (attempt (backup_identity E addr uname uuid device')) (\<lambda>b.
      andthen (case b of Inr path \<Rightarrow> announce (InfoEvent (''identity backed up to '' @ path @ '' (keep it safe)''))
        | Inl _ \<Rightarrow> ret ())
      (finish_login E addr uname otks [RegisteredEvent addr uname uuid]))))))"

definition register_cmd :: "'k app_env \<Rightarrow> string \<Rightarrow> string \<Rightarrow> (app, unit) act" where
  "register_cmd E input username =
     (let addr = normalize_addr input; W = e_world E in
      if \<not> valid_username username
      then report USERNAME_INVALID ''username must be 1-16 alphanumeric characters''
      else if is_reserved_username username
      then report USERNAME_RESERVED ''that username is reserved for system use''
      else
        andthen (ensure_server E addr)
        (bnd (gets (\<lambda>a. seal_of E a addr)) (\<lambda>K.
        bnd (on_server E addr (ensure_device W K)) (\<lambda>device.
        andthen (teardown_link addr)
        (bnd (ask (e_connect E)) (\<lambda>conn. case conn of
            Inl e \<Rightarrow> report ''connect_failed'' e
          | Inr _ \<Rightarrow>
              andthen (ignoring (question E addr (client_hello E)))
              (bnd (question E addr (Register username (ed25519_b64 (w_vz W) device) (curve25519_b64 (w_vz W) device)
                 (e_machine_id E))) (\<lambda>reply. case reply of
                  AuthOk uuid uname \<Rightarrow> registered E addr device uuid uname
                | ErrorMsg code message \<Rightarrow> report code message
                | _ \<Rightarrow> report ''internal'' ''unexpected register reply''))))))))"

section \<open>Connecting\<close>

definition authenticate :: "'k app_env \<Rightarrow> string \<Rightarrow> string \<Rightarrow> bytes \<Rightarrow> sealer \<Rightarrow> bytes \<Rightarrow> (app, unit) act" where
  "authenticate E addr username device K nonce =
     bnd (question E addr (AuthFinish username (vz_sign (w_vz (e_world E)) device nonce))) (\<lambda>reply. case reply of
         AuthOk uuid uname \<Rightarrow>
           andthen (on_server E addr (remember [(''uuid'', uuid), (''server'', addr)]))
           (bnd (on_server E addr (fresh_prekeys (e_world E) K device)) (\<lambda>(otks, _).
           finish_login E addr uname otks []))
       | ErrorMsg code message \<Rightarrow> report code message
       | _ \<Rightarrow> report ''internal'' ''unexpected auth reply'')"

definition connect_cmd :: "'k app_env \<Rightarrow> string \<Rightarrow> (app, unit) act" where
  "connect_cmd E input =
     (let addr = normalize_addr input in
      andthen (ensure_server E addr)
      (bnd (gets (\<lambda>a. seal_of E a addr)) (\<lambda>K.
      bnd (on_server E addr (vget (\<lambda>v. meta_get v ''username''))) (\<lambda>name. case name of
          None \<Rightarrow> announce (NeedUsernameEvent addr)
        | Some username \<Rightarrow>
      bnd (on_server E addr (vget (\<lambda>v. load_account v K))) (\<lambda>acc. case acc of
          None \<Rightarrow> report ''internal'' ''username present but no device in vault''
        | Some device \<Rightarrow>
      andthen (teardown_link addr)
      (bnd (ask (e_connect E)) (\<lambda>conn. case conn of
          Inl e \<Rightarrow> report ''connect_failed'' e
        | Inr _ \<Rightarrow>
            andthen (ignoring (question E addr (client_hello E)))
            (bnd (question E addr (AuthBegin username)) (\<lambda>reply. case reply of
                Challenge nonce \<Rightarrow> (case b64_dec K nonce of
                    Inl e \<Rightarrow> report ''internal'' (''bad challenge nonce: '' @ e)
                  | Inr bytes \<Rightarrow> authenticate E addr username device K bytes)
              | ErrorMsg code message \<Rightarrow> report code message
              | _ \<Rightarrow> report ''internal'' ''unexpected challenge'')))))))))"

section \<open>Switching and forgetting\<close>

definition switch_server :: "'k app_env \<Rightarrow> string \<Rightarrow> (app, unit) act" where
  "switch_server E input =
     (let addr = normalize_addr input in
      andthen (ensure_server E addr)
      (andthen prune_dead_links
      (andthen (modify (\<lambda>a. a\<lparr>a_active := Some addr\<rparr>))
      (bnd (gets (\<lambda>a. linked a addr)) (\<lambda>has_link.
      if has_link then andthen (announce_chats E addr) (emit_servers E)
      else bnd (on_server E addr (vget (\<lambda>v. meta_get v ''username''))) (\<lambda>name. case name of
          Some _ \<Rightarrow> connect_cmd E addr
        | None \<Rightarrow> andthen (announce (NeedUsernameEvent addr)) (andthen (announce_chats E addr) (emit_servers E))))))))"

definition remove_server :: "'k app_env \<Rightarrow> string \<Rightarrow> (app, unit) act" where
  "remove_server E input =
     (let addr = normalize_addr input in
      andthen (teardown_link addr)
      (andthen (modify (\<lambda>a. a\<lparr>a_servers := AList.delete addr (a_servers a),
         a_active := (if a_active a = Some addr then None else a_active a),
         a_index := filter (\<lambda>r. sr_addr r \<noteq> addr) (a_index a)\<rparr>))
      (andthen (save_index E)
      (andthen (ignoring (andthen (disk E) (modify (\<lambda>a. a\<lparr>a_files := AList.delete (sid E addr) (a_files a)\<rparr>))))
      (andthen (announce (InfoEvent (''removed server '' @ addr)))
      (emit_servers E))))))"

section \<open>Backup and recovery\<close>

definition export_identity :: "'k app_env \<Rightarrow> (app, unit) act" where
  "export_identity E = bnd (gets (active_sess E)) (\<lambda>s. case s of
       None \<Rightarrow> report ''not_connected'' ''no active server''
     | Some S \<Rightarrow>
         (let addr = s_addr S in
          bnd (on_server E addr (vget (\<lambda>v. meta_get v ''username''))) (\<lambda>name. case name of
              None \<Rightarrow> report ''not_registered'' ''register first''
            | Some username \<Rightarrow>
          bnd (on_server E addr (vget (\<lambda>v. meta_get v ''uuid''))) (\<lambda>uuid.
          bnd (on_server E addr (vget (\<lambda>v. load_account v (s_seal S)))) (\<lambda>acc. case acc of
              None \<Rightarrow> report ''internal'' ''no identity in vault''
            | Some device \<Rightarrow>
          bnd (attempt (backup_identity E addr username (case uuid of None \<Rightarrow> [] | Some u \<Rightarrow> u) device)) (\<lambda>b. case b of
              Inr path \<Rightarrow> announce (InfoEvent (''identity '' @ username @ '' exported to '' @ path @
                '' - keep it safe; it is your private key''))
            | Inl e \<Rightarrow> report ''export_failed'' e))))))"

definition import_identity :: "'k app_env \<Rightarrow> string \<Rightarrow> (app, unit) act" where
  "import_identity E path = (case e_file E path of
       Inl e \<Rightarrow> report ''import_failed'' (''cannot read '' @ path @ '': '' @ e)
     | Inr (Inl e) \<Rightarrow> report ''import_failed'' (''invalid identity file: '' @ e)
     | Inr (Inr f) \<Rightarrow>
         (let addr = normalize_addr (if_server f); username = if_username f; Z = w_vz (e_world E) in
          if addr = [] \<or> username = [] \<or> if_account f = []
          then report ''import_failed'' ''incomplete identity file''
          else (case e_import E (if_account f) of
              Inl e \<Rightarrow> report ''import_failed'' (''bad identity key: '' @ e)
            | Inr device \<Rightarrow>
                andthen (ensure_server E addr)
                (bnd (gets (\<lambda>a. seal_of E a addr)) (\<lambda>K.
                andthen (on_server E addr (andthen (vput (\<lambda>v. save_account v K device))
                  (andthen (remember ([(''username'', username), (''server'', addr)] @
                      (if if_uuid f = [] then [] else [(''uuid'', if_uuid f)])))
                  (vput (\<lambda>v. upsert_contact v username (if_uuid f) (ed25519_b64 Z device) (curve25519_b64 Z device))))))
                (andthen (on_index (set_username addr username))
                (andthen (save_index E)
                (andthen (announce (InfoEvent (''identity '' @ username @ '' imported on '' @ addr @
                  '' - select it and Connect to log in'')))
                (emit_servers E)))))))))"

section \<open>The command loop\<close>

datatype command =
    ChatCommand chat_command
  | ListServers
  | CheckServer string "string option"
  | Connect string
  | RegisterAs string string
  | SwitchServer string
  | RemoveServer string
  | ExportIdentity
  | ImportIdentity string
  | PluginCommand plugin_command

text \<open>Most chat commands look for the active vault first; two look at something else before.\<close>

definition chat_cmd :: "'k app_env \<Rightarrow> chat_command \<Rightarrow> (app, unit) act" where
  "chat_cmd E cmd = bnd (gets (active_sess E)) (\<lambda>s. case s of
       Some S \<Rightarrow> on_server E (s_addr S) (run_chat (e_world E) S cmd)
     | None \<Rightarrow> (case cmd of
         SetAccess _ mode \<Rightarrow>
           if \<not> access_mode_valid mode
           then report ''bad_access_mode'' ''access mode must be open, approval or invite_only''
           else report ''not_connected'' ''no active server''
       | PingServer \<Rightarrow> bnd (gets a_active) (\<lambda>x.
           report ''not_connected'' (if x = None then ''no active server'' else ''not connected''))
       | _ \<Rightarrow> report ''not_connected'' ''no active server''))"

fun handle :: "'k app_env \<Rightarrow> command \<Rightarrow> (app, unit) act" where
  "handle E (ChatCommand cmd) = chat_cmd E cmd"
| "handle E ListServers = emit_servers E"
| "handle E (CheckServer addr name) = check_server_cmd E addr name"
| "handle E (Connect addr) = connect_cmd E addr"
| "handle E (RegisterAs addr username) = register_cmd E addr username"
| "handle E (SwitchServer addr) = switch_server E addr"
| "handle E (RemoveServer addr) = remove_server E addr"
| "handle E ExportIdentity = export_identity E"
| "handle E (ImportIdentity path) = import_identity E path"
| "handle E (PluginCommand cmd) = on_plugins (run_plugin (e_plugins E) CLIENT_VERSION cmd)"

definition handle_line :: "'k app_env \<Rightarrow> command \<Rightarrow> (app, unit) act" where
  "handle_line E cmd = andthen prune_dead_links (\<lambda>a. case handle E cmd a of
       (Inl e, a') \<Rightarrow> report ''internal'' e a'
     | (Inr _, a') \<Rightarrow> (Inr (), a'))"

text \<open>main.rs: the stored index is cleaned (connectable addresses, the first record of each) and seeded.\<close>

fun dedup_addrs :: "string list \<Rightarrow> server_index \<Rightarrow> server_index" where
  "dedup_addrs seen [] = []"
| "dedup_addrs seen (r # rs) =
     (let addr = normalize_addr (sr_addr r) in
      if addr \<in> set seen then dedup_addrs seen rs else r\<lparr>sr_addr := addr\<rparr> # dedup_addrs (addr # seen) rs)"

definition startup :: "bytes \<Rightarrow> server_index \<Rightarrow> (string \<times> vault) list \<Rightarrow> (string \<times> identity_file) list \<Rightarrow>
    files \<Rightarrow> app" where
  "startup master stored files backups plugins = \<lparr>a_master = master, a_index = seed_official (dedup_addrs [] stored),
     a_saved = stored, a_servers = [], a_active = None, a_files = files, a_backups = backups, a_plugins = plugins, a_sent = [],
     a_events = [], a_tick = 0\<rparr>"

definition start_running :: "'k app_env \<Rightarrow> (app, unit) act" where
  "start_running E = andthen (emit_ready E) (refresh_verdicts E)"

text \<open>What else happens: a line that is no command, the end of a connection, a frame.\<close>

definition reader_ends :: "string \<Rightarrow> app \<Rightarrow> app" where
  "reader_ends addr = map_servers (\<lambda>x s. if x = addr then s\<lparr>sv_reader := map_option (\<lambda>_. False) (sv_reader s)\<rparr> else s)"

definition frame_arrives :: "'k app_env \<Rightarrow> string \<Rightarrow> string \<Rightarrow> incoming \<Rightarrow> (app, unit) act" where
  "frame_arrives E addr me inc a = on_server E addr (process_reporting (e_world E)
     \<lparr>p_seal = seal_of E a addr, p_me = me, p_addr = addr\<rparr> inc) a"

inductive app_reachable :: "'k app_env \<Rightarrow> app \<Rightarrow> bool" for E :: "'k app_env" where
  Start: "app_reachable E (snd (start_running E (startup master stored files backups plugins)))"
| Line: "app_reachable E a \<Longrightarrow> app_reachable E (snd (handle_line E cmd a))"
| Nonsense: "app_reachable E a \<Longrightarrow> app_reachable E (snd (report ''bad_request'' message a))"
| Ends: "app_reachable E a \<Longrightarrow> app_reachable E (reader_ends addr a)"
| Frame: "app_reachable E a \<Longrightarrow> linked a addr \<Longrightarrow> app_reachable E (snd (frame_arrives E addr me inc a))"

end
