(* ===== verification/Plugin_Facts.thy ===== *)
theory Plugin_Facts
  imports Plugins
begin

text \<open>
  What the plugin manager guarantees against a store that is not trusted: which files a command can
  change, what was checked about a package that reaches the disk, which text reaches the terminal and
  how versions are ordered.
\<close>

section \<open>Path segments\<close>

text \<open>One component of a path, neither empty nor \<open>.\<close> or \<open>..\<close>, without separators.\<close>

definition safe_segment :: "string \<Rightarrow> bool" where
  "safe_segment s = (s \<noteq> [] \<and> list_all (\<lambda>c. segment_char c \<and> \<not> is_ascii_uppercase c) s \<and>
     \<not> segment_edge (hd s) \<and> \<not> segment_edge (last s))"

lemma trim_matches_ends:
  assumes "trim_matches f s \<noteq> []"
  shows "\<not> f (hd (trim_matches f s))" and "\<not> f (last (trim_matches f s))"
proof -
  let ?t = "dropWhile f s" and ?u = "dropWhile f (rev (dropWhile f s))"
  have u: "?u \<noteq> []" using assms by (simp add: trim_matches_def)
  then have "\<not> f (hd ?u)" by (rule hd_dropWhile)
  then show "\<not> f (last (trim_matches f s))" using u by (simp add: trim_matches_def last_rev)
  have t: "?t \<noteq> []" using u by (metis dropWhile.simps(1) rev.simps(1))
  then have ht: "\<not> f (hd ?t)" by (rule hd_dropWhile)
  have "rev (takeWhile f (rev ?t) @ ?u) = ?t" by simp
  then have "rev ?u @ rev (takeWhile f (rev ?t)) = ?t" by (simp only: rev_append)
  then have "hd ?t = hd (rev ?u)" using u by (metis hd_append2 rev_is_Nil_conv)
  with ht show "\<not> f (hd (trim_matches f s))" by (simp add: trim_matches_def)
qed

lemma set_trim_matches: "set (trim_matches f s) \<subseteq> set s"
  unfolding trim_matches_def by (metis set_dropWhileD set_rev subsetI)

lemma segment_lower: "segment_char c \<Longrightarrow> segment_char (ascii_lower c) \<and> \<not> is_ascii_uppercase (ascii_lower c)"
proof (cases "is_ascii_uppercase c")
  case True
  then have "byte (ascii_lower c) = byte c + 32" "65 \<le> byte c" "byte c \<le> 90"
    by (simp_all add: ascii_lower_def is_ascii_uppercase_def byte_char_of)
  then show ?thesis by (simp add: segment_char_def ascii_class_defs is_ascii_alphanumeric_def)
next
  case False
  then have "ascii_lower c = c" by (simp add: ascii_lower_def)
  with False show "segment_char c \<Longrightarrow> ?thesis" by simp
qed

lemma sanitize_safe: "sanitize name = [] \<or> safe_segment (sanitize name)"
proof -
  have "list_all (\<lambda>c. segment_char c \<and> \<not> is_ascii_uppercase c)
      (map (\<lambda>ch. case ch of [c] \<Rightarrow> if segment_char c then ascii_lower c else CHR ''-'' | _ \<Rightarrow> CHR ''-'') (chars name))"
    using segment_lower by (auto simp: list_all_iff segment_char_def is_ascii_uppercase_def split: list.split)
  then have "list_all (\<lambda>c. segment_char c \<and> \<not> is_ascii_uppercase c) (sanitize name)"
    unfolding sanitize_def using set_trim_matches by (fastforce simp: list_all_iff)
  then show ?thesis
    using trim_matches_ends [of segment_edge] by (auto simp: safe_segment_def sanitize_def)
qed

lemma safe_segment_component: "safe_segment s \<Longrightarrow> s \<noteq> ''.'' \<and> s \<noteq> ''..'' \<and> CHR ''/'' \<notin> set s"
  by (auto simp: safe_segment_def segment_edge_def segment_char_def ascii_class_defs list_all_iff)

section \<open>Versions\<close>

definition version_seq :: "string \<Rightarrow> nat \<Rightarrow> int" where
  "version_seq s = part_at (version_parts s)"

definition later :: "(nat \<Rightarrow> int) \<Rightarrow> (nat \<Rightarrow> int) \<Rightarrow> bool" where
  "later f g = (\<exists>i. f i > g i \<and> (\<forall>j < i. f j = g j))"

lemma find_upt: "find p [0..<n] = Some i \<longleftrightarrow> i < n \<and> p i \<and> (\<forall>j < i. \<not> p j)"
  by (auto simp: find_Some_iff)

lemma is_newer_later: "is_newer a b = later (version_seq a) (version_seq b)"
proof -
  let ?n = "max (length (version_parts a)) (length (version_parts b))"
  let ?p = "\<lambda>i. part_at (version_parts a) i \<noteq> part_at (version_parts b) i"
  have out: "\<not> ?p i" if "\<not> i < ?n" for i using that by (auto simp: part_at_def)
  show ?thesis
  proof (cases "find ?p [0..<?n]")
    case None
    then have "\<forall>i. \<not> ?p i" using out by (auto simp: find_None_iff)
    with None show ?thesis by (simp add: is_newer_def later_def version_seq_def Let_def)
  next
    case (Some i)
    then have i: "?p i" "\<forall>j < i. \<not> ?p j" by (auto simp: find_upt)
    have "later (version_seq a) (version_seq b) \<longleftrightarrow> part_at (version_parts a) i > part_at (version_parts b) i"
      unfolding later_def version_seq_def using i by (metis linorder_neqE_nat order_less_irrefl)
    with Some show ?thesis by (simp add: is_newer_def Let_def)
  qed
qed

lemma later_irrefl: "\<not> later f f"
  by (simp add: later_def)

lemma later_trans: "later f g \<Longrightarrow> later g h \<Longrightarrow> later f h"
proof -
  assume "later f g" and "later g h"
  then obtain i k where "f i > g i" "\<forall>j < i. f j = g j" "g k > h k" "\<forall>j < k. g j = h j"
    by (auto simp: later_def)
  note ik = this
  consider "i < k" | "i = k" | "k < i" by linarith
  then show "later f h"
  proof cases
    case 1
    with ik have "f i > h i" "\<forall>j < i. f j = h j" by auto
    then show ?thesis by (auto simp: later_def)
  next
    case 2
    with ik have "f i > h i" "\<forall>j < i. f j = h j" by auto
    then show ?thesis by (auto simp: later_def)
  next
    case 3
    with ik have "f k > h k" "\<forall>j < k. f j = h j" by auto
    then show ?thesis by (auto simp: later_def)
  qed
qed

lemma later_total: "later f g \<or> later g f \<or> f = g"
proof (cases "f = g")
  case False
  then obtain k where "f k \<noteq> g k" by auto
  then have "f (LEAST k. f k \<noteq> g k) \<noteq> g (LEAST k. f k \<noteq> g k)" by (rule LeastI)
  moreover have "\<forall>j < (LEAST k. f k \<noteq> g k). f j = g j" using not_less_Least by blast
  ultimately show ?thesis unfolding later_def
    by (cases "f (LEAST k. f k \<noteq> g k) > g (LEAST k. f k \<noteq> g k)") (blast, metis linorder_neqE)
qed simp

text \<open>Versions as a type: the numbers of all segments, in the lexicographic order.\<close>

datatype version = Version (segments: "nat \<Rightarrow> int")

instantiation version :: linorder
begin

definition less_version :: "version \<Rightarrow> version \<Rightarrow> bool" where
  "less_version v w = later (segments w) (segments v)"

definition less_eq_version :: "version \<Rightarrow> version \<Rightarrow> bool" where
  "less_eq_version v w = (later (segments w) (segments v) \<or> v = w)"

instance
proof
  fix u v w :: version
  show "(v < w) = (v \<le> w \<and> \<not> w \<le> v)"
    unfolding less_version_def less_eq_version_def using later_irrefl later_trans by metis
  show "v \<le> v" by (simp add: less_eq_version_def)
  show "u \<le> v \<Longrightarrow> v \<le> w \<Longrightarrow> u \<le> w" unfolding less_eq_version_def using later_trans by metis
  show "v \<le> w \<Longrightarrow> w \<le> v \<Longrightarrow> v = w" unfolding less_eq_version_def using later_irrefl later_trans by metis
  show "v \<le> w \<or> w \<le> v" unfolding less_eq_version_def using later_total version.expand by metis
qed

end

definition version_of :: "string \<Rightarrow> version" where
  "version_of s = Version (version_seq s)"

lemma is_newer_less: "is_newer a b = (version_of b < version_of a)"
  by (simp add: is_newer_later less_version_def version_of_def)

section \<open>Text for the terminal\<close>

definition well_char :: "string \<Rightarrow> bool" where
  "well_char x = (\<exists>c cs. x = c # cs \<and> \<not> is_cont c \<and> list_all is_cont cs)"

lemma utf8_head: "utf8_valid (c # cs) \<Longrightarrow> \<not> is_cont c"
  by (auto simp: is_cont_def split: if_splits)

lemma utf8_dropWhile: "utf8_valid r \<Longrightarrow> dropWhile is_cont r = r"
  using utf8_head by (cases r) auto

lemma utf8_rest:
  assumes "utf8_valid (a # r)"
  shows "utf8_valid (dropWhile is_cont r)"
proof -
  have "\<exists>us t. r = us @ t \<and> list_all is_cont us \<and> utf8_valid t"
  proof (cases "byte a < 128")
    case True
    then show ?thesis using assms by (intro exI [of _ "[]"] exI [of _ r]) simp
  next
    case False
    then consider b r' where "r = b # r'" "is_cont b" "utf8_valid r'"
      | b c r' where "r = b # c # r'" "is_cont b" "is_cont c" "utf8_valid r'"
      | b c d r' where "r = b # c # d # r'" "is_cont b" "is_cont c" "is_cont d" "utf8_valid r'"
    proof -
      consider "194 \<le> byte a \<and> byte a \<le> 223" | "\<not> (194 \<le> byte a \<and> byte a \<le> 223)" "224 \<le> byte a \<and> byte a \<le> 239"
        | "\<not> (194 \<le> byte a \<and> byte a \<le> 223)" "\<not> (224 \<le> byte a \<and> byte a \<le> 239)" "240 \<le> byte a \<and> byte a \<le> 244"
        using assms False by (simp only: utf8_valid.simps if_False) metis
      then show thesis
      proof cases
        case 1
        then have "case r of b # r' \<Rightarrow> is_cont b \<and> utf8_valid r' | _ \<Rightarrow> False"
          using assms False by (simp only: utf8_valid.simps if_False if_True)
        then show thesis using that(1) by (cases r) auto
      next
        case 2
        then have "case r of b # c # r' \<Rightarrow> is_cont b \<and> is_cont c \<and> utf8_valid r' | _ \<Rightarrow> False"
          using assms False by (cases r; cases "tl r") (auto simp: is_cont_def split: if_split_asm)
        then show thesis using that(2) by (cases r; cases "tl r") auto
      next
        case 3
        then have "case r of b # c # d # r' \<Rightarrow> is_cont b \<and> is_cont c \<and> is_cont d \<and> utf8_valid r' | _ \<Rightarrow> False"
          using assms False by (cases r; cases "tl r"; cases "tl (tl r)") (auto simp: is_cont_def split: if_split_asm)
        then show thesis using that(3) by (cases r; cases "tl r"; cases "tl (tl r)") auto
      qed
    qed
    then show ?thesis
      by cases (rule exI [of _ "[_]"] exI [of _ "[_, _]"] exI [of _ "[_, _, _]"], simp)+
  qed
  then obtain us t where "r = us @ t" "list_all is_cont us" "utf8_valid t" by blast
  moreover from this have "dropWhile is_cont (us @ t) = t"
    using utf8_dropWhile by (simp add: dropWhile_append2 list_all_iff)
  ultimately show ?thesis by simp
qed

lemma chars_well: "utf8_valid s \<Longrightarrow> list_all well_char (chars s)"
proof (induction s rule: chars.induct)
  case (2 c cs)
  have "list_all is_cont (takeWhile is_cont cs)" by (auto simp: list_all_iff dest: set_takeWhileD)
  then have "well_char (c # takeWhile is_cont cs)" using utf8_head [OF "2.prems"] by (auto simp: well_char_def)
  with 2 utf8_rest [OF "2.prems"] show ?case by simp
qed simp

lemma no_lead:
  assumes "t = [] \<or> \<not> is_cont (hd t)"
  shows "takeWhile is_cont t = []" and "dropWhile is_cont t = t"
  using assms by (cases t; simp)+

lemma chars_concat: "list_all well_char xs \<Longrightarrow> chars (concat xs) = xs"
proof (induction xs)
  case (Cons x xs)
  then obtain c cs where x: "x = c # cs" "list_all is_cont cs" by (auto simp: well_char_def)
  have "concat xs = [] \<or> \<not> is_cont (hd (concat xs))"
    using Cons.prems by (cases xs) (auto simp: well_char_def)
  note rest = no_lead [OF this]
  have "\<And>y. y \<in> set cs \<Longrightarrow> is_cont y" using x(2) by (simp add: list_all_iff)
  then have "takeWhile is_cont (cs @ concat xs) = cs" "dropWhile is_cont (cs @ concat xs) = concat xs"
    by (simp_all only: takeWhile_append2 dropWhile_append2 append_Nil2 rest)
  with Cons x show ?case by simp
qed simp

definition inert_text :: "string \<Rightarrow> bool" where
  "inert_text s = list_all (\<lambda>ch. \<not> control_char ch) (chars s)"

lemma clean_display_inert:
  assumes "utf8_valid s"
  shows "inert_text (clean_display s n)" and "length (chars (clean_display s n)) \<le> n"
proof -
  have "list_all well_char (take n (filter (\<lambda>ch. \<not> control_char ch) (chars s)))"
    using chars_well [OF assms] by (auto simp: list_all_iff dest: in_set_takeD)
  then have c: "chars (clean_display s n) = take n (filter (\<lambda>ch. \<not> control_char ch) (chars s))"
    unfolding clean_display_def by (rule chars_concat)
  show "inert_text (clean_display s n)" by (auto simp: inert_text_def c list_all_iff dest: in_set_takeD)
  show "length (chars (clean_display s n)) \<le> n" by (simp add: c)
qed

lemma pick_color: "hex_color d \<Longrightarrow> hex_color (pick c d)"
  by (simp add: pick_def clean_hex_def split: option.split)

text \<open>The texts of a manifest, and what is shown of each with its bound.\<close>

definition manifest_texts :: "manifest \<Rightarrow> string list" where
  "manifest_texts m = [mf_name m, mf_display_name m, mf_version m, mf_kind m, mf_category m, mf_description m,
     mf_author m, mf_license m, mf_source_url m]"

definition view_texts :: "plugin_view \<Rightarrow> (string \<times> nat) list" where
  "view_texts v = [(pv_name v, 64), (pv_display_name v, 64), (pv_version v, 32), (pv_kind v, 32), (pv_category v, 32),
     (pv_description v, 2000), (pv_author v, 128), (pv_license v, 64), (pv_source_url v, 512)]"

section \<open>Bodies and packages\<close>

lemma read_chunks_bound: "read_chunks mx buf cs = Inr b \<Longrightarrow> length buf \<le> mx \<Longrightarrow> length b \<le> mx"
  by (induction mx buf cs rule: read_chunks.induct) (auto split: if_splits)

lemma read_capped_bound: "read_capped resp mx = Inr b \<Longrightarrow> length b \<le> mx"
  using read_chunks_bound [of mx "[]"] by (auto simp: read_capped_def split: option.splits if_splits)

lemma download_run:
  "download P url what mx s = (r, s') \<Longrightarrow> pl_files s' = pl_files s \<and> (\<forall>b. r = Inr b \<longrightarrow> length b \<le> mx)"
  by (auto simp: download_def fetch_def draw_plugins_def act_defs read_capped_bound map_err_def split: sum.splits prod.splits)

lemma complain_files [simp]: "pl_files (snd (complain code msg s)) = pl_files s"
  by (simp add: complain_def tell_def modify_def)

text \<open>What was checked about a package before anything was written.\<close>

definition package_gate :: "plugin_env \<Rightarrow> string \<Rightarrow> manifest \<Rightarrow> bytes \<Rightarrow> bool" where
  "package_gate P name m b = (trim (mf_name m) = name \<and> trim ` set (mf_permissions m) \<subseteq> set ALLOWED_PERMISSIONS \<and>
     mf_package_sha256 m \<noteq> [] \<and> hex_encode (pe_sha256 P b) = mf_package_sha256 m \<and> length b \<le> MAX_PACKAGE_BYTES \<and>
     (\<exists>pkg. pe_package_of P b = Inr pkg))"

lemma bnd_split:
  assumes "m s = (r, s1)" and "\<And>e. r = Inl e \<Longrightarrow> Q (Inl e, s1)" and "\<And>x. r = Inr x \<Longrightarrow> Q (f x s1)"
  shows "Q (bnd m f s)"
  using assms by (cases r) (simp_all add: bnd_def)

lemma bnd_lift: "bnd (lift r) f s = (case r of Inl e \<Rightarrow> (Inl e, s) | Inr x \<Rightarrow> f x s)"
  by (simp add: bnd_def lift_def split: sum.split)

lemma install_cases:
  assumes "plugin_dir P (trim input) = Inr dir"
  shows "pl_files (snd (install P input s)) = pl_files s \<or>
    (\<exists>m b s1. install P input s = record_install P dir m b s1 \<and> pl_files s1 = pl_files s \<and> package_gate P (trim input) m b)"
proof -
  define Q where "Q run \<longleftrightarrow> pl_files (snd run) = pl_files s \<or>
    (\<exists>m b s1. run = record_install P dir m b s1 \<and> pl_files s1 = pl_files s \<and> package_gate P (trim input) m b)"
    for run :: "(string + unit) \<times> plugins"
  have stop: "Q (complain code msg t)" "Q (Inl e, t)" if "pl_files t = pl_files s" for code msg e t
    using that by (simp_all add: Q_def)
  have gated: "Q (record_install P dir m b t)" if "pl_files t = pl_files s" "package_gate P (trim input) m b" for m b t
    using that unfolding Q_def by blast
  obtain r1 s1 where d1: "download P (pe_store P @ ''/'' @ sanitize (trim input) @ ''/manifest'') ''manifest'' MAX_MANIFEST_BYTES s = (r1, s1)"
    by fastforce
  obtain r2 s2 where d2: "download P (pe_store P @ ''/'' @ sanitize (trim input) @ ''/package'') ''package'' MAX_PACKAGE_BYTES s1 = (r2, s2)"
    by fastforce
  have same: "pl_files s1 = pl_files s" "pl_files s2 = pl_files s" "\<And>b. r2 = Inr b \<Longrightarrow> length b \<le> MAX_PACKAGE_BYTES"
    using download_run [OF d1] download_run [OF d2] by simp_all
  have gate: "package_gate P (trim input) m b"
    if "trim (mf_name m) = trim input" "trim ` set (mf_permissions m) \<subseteq> set ALLOWED_PERMISSIONS" "r2 = Inr b"
      "package_refused P (trim input) m b = None" "pe_package_of P b = Inr pkg" for m b pkg
    using that same(3) by (auto simp: package_gate_def package_refused_def Let_def split: if_split_asm)
  note split = bnd_split [where Q = Q]
  note split2 = split [of "download P (pe_store P @ ''/'' @ sanitize (trim input) @ ''/package'') ''package'' MAX_PACKAGE_BYTES" s1, OF d2]
  have "Q (install P input s)"
    unfolding install_def assms Let_def sum.case
    by (rule split, rule d1, rule stop(2), rule same)
      (auto simp only: bnd_lift map_err_def validate_permissions_iff not_not
        split: sum.split if_split option.split
        intro!: stop gated split2 same intro: gate)
  then show ?thesis by (simp add: Q_def)
qed

section \<open>Which files change\<close>

definition same_outside :: "(string list \<Rightarrow> bool) \<Rightarrow> plugins \<Rightarrow> plugins \<Rightarrow> bool" where
  "same_outside Z s s' = (\<forall>p. \<not> Z p \<longrightarrow> map_of (pl_files s') p = map_of (pl_files s) p)"

lemma coherent_outside_zone [simp]: "preorder_rel (same_outside Z)"
  by (rule preorder_relI) (auto simp: same_outside_def)

text \<open>\<open>change\<close> alters the paths of the zone only.\<close>

definition alters :: "(string list \<Rightarrow> bool) \<Rightarrow> (files \<Rightarrow> string + files) \<Rightarrow> bool" where
  "alters Z change = (\<forall>fs fs' p. change fs = Inr fs' \<longrightarrow> \<not> Z p \<longrightarrow> map_of fs' p = map_of fs p)"

lemma map_of_filter_key: "map_of (filter (\<lambda>(q, n). \<not> f q) fs) p = (if f p then None else map_of fs p)"
  by (induction fs) auto

lemma alters_ops:
  "Z p \<Longrightarrow> alters Z (write_file p b)" "Z p \<Longrightarrow> alters Z (create_dir_all p)" "Z p \<Longrightarrow> alters Z (remove_file p)"
  "(\<And>q. prefix p q \<Longrightarrow> Z q) \<Longrightarrow> alters Z (remove_dir_all p)"
  by (auto simp: alters_def write_file_def create_dir_all_def remove_file_def remove_dir_all_def update_conv' map_of_filter_key
      delete_conv' split: if_splits option.splits node.splits)

lemma same_outside_quiet:
  "steps (same_outside Z) (draw_plugins f)" "steps (same_outside Z) (tell e)" "steps (same_outside Z) (complain code msg)"
  "steps (same_outside Z) (tell_plugin pe)" "steps (same_outside Z) (fetch P url)"
  by (simp_all add: acts_def same_outside_def draw_plugins_def tell_def complain_def tell_plugin_def fetch_def modify_def)

lemma same_outside_disk: "alters Z change \<Longrightarrow> steps (same_outside Z) (on_disk P change)"
  by (auto simp: acts_def on_disk_def draw_plugins_def act_defs same_outside_def alters_def split: sum.split)

lemmas outside_rules = act_intros coherent_True [THEN iffD2] coherent_outside_zone same_outside_quiet same_outside_disk alters_ops

text \<open>The three files next to the plugins' directories, and the directory of one plugin.\<close>

definition index_paths :: "string list list" where
  "index_paths = [installed_path, active_theme_path, active_widgets_path]"

definition in_dir :: "string \<Rightarrow> string list \<Rightarrow> bool" where
  "in_dir name p = (sanitize name \<noteq> [] \<and> prefix [sanitize name] p)"

lemma outside_activate:
  "Z active_theme_path \<Longrightarrow> Z active_widgets_path \<Longrightarrow> steps (same_outside Z) (apply_active P idx)"
  unfolding apply_active_def show_theme_def show_widgets_def Let_def
  by (intro outside_rules) (auto intro!: outside_rules split: option.split)

lemma outside_apply_active: "(\<And>p. p \<in> set index_paths \<Longrightarrow> Z p) \<Longrightarrow> steps (same_outside Z) (apply_active P idx)"
  by (rule outside_activate) (simp_all add: index_paths_def)

lemma outside_record_install:
  assumes "\<And>p. p \<in> set index_paths \<Longrightarrow> Z p" and "Z dir" and "Z (dir @ [''manifest.json''])" and "Z (dir @ [''package.json''])"
  shows "steps (same_outside Z) (record_install P dir m b)"
  unfolding record_install_def save_installed_def list_installed_def Let_def
  using assms by (intro outside_rules outside_apply_active) (auto simp: index_paths_def)

text \<open>The files a command may change.\<close>

definition plugin_zone :: "plugin_command \<Rightarrow> string list \<Rightarrow> bool" where
  "plugin_zone cmd p = (case cmd of
       InstallPlugin name \<Rightarrow> p \<in> set index_paths \<or> in_dir (trim name) p
     | RemovePlugin name \<Rightarrow> p \<in> set index_paths \<or> in_dir name p
     | _ \<Rightarrow> False)"

lemma plugin_dir_Inr: "plugin_dir P name = Inr dir \<longleftrightarrow> sanitize name \<noteq> [] \<and> dir = [sanitize name]"
  by (auto simp: plugin_dir_def Let_def)

lemma outside_install: "same_outside (plugin_zone (InstallPlugin name)) s (snd (install P name s))"
proof (cases "plugin_dir P (trim name)")
  case (Inl e)
  then show ?thesis by (simp add: install_def same_outside_def Let_def)
next
  case (Inr dir)
  then have zone: "plugin_zone (InstallPlugin name) (dir @ q)" for q
    by (auto simp: plugin_dir_Inr plugin_zone_def in_dir_def)
  show ?thesis using install_cases [OF Inr, of s]
  proof (elim disjE exE conjE)
    fix m b s1
    assume run: "install P name s = record_install P dir m b s1" and s1: "pl_files s1 = pl_files s"
    have "steps (same_outside (plugin_zone (InstallPlugin name))) (record_install P dir m b)"
      using zone [of "[]"] zone by (intro outside_record_install) (simp_all add: plugin_zone_def)
    then show ?thesis using actsD [of "\<lambda>_. True" _ _ s1] run s1 by (fastforce simp: same_outside_def)
  qed (simp add: same_outside_def)
qed

lemma outside_updates: "steps (same_outside Z) (look_for_updates P found idx)"
  by (induction idx arbitrary: found) (auto intro!: outside_rules split: sum.split)

lemma outside_run_plugin: "steps (same_outside (plugin_zone cmd)) (run_plugin P version cmd)"
proof (cases cmd)
  case (InstallPlugin name)
  then show ?thesis using outside_install by (simp add: acts_def)
next
  case (RemovePlugin name)
  then have "p \<in> set index_paths \<Longrightarrow> plugin_zone cmd p" "in_dir name p \<Longrightarrow> plugin_zone cmd p" for p
    by (simp_all add: plugin_zone_def)
  note zone = this
  have dirs: "steps (same_outside (plugin_zone cmd)) (case plugin_dir P name of Inr dir \<Rightarrow> ignoring (on_disk P (remove_dir_all dir)) | Inl _ \<Rightarrow> ret ())"
  proof (cases "plugin_dir P name")
    case (Inr dir)
    then have "plugin_zone cmd q" if "prefix dir q" for q using zone(2) that by (simp add: plugin_dir_Inr in_dir_def)
    with Inr show ?thesis by (auto intro!: outside_rules)
  qed (auto intro!: outside_rules)
  show ?thesis
    unfolding RemovePlugin run_plugin.simps remove_plugin_def save_installed_def list_installed_def Let_def
    by (rule dirs [unfolded RemovePlugin] zone(1) [unfolded RemovePlugin] outside_apply_active outside_rules refl |
        simp add: index_paths_def; fail)+
qed (auto simp: list_store_def list_installed_def check_updates_def submit_def check_client_update_def Let_def
    intro!: outside_rules outside_updates split: sum.split prod.split)

text \<open>C13: A plugin's name cannot lead a command out of the plugin's own directory. Whatever a store answers and
  whatever name was typed, installing and removing change no file but those below the directory of that name
  and the three index files beside it, and the other commands change none; the directory is one proper
  component of a path, so it is neither the plugins directory itself nor anything outside it.\<close>

theorem plugin_files_confined:
  "(\<not> plugin_zone cmd p \<longrightarrow> map_of (pl_files (snd (run_plugin P v cmd s))) p = map_of (pl_files s) p) \<and>
   (in_dir name p \<longrightarrow> p \<noteq> [] \<and> hd p \<notin> {[], ''.'', ''..''} \<and> CHR ''/'' \<notin> set (hd p))"
proof (rule conjI, rule_tac [!] impI)
  show "map_of (pl_files (snd (run_plugin P v cmd s))) p = map_of (pl_files s) p" if "\<not> plugin_zone cmd p"
    using actsD [OF outside_run_plugin [of cmd P v], of s] that by (simp add: same_outside_def)
  assume "in_dir name p"
  then have "p \<noteq> []" "hd p = sanitize name" "safe_segment (sanitize name)"
    using sanitize_safe by (auto simp: in_dir_def prefix_def)
  then show "p \<noteq> [] \<and> hd p \<notin> {[], ''.'', ''..''} \<and> CHR ''/'' \<notin> set (hd p)"
    using safe_segment_component [of "sanitize name"] by (simp add: safe_segment_def)
qed

section \<open>What reaches the disk\<close>

definition package_path :: "string list \<Rightarrow> string list" where
  "package_path dir = dir @ [''package.json'']"

text \<open>The file at \<open>q\<close> stays as it is or becomes \<open>b\<close>.\<close>

definition only_becomes :: "string list \<Rightarrow> bytes \<Rightarrow> plugins \<Rightarrow> plugins \<Rightarrow> bool" where
  "only_becomes q b s s' = (map_of (pl_files s') q = map_of (pl_files s) q \<or> map_of (pl_files s') q = Some (File b))"

lemma preorder_only_becomes [simp]: "preorder_rel (only_becomes q b)"
  by (rule preorder_relI) (auto simp: only_becomes_def)

lemma outside_only_becomes: "steps (same_outside (\<lambda>p. p \<noteq> q)) m \<Longrightarrow> steps (only_becomes q b) m"
  by (auto simp: acts_def same_outside_def only_becomes_def)

lemma write_only_becomes: "steps (only_becomes q b) (on_disk P (write_file q b))"
  by (auto simp: acts_def on_disk_def draw_plugins_def act_defs only_becomes_def write_file_def update_conv' split: sum.split)

lemma record_install_becomes: "steps (only_becomes (package_path [seg]) b) (record_install P [seg] m b)"
proof -
  let ?q = "package_path [seg]"
  have index: "p \<in> set index_paths \<Longrightarrow> p \<noteq> ?q" "installed_path \<noteq> ?q" for p
    by (auto simp: package_path_def installed_path_def index_paths_def active_theme_path_def active_widgets_path_def)
  have rest: "steps (same_outside (\<lambda>p. p \<noteq> ?q)) (on_disk P (create_dir_all [seg]))"
    "steps (same_outside (\<lambda>p. p \<noteq> ?q)) (on_disk P (write_file ([seg] @ [''manifest.json'']) x))"
    "steps (same_outside (\<lambda>p. p \<noteq> ?q)) (save_installed P idx)" "steps (same_outside (\<lambda>p. p \<noteq> ?q)) (apply_active P idx)"
    "steps (same_outside (\<lambda>p. p \<noteq> ?q)) (list_installed P)" "steps (same_outside (\<lambda>p. p \<noteq> ?q)) (tell e)"
    "steps (same_outside (\<lambda>p. p \<noteq> ?q)) (tell_plugin pe)" for x idx e pe
    unfolding save_installed_def list_installed_def
    by (rule same_outside_disk alters_ops | simp add: package_path_def index; fail | intro outside_rules outside_apply_active index)+
  show ?thesis
    unfolding record_install_def Let_def package_path_def [symmetric]
    by (intro act_intros coherent_True [THEN iffD2] preorder_only_becomes write_only_becomes rest [THEN outside_only_becomes])
qed

lemma on_disk_ok: "on_disk P change s = (Inr u, s') \<Longrightarrow> change (pl_files s) = Inr (pl_files s')"
  by (auto simp: on_disk_def draw_plugins_def act_defs split: sum.splits)

definition with_record :: "manifest \<Rightarrow> installed list \<Rightarrow> installed list" where
  "with_record m idx = filter (\<lambda>p. mf_name (in_manifest p) \<noteq> mf_name m) idx @ [\<lparr>in_manifest = m, in_active = True\<rparr>]"

lemma create_dir_ok:
  "create_dir_all p fs = Inr fs' \<Longrightarrow> map_of fs' p = Some Dir \<and> (\<forall>q. q \<noteq> p \<longrightarrow> map_of fs' q = map_of fs q)"
  by (auto simp: create_dir_all_def update_conv' split: option.splits node.splits)

lemma write_file_ok: "write_file p b fs = Inr fs' \<Longrightarrow> map_of fs p \<noteq> Some Dir \<and> map_of fs' = (map_of fs)(p \<mapsto> File b)"
  by (auto simp: write_file_def update_conv' split: if_splits)

lemma apply_active_files:
  "apply_active P idx s = (r, s') \<Longrightarrow> p \<noteq> active_theme_path \<Longrightarrow> p \<noteq> active_widgets_path \<Longrightarrow>
     map_of (pl_files s') p = map_of (pl_files s) p"
  using actsD [OF outside_activate [of "\<lambda>p. p = active_theme_path \<or> p = active_widgets_path" P idx], of s]
  by (simp add: same_outside_def)

lemma record_install_ok:
  assumes "record_install P [seg] m b s = (Inr (), s')"
  shows "map_of (pl_files s') installed_path =
      Some (File (pe_installed_bytes P (with_record m (load_installed P (pl_files s)))))"
    and "map_of (pl_files s') (package_path [seg]) = Some (File b)"
proof -
  from assms obtain s1 s2 s3 s4 s5 where run:
    "on_disk P (create_dir_all [seg]) s = (Inr (), s1)"
    "on_disk P (write_file ([seg] @ [''manifest.json'']) (pe_manifest_bytes P m)) s1 = (Inr (), s2)"
    "on_disk P (write_file ([seg] @ [''package.json'']) b) s2 = (Inr (), s3)"
    "save_installed P (with_record m (load_installed P (pl_files s3))) s3 = (Inr (), s4)"
    "apply_active P (with_record m (load_installed P (pl_files s3))) s4 = (Inr (), s5)" "pl_files s' = pl_files s5"
    by (auto simp: record_install_def andthen_def bnd_ok gets_def Let_def with_record_def [symmetric] tell_plugin_def tell_def
        modify_def list_installed_def)
  note disk = run(1-3) [THEN on_disk_ok] run(4) [unfolded save_installed_def, THEN on_disk_ok]
  have dir: "map_of (pl_files s1) [seg] = Some Dir" "p \<noteq> [seg] \<Longrightarrow> map_of (pl_files s1) p = map_of (pl_files s) p" for p
    using create_dir_ok [OF disk(1)] by simp_all
  have files: "p \<noteq> [seg, ''manifest.json''] \<Longrightarrow> p \<noteq> [seg, ''package.json''] \<Longrightarrow> map_of (pl_files s3) p = map_of (pl_files s1) p"
    "map_of (pl_files s3) [seg, ''package.json''] = Some (File b)" for p
    using write_file_ok [OF disk(2)] write_file_ok [OF disk(3)] by simp_all
  have "[seg] \<noteq> installed_path"
    using write_file_ok [OF disk(4)] files(1) [of "[seg]"] dir(1) by auto
  then have "map_of (pl_files s3) installed_path = map_of (pl_files s) installed_path"
    using files(1) [of installed_path] dir(2) [of installed_path] by (auto simp: installed_path_def)
  then have same: "load_installed P (pl_files s3) = load_installed P (pl_files s)"
    by (simp add: load_installed_def read_to_string_def)
  have saved: "map_of (pl_files s4) installed_path = Some (File (pe_installed_bytes P (with_record m (load_installed P (pl_files s)))))"
    "map_of (pl_files s4) [seg, ''package.json''] = Some (File b)"
    using write_file_ok [OF disk(4)] files(2) by (simp_all add: same installed_path_def)
  note active = apply_active_files [OF run(5)]
  then have "map_of (pl_files s5) installed_path = map_of (pl_files s4) installed_path"
    "map_of (pl_files s5) [seg, ''package.json''] = map_of (pl_files s4) [seg, ''package.json'']"
    by (simp_all add: installed_path_def active_theme_path_def active_widgets_path_def)
  with saved run(6) show "map_of (pl_files s') installed_path =
      Some (File (pe_installed_bytes P (with_record m (load_installed P (pl_files s)))))"
    and "map_of (pl_files s') (package_path [seg]) = Some (File b)"
    by (simp_all add: package_path_def)
qed

text \<open>C12: Nothing unverified is installed. If installing changes the package file of the plugin at all, to
  what was downloaded, the store's manifest carries the requested name, asks only for permissions of the
  allow-list (so none of the forbidden ones), has a checksum, and the SHA-256 of the package is that
  checksum; the package is within its size cap and parses. If installing reports success, the index has the
  record of such a manifest in the place of an older one, and the package file is such a package.\<close>

theorem only_verified_packages:
  assumes "plugin_dir P (trim input) = Inr dir" and "install P input s = (r, s')"
  shows "(map_of (pl_files s') (package_path dir) \<noteq> map_of (pl_files s) (package_path dir) \<longrightarrow>
      (\<exists>m b. map_of (pl_files s') (package_path dir) = Some (File b) \<and> package_gate P (trim input) m b)) \<and>
    (r = Inr () \<and> pl_files s' \<noteq> pl_files s \<longrightarrow> (\<exists>m b. map_of (pl_files s') (package_path dir) = Some (File b) \<and>
      package_gate P (trim input) m b \<and>
      map_of (pl_files s') installed_path = Some (File (pe_installed_bytes P (with_record m (load_installed P (pl_files s)))))))"
proof -
  from assms(1) obtain seg where dir: "dir = [seg]" by (auto simp: plugin_dir_Inr)
  consider "pl_files s' = pl_files s"
    | m b s1 where "install P input s = record_install P dir m b s1" "pl_files s1 = pl_files s" "package_gate P (trim input) m b"
    using install_cases [OF assms(1), of s] assms(2) by auto
  then show ?thesis
  proof cases
    case (2 m b s1)
    then have "record_install P [seg] m b s1 = (r, s')" using assms(2) dir by simp
    moreover from this have "only_becomes (package_path [seg]) b s1 s'"
      using actsD [OF record_install_becomes [of seg b P m], of s1] by simp
    ultimately show ?thesis
      using 2(2,3) record_install_ok [of P seg m b s1 s'] dir by (auto simp: only_becomes_def)
  qed simp
qed

section \<open>Text, versions and names\<close>

text \<open>C37: What a store sends is shown as inert text. Every text of a listed plugin is without control
  characters (no escape sequence can begin) and within its bound, and every colour of a palette is a plain
  \<open>#RRGGBB\<close>, whatever the theme says. The exception are the names of the permissions, which are listed as the
  store sent them.\<close>

theorem plugin_text_is_inert:
  assumes "list_all utf8_valid (manifest_texts m)"
  shows "list_all (\<lambda>(t, n). inert_text t \<and> length (chars t) \<le> n) (view_texts (manifest_to_value m idx)) \<and>
    list_all (hex_color \<circ> snd) (theme_to_palette th) \<and>
    map fst (pv_permissions (manifest_to_value m idx)) = mf_permissions m"
proof (intro conjI)
  show "list_all (\<lambda>(t, n). inert_text t \<and> length (chars t) \<le> n) (view_texts (manifest_to_value m idx))"
    using assms by (simp add: view_texts_def manifest_to_value_def manifest_texts_def clean_display_inert)
  have "list_all hex_color [''#EE00FF'', ''#FF007B'', ''#17191D'', ''#FFFFFF'', ''#3A2E3F'', ''#8A8D93'', ''#2ECC71'',
      ''#F1C40F'', ''#E74C3C'']"
    by (simp add: hex_color_def ascii_class_defs)
  then show "list_all (hex_color \<circ> snd) (theme_to_palette th)"
    by (simp add: theme_to_palette_def pick_color)
  show "map fst (pv_permissions (manifest_to_value m idx)) = mf_permissions m"
    by (simp add: manifest_to_value_def o_def)
qed

text \<open>C38: \<open>is_newer\<close> is the linear order of versions: lexicographic on their numbers, the shorter one read with
  zeros after it. So it is a strict order, and versions that neither follows have the same numbers; where a segment
  is no number it counts as -1, so two versions that differ only in such a word follow neither way.\<close>

theorem is_newer_order:
  "is_newer a b = (version_of b < version_of a) \<and> \<not> is_newer a a \<and>
   (is_newer a b \<longrightarrow> is_newer b c \<longrightarrow> is_newer a c) \<and>
   (is_newer a b \<or> is_newer b a \<or> version_of a = version_of b)"
  unfolding is_newer_less using less_trans by auto

theorem is_newer_order_witness:
  "is_newer ''1.10.1'' ''1.9.9'' \<and> \<not> is_newer ''1.0.beta'' ''1.0.alpha'' \<and> \<not> is_newer ''1.0.alpha'' ''1.0.beta''"
proof -
  have parts: "version_parts ''1.10.1'' = [1, 10, 1]" "version_parts ''1.10'' = [1, 10]" "version_parts ''1.9.9'' = [1, 9, 9]"
    "version_parts ''1.0.beta'' = [1, 0, -1]" "version_parts ''1.0.alpha'' = [1, 0, -1]"
    by (simp_all add: version_parts_def parse_i64_def digits_val_def is_ascii_digit_def checked_i64_def in_i64_def
        i64_min_def i64_max_def Let_def)
  have "is_newer ''1.10.1'' ''1.10''" "is_newer ''1.10'' ''1.9.9''"
    by (simp_all add: is_newer_def parts part_at_def upt_rec Let_def)
  then have "is_newer ''1.10.1'' ''1.9.9''" using is_newer_order by blast
  then show ?thesis by (simp add: is_newer_def parts part_at_def upt_rec Let_def)
qed

text \<open>Two names with one directory.\<close>

lemma remove_run:
  assumes "remove_plugin P a s = (Inr (), s')" and "\<exists>j \<in> set (load_installed P (pl_files s)). mf_name (in_manifest j) = a"
    and "\<And>n. pe_disk P n = Inr ()" and "map_of (pl_files s) [sanitize a] = Some Dir" and "sanitize a \<noteq> []"
  shows "map_of (pl_files s') installed_path = Some (File (pe_installed_bytes P
      (filter (\<lambda>p. mf_name (in_manifest p) \<noteq> a) (load_installed P (pl_files s)))))"
    and "map_of (pl_files s') [sanitize a, ''package.json''] = None"
proof -
  let ?idx = "filter (\<lambda>p. mf_name (in_manifest p) \<noteq> a) (load_installed P (pl_files s))"
  have "length ?idx \<noteq> length (load_installed P (pl_files s))"
    using assms(2) length_filter_less [of _ _ "\<lambda>p. mf_name (in_manifest p) \<noteq> a"] by fastforce
  then obtain s1 s2 s3 where run: "ignoring (on_disk P (remove_dir_all [sanitize a])) s = (Inr (), s1)"
    "save_installed P ?idx s1 = (Inr (), s2)" "apply_active P ?idx s2 = (Inr (), s3)" "pl_files s' = pl_files s3"
    using assms(1,5)
    by (auto simp: remove_plugin_def plugin_dir_def andthen_def bnd_ok gets_def Let_def tell_def modify_def list_installed_def
        tell_plugin_def)
  have gone: "pl_files s1 = filter (\<lambda>(q, n). \<not> prefix [sanitize a] q) (pl_files s)"
    using run(1) assms(3,4) by (auto simp: ignoring_def on_disk_def draw_plugins_def act_defs remove_dir_all_def)
  note save = write_file_ok [OF on_disk_ok [OF run(2) [unfolded save_installed_def]]]
  have "map_of (pl_files s2) [sanitize a, ''package.json''] = None"
    using save by (simp add: gone map_of_filter_key installed_path_def)
  moreover have "map_of (pl_files s2) installed_path = Some (File (pe_installed_bytes P ?idx))" using save by simp
  ultimately show "map_of (pl_files s') installed_path = Some (File (pe_installed_bytes P ?idx))"
    and "map_of (pl_files s') [sanitize a, ''package.json''] = None"
    using run(4) apply_active_files [OF run(3)]
    by (simp_all add: installed_path_def active_theme_path_def active_widgets_path_def)
qed

text \<open>Records are kept by name and files by the sanitized name, and different names can have one directory.
  If two such plugins are installed, removing the one deletes the files of the other too: its record is
  still in the index, as active, but its package can no longer be loaded.\<close>

theorem names_share_a_directory:
  assumes "remove_plugin P a s = (Inr (), s')" and "\<exists>j \<in> set (load_installed P (pl_files s)). mf_name (in_manifest j) = a"
    and "i \<in> set (load_installed P (pl_files s))" and "mf_name (in_manifest i) = b" and "b \<noteq> a" and "sanitize b = sanitize a"
    and "sanitize a \<noteq> []" and "map_of (pl_files s) [sanitize a] = Some Dir" and "\<And>n. pe_disk P n = Inr ()"
    and "idx = filter (\<lambda>p. mf_name (in_manifest p) \<noteq> a) (load_installed P (pl_files s))"
    and "utf8_valid (pe_installed_bytes P idx)" and "pe_installed_of P (pe_installed_bytes P idx) = Inr idx"
  shows "i \<in> set (load_installed P (pl_files s')) \<and> load_package P (pl_files s') b = Inl ''cannot read the package''"
proof -
  note after = remove_run [OF assms(1,2,9,8,7)]
  have "load_installed P (pl_files s') = idx"
    using after(1) assms(11,12) unfolding assms(10) [symmetric] by (simp add: load_installed_def read_to_string_def)
  moreover have "load_package P (pl_files s') b = Inl ''cannot read the package''"
    using after(2) assms(6,7) by (simp add: load_package_def plugin_dir_def read_to_string_def)
  ultimately show ?thesis using assms(3-5,10) by simp
qed

section \<open>A store for examples\<close>

definition demo_manifest :: "string \<Rightarrow> manifest" where
  "demo_manifest name = \<lparr>mf_name = name, mf_display_name = [], mf_version = ''1.0.0'', mf_kind = ''theme'', mf_category = ''official'',
     mf_description = [], mf_author = [], mf_license = [], mf_source_url = [], mf_permissions = [''tui.theme''],
     mf_min_client = [], mf_package_sha256 = ''50'', mf_updated_ts = 0\<rparr>"

text \<open>One package \<open>P\<close>, which is its own digest; the index is written as the names, each with a slash after it.\<close>

definition demo_store :: plugin_env where
  "demo_store = \<lparr>pe_store = ''s'', pe_update_url = ''u'', pe_submit_token = None,
     pe_get = (\<lambda>n url. Inr \<lparr>rs_length = None, rs_chunks = [Inr ''P'']\<rparr>), pe_post = (\<lambda>_ _ _ _. Inl ''offline''),
     pe_disk = (\<lambda>_. Inr ()), pe_sha256 = (\<lambda>b. b), pe_debug = (\<lambda>s. s), pe_manifest_of = (\<lambda>_. Inr (demo_manifest ''foo'')),
     pe_package_of = (\<lambda>_. Inr \<lparr>pk_theme = None, pk_widgets = []\<rparr>), pe_store_index_of = (\<lambda>_. Inr []),
     pe_installed_of = (\<lambda>b. Inr (map (\<lambda>n. \<lparr>in_manifest = demo_manifest n, in_active = True\<rparr>) (butlast (split_on CHR ''/'' b)))),
     pe_value_of = Inr, pe_release_of = (\<lambda>_. Inl ''no release''), pe_manifest_bytes = (\<lambda>m. mf_name m),
     pe_installed_bytes = (\<lambda>idx. concat (map (\<lambda>i. mf_name (in_manifest i) @ ''/'') idx)),
     pe_palette_json = (\<lambda>_. ''{}''), pe_widgets_json = (\<lambda>_. ''[]''), pe_json_bytes = (\<lambda>j. j)\<rparr>"

definition no_plugins :: plugins where
  "no_plugins = \<lparr>pl_files = [], pl_events = [], pl_tick = 0\<rparr>"

lemma demo_names: "sanitize ''foo'' = ''foo''" "sanitize ''Foo'' = ''foo''" "trim ''foo'' = ''foo''" "trim ''tui.theme'' = ''tui.theme''"
proof -
  show "sanitize ''foo'' = ''foo''" "sanitize ''Foo'' = ''foo''" by code_simp+
  show "trim ''foo'' = ''foo''" "trim ''tui.theme'' = ''tui.theme''"
    by (rule trim_printable; simp add: printable_def)+
qed

lemmas plugin_run_defs = demo_store_def no_plugins_def download_def fetch_def draw_plugins_def read_capped_def on_disk_def
  save_installed_def apply_active_def show_theme_def show_widgets_def list_installed_def tell_plugin_def tell_def complain_def
  create_dir_all_def write_file_def remove_file_def remove_dir_all_def load_installed_def read_to_string_def load_package_def
  plugin_dir_def installed_path_def active_theme_path_def active_widgets_path_def act_defs map_err_def Let_def

lemma demo_install: "\<exists>s'. install demo_store ''foo'' no_plugins = (Inr (), s') \<and> pl_files s' \<noteq> pl_files no_plugins"
  by (simp add: install_def demo_names plugin_run_defs package_refused_def record_install_def demo_manifest_def
      ALLOWED_PERMISSIONS_def FORBIDDEN_PERMISSIONS_def MAX_MANIFEST_BYTES_def MAX_PACKAGE_BYTES_def hex_encode_def hex_digit_def)

theorem only_verified_packages_witness:
  "\<exists>s' m b. install demo_store ''foo'' no_plugins = (Inr (), s') \<and> map_of (pl_files s') [''foo'', ''package.json''] = Some (File b) \<and>
     package_gate demo_store ''foo'' m b"
proof -
  obtain s' where run: "install demo_store ''foo'' no_plugins = (Inr (), s')" "pl_files s' \<noteq> pl_files no_plugins"
    using demo_install by blast
  have "plugin_dir demo_store (trim ''foo'') = Inr [''foo'']" by (simp add: demo_names plugin_dir_def)
  from only_verified_packages [OF this run(1)] run show ?thesis
    by (auto simp: package_path_def demo_names)
qed

theorem plugin_files_confined_witness:
  "map_of (pl_files (snd (run_plugin demo_store ''0.1.1'' (InstallPlugin ''foo'') no_plugins))) [''bar'', ''package.json''] = None \<and>
   CHR ''/'' \<notin> set (sanitize ''../../etc'')"
proof -
  have "\<not> plugin_zone (InstallPlugin ''foo'') [''bar'', ''package.json'']"
    by (simp add: plugin_zone_def index_paths_def installed_path_def active_theme_path_def active_widgets_path_def in_dir_def demo_names)
  moreover have "in_dir ''../../etc'' [sanitize ''../../etc'']" by code_simp
  ultimately show ?thesis
    using plugin_files_confined [of "InstallPlugin ''foo''" "[''bar'', ''package.json'']" demo_store "''0.1.1''" no_plugins]
      plugin_files_confined [of ListStore "[sanitize ''../../etc'']" demo_store "''0.1.1''" no_plugins "''../../etc''"]
    by (simp add: no_plugins_def)
qed

theorem plugin_text_is_inert_witness:
  "inert_text (pv_name (manifest_to_value (demo_manifest (''a'' @ [CHR 0x1B, CHR ''b''])) [])) \<and>
   map fst (pv_permissions (manifest_to_value ((demo_manifest ''a'')\<lparr>mf_permissions := [[CHR 0x1B]]\<rparr>) [])) = [[CHR 0x1B]]"
proof -
  have "list_all utf8_valid (manifest_texts (demo_manifest (''a'' @ [CHR 0x1B, CHR ''b''])))"
    "list_all utf8_valid (manifest_texts ((demo_manifest ''a'')\<lparr>mf_permissions := [[CHR 0x1B]]\<rparr>))"
    by (simp_all add: manifest_texts_def demo_manifest_def)
  from plugin_text_is_inert [OF this(1)] plugin_text_is_inert [OF this(2)] show ?thesis
    by (auto simp: view_texts_def)
qed

text \<open>\<open>foo\<close> and \<open>Foo\<close> are installed.\<close>

definition two_plugins :: plugins where
  "two_plugins = \<lparr>pl_files = [(installed_path, File ''foo/Foo/''), ([''foo''], Dir), ([''foo'', ''package.json''], File ''P'')],
     pl_events = [], pl_tick = 0\<rparr>"

theorem names_share_a_directory_witness:
  "\<exists>s'. remove_plugin demo_store ''foo'' two_plugins = (Inr (), s') \<and>
     \<lparr>in_manifest = demo_manifest ''Foo'', in_active = True\<rparr> \<in> set (load_installed demo_store (pl_files s')) \<and>
     load_package demo_store (pl_files two_plugins) ''Foo'' = Inr \<lparr>pk_theme = None, pk_widgets = []\<rparr> \<and>
     load_package demo_store (pl_files s') ''Foo'' = Inl ''cannot read the package''"
proof -
  let ?i = "\<lambda>n. \<lparr>in_manifest = demo_manifest n, in_active = True\<rparr>"
  have idx: "load_installed demo_store (pl_files two_plugins) = [?i ''foo'', ?i ''Foo'']"
    by (simp add: two_plugins_def plugin_run_defs)
  have "fst (remove_plugin demo_store ''foo'' two_plugins) = Inr ()"
    by (simp add: remove_plugin_def idx demo_names demo_manifest_def gets_def bnd_def) (simp add: plugin_run_defs two_plugins_def demo_names)
  then obtain s' where run: "remove_plugin demo_store ''foo'' two_plugins = (Inr (), s')" by (metis prod.collapse)
  have names: "mf_name (demo_manifest n) = n" for n by (simp add: demo_manifest_def)
  have "?i ''Foo'' \<in> set (load_installed demo_store (pl_files s')) \<and> load_package demo_store (pl_files s') ''Foo'' = Inl ''cannot read the package''"
    by (rule names_share_a_directory [OF run]) (simp_all add: idx names demo_names, simp_all add: demo_store_def two_plugins_def installed_path_def names)
  moreover have "load_package demo_store (pl_files two_plugins) ''Foo'' = Inr \<lparr>pk_theme = None, pk_widgets = []\<rparr>"
    by (simp add: plugin_run_defs demo_names two_plugins_def)
  ultimately show ?thesis using run by blast
qed

end
