(* ===== verification/App_Facts.thy ===== *)
theory App_Facts
  imports App Plugin_Facts
begin

text \<open>
  What holds of the application: the index of servers and the run-time state fit together, and commands leave
  the vaults of other servers alone.
\<close>

section \<open>Rules for the commands\<close>

lemma acts_bnd_post:
  assumes c: "coherent P R" and m: "acts P R m" and post: "\<And>s x s'. P s \<Longrightarrow> m s = (Inr x, s') \<Longrightarrow> Q x s'"
    and f: "\<And>x. acts (\<lambda>s. P s \<and> Q x s) R (f x)"
  shows "acts P R (bnd m f)"
proof (unfold acts_def, intro allI impI)
  fix s
  assume P: "P s"
  obtain r s' where ms: "m s = (r, s')" by (cases "m s")
  have R: "R s s'" using actsD [OF m P] ms by simp
  then have P': "P s'" using c P by (auto simp: coherent_def)
  show "R s (snd (bnd m f s))"
  proof (cases r)
    case (Inl e)
    then show ?thesis using R ms by (simp add: bnd_def)
  next
    case (Inr x)
    have "Q x s'" by (rule post [OF P]) (simp add: ms Inr)
    with P' have "R s' (snd (f x s'))" by (intro actsD [OF f]) simp
    with R show ?thesis using ms Inr coherent_trans [OF c] by (simp add: bnd_def)
  qed
qed

lemma acts_strengthen: "acts P R m \<Longrightarrow> (\<And>s. P' s \<Longrightarrow> P s) \<Longrightarrow> acts P' R m"
  by (simp add: acts_def)

lemma acts_attempt [act_intros]: "acts P R m \<Longrightarrow> acts P R (attempt m)"
  by (auto simp: acts_def attempt_def split: prod.split)

definition opened :: "app \<Rightarrow> string set" where
  "opened a = fst ` set (a_servers a)"

lemma opened_map_servers [simp]: "opened (map_servers f a) = opened a"
  by (force simp: map_servers_def opened_def)

definition connectable :: "string \<Rightarrow> bool" where
  "connectable addr = (normalize_addr addr = addr)"

lemma connectable_normalize [simp]: "connectable (normalize_addr s)"
  by (simp add: connectable_def normalize_addr_idem)

text \<open>
  The servers a command may touch: those it names, and the active one for the commands of its chats.
\<close>

definition may_touch :: "'k app_env \<Rightarrow> (app \<Rightarrow> bool) \<Rightarrow> (string \<Rightarrow> bool) \<Rightarrow> command \<Rightarrow> bool" where
  "may_touch E P free cmd = (case cmd of
       ChatCommand _ \<Rightarrow> \<forall>a addr. a_active a = Some addr \<longrightarrow> P a \<longrightarrow> free addr
     | ExportIdentity \<Rightarrow> \<forall>a addr. a_active a = Some addr \<longrightarrow> P a \<longrightarrow> free addr
     | Connect x \<Rightarrow> free (normalize_addr x)
     | RegisterAs x _ \<Rightarrow> free (normalize_addr x)
     | SwitchServer x \<Rightarrow> free (normalize_addr x)
     | RemoveServer x \<Rightarrow> free (normalize_addr x)
     | ImportIdentity path \<Rightarrow> \<forall>f. e_file E path = Inr (Inr f) \<longrightarrow> free (normalize_addr (if_server f))
     | _ \<Rightarrow> True)"

text \<open>
  The laws of the changes that commands are made of, for a relation between application states; \<open>free\<close> are
  the servers a command may touch.
\<close>

locale app_ops =
  fixes E :: "'k app_env" and P :: "app \<Rightarrow> bool" and R :: "app \<Rightarrow> app \<Rightarrow> bool" and free :: "string \<Rightarrow> bool"
  assumes coh: "coherent P R"
    and inert: "P a \<Longrightarrow> a_index a' = a_index a \<Longrightarrow> a_servers a' = a_servers a \<Longrightarrow> a_active a' = a_active a \<Longrightarrow>
      a_files a' = a_files a \<Longrightarrow> R a a'"
    and client: "P a \<Longrightarrow> free addr \<Longrightarrow> R a (put_client E addr c a)"
    and opens: "P a \<Longrightarrow> free addr \<Longrightarrow> connectable addr \<Longrightarrow> R a (a\<lparr>a_files := AList.update (sid E addr) v (a_files a),
      a_servers := AList.update addr \<lparr>sv_link = False, sv_reader = None\<rparr> (a_servers a),
      a_index := ensure_record addr (a_index a)\<rparr>)"
    and relink: "P a \<Longrightarrow> (\<And>x s. (sv_link s \<longrightarrow> sv_reader s \<noteq> None) \<Longrightarrow> sv_link (f x s) \<Longrightarrow> sv_reader (f x s) \<noteq> None) \<Longrightarrow>
      R a (map_servers f a)"
    and activate: "P a \<Longrightarrow> free addr \<Longrightarrow> addr \<in> opened a \<Longrightarrow> R a (a\<lparr>a_active := Some addr\<rparr>)"
    and reindex: "P a \<Longrightarrow> connectable addr \<Longrightarrow> (\<And>r :: server_record. sr_addr (g r) = sr_addr r) \<Longrightarrow>
      R a (a\<lparr>a_index := record_mut addr g (a_index a)\<rparr>)"
    and forget: "P a \<Longrightarrow> free addr \<Longrightarrow> R a (a\<lparr>a_servers := AList.delete addr (a_servers a),
      a_active := (if a_active a = Some addr then None else a_active a),
      a_index := filter (\<lambda>r. sr_addr r \<noteq> addr) (a_index a)\<rparr>)"
    and delete_file: "P a \<Longrightarrow> free addr \<Longrightarrow> R a (a\<lparr>a_files := AList.delete (sid E addr) (a_files a)\<rparr>)"
    and indexed: "P a \<Longrightarrow> r \<in> set (a_index a) \<Longrightarrow> connectable (sr_addr r)"
begin

text \<open>No server is closed meanwhile, which is what \<open>go_live\<close> relies on.\<close>

definition kept :: "app \<Rightarrow> app \<Rightarrow> bool" where
  "kept a a' = (R a a' \<and> opened a \<subseteq> opened a')"

definition standing :: "string \<Rightarrow> app \<Rightarrow> bool" where
  "standing addr a = (P a \<and> addr \<in> opened a)"

lemma coh_kept [simp]: "coherent P kept" and coh_standing [simp]: "coherent (standing addr) kept"
proof -
  have pre: "preorder_rel kept"
    by (rule preorder_relI) (auto simp: kept_def coherent_refl [OF coh] intro: coherent_trans [OF coh])
  have "P a \<Longrightarrow> kept a a' \<Longrightarrow> P a'" for a a' using coh by (auto simp: coherent_def kept_def)
  with pre show "coherent P kept" and "coherent (standing addr) kept"
    by (auto simp: coherent_def standing_def kept_def)
qed

lemma kept_inert: "P a \<Longrightarrow> a_index a' = a_index a \<Longrightarrow> a_servers a' = a_servers a \<Longrightarrow> a_active a' = a_active a \<Longrightarrow>
    a_files a' = a_files a \<Longrightarrow> kept a a'"
  using inert [of a a'] by (simp add: kept_def opened_def)

lemma basic: "acts P kept (ask g)" "acts P kept (announce e)" "acts P kept (report code msg)" "acts P kept (save_index E)"
    "acts P kept (disk E)"
  by (auto simp: acts_def report_def announce_def save_index_def disk_def ask_def act_defs intro!: kept_inert split: sum.split)

lemma on_plugins: "acts P kept (on_plugins m)"
  by (auto simp: acts_def on_plugins_def zoom_def put_plugins_def intro!: kept_inert split: prod.split)

lemma on_server: "free addr \<Longrightarrow> acts P kept (on_server E addr m)"
  using client by (auto simp: acts_def on_server_def zoom_def kept_def put_client_def opened_def split: prod.split)

lemma on_record: "connectable addr \<Longrightarrow> (\<And>r :: server_record. sr_addr (f r) = sr_addr r) \<Longrightarrow> acts P kept (on_index (record_mut addr f))"
  using reindex by (auto simp: acts_def on_index_def modify_def kept_def opened_def)

lemma index_ops:
  assumes "connectable addr"
  shows "acts P kept (on_index (ensure_record addr))" "acts P kept (on_index (set_attest addr v t))"
    "acts P kept (on_index (set_username addr u))" "acts P kept (on_index (set_name addr n))"
proof -
  have fun_eqs: "ensure_record addr = record_mut addr (\<lambda>r. r)"
    "set_attest addr v t = record_mut addr (\<lambda>r. r\<lparr>sr_verdict := Some v, sr_tier := Some t\<rparr>)"
    "set_username addr u = record_mut addr (\<lambda>r. r\<lparr>sr_username := Some u\<rparr>)"
    "set_name addr n = (if n \<noteq> [] then record_mut addr (\<lambda>r. r\<lparr>sr_name := Some n\<rparr>) else (\<lambda>ix. ix))"
    by (auto simp: ensure_record_def set_attest_def set_username_def set_name_def)
  show "acts P kept (on_index (ensure_record addr))" "acts P kept (on_index (set_attest addr v t))"
    "acts P kept (on_index (set_username addr u))"
    unfolding fun_eqs using assms by (auto intro: on_record)
  show "acts P kept (on_index (set_name addr n))"
  proof (cases "n = []")
    case True
    then show ?thesis unfolding fun_eqs by (auto simp: acts_def on_index_def modify_def intro: kept_inert)
  next
    case False
    then show ?thesis unfolding fun_eqs using assms by (auto intro: on_record)
  qed
qed

lemma links: "acts P kept prune_dead_links" "acts P kept (teardown_link addr)"
  unfolding prune_dead_links_def teardown_link_def modify_def acts_def kept_def
  by (auto intro!: relink simp del: not_None_eq split: if_split_asm)

lemma ensure_server:
  assumes "free addr" and "connectable addr"
  shows "acts P kept (ensure_server E addr)"
  unfolding ensure_server_def using assms opens
  by (intro act_intros coh_kept basic)
    (auto simp: acts_def modify_def kept_def opened_def intro: rev_image_eqI simp: update_conv' dom_update)

lemma ensure_server_opened: "ensure_server E addr a = (Inr x, a') \<Longrightarrow> addr \<in> opened a'"
  by (auto simp: ensure_server_def save_index_def opened_def disk_def ask_def act_defs map_of_eq_None_iff
      split: if_splits sum.splits prod.splits) (auto simp: dom_update)

lemma standing_rules: "acts P kept m \<Longrightarrow> acts (standing addr) kept m"
  by (erule acts_strengthen) (simp add: standing_def)

lemma go_live:
  assumes "free addr"
  shows "acts (standing addr) kept (go_live addr)"
proof -
  let ?f = "\<lambda>x s. if x = addr then s\<lparr>sv_link := True, sv_reader := Some True\<rparr> else s"
  have "kept a (map_servers ?f a)" if "P a" for a
    using that by (auto simp: kept_def intro!: relink)
  moreover have "kept a (a\<lparr>a_active := Some addr\<rparr>)" if "standing addr a" for a
    using activate [OF _ assms] that by (simp add: kept_def standing_def opened_def)
  ultimately have "kept a ((map_servers ?f a)\<lparr>a_active := Some addr\<rparr>)" if "standing addr a" for a
  proof -
    have "kept a (map_servers ?f a)" using that by (simp add: standing_def \<open>\<And>a. P a \<Longrightarrow> kept a (map_servers ?f a)\<close>)
    moreover from this have "standing addr (map_servers ?f a)"
      using that coh_standing [of addr] by (auto simp: coherent_def)
    ultimately show ?thesis
      using coherent_trans [OF coh_standing] \<open>\<And>a. standing addr a \<Longrightarrow> kept a (a\<lparr>a_active := Some addr\<rparr>)\<close> by blast
  qed
  then show ?thesis by (simp add: acts_def go_live_def modify_def)
qed

lemmas app_rules = act_intros coh_kept basic links

lemma announce_chats: "free addr \<Longrightarrow> acts P kept (announce_chats E addr)"
  unfolding announce_chats_def by (rule on_server)

lemma emit_servers: "acts P kept (emit_servers E)"
  unfolding emit_servers_def by (intro app_rules)

lemma apply_verdict: "connectable addr \<Longrightarrow> acts P kept (apply_verdict addr out)"
  unfolding apply_verdict_def by (rule index_ops)

lemma check_server_cmd: "acts P kept (check_server_cmd E input name)"
  unfolding check_server_cmd_def Let_def by (intro app_rules index_ops apply_verdict connectable_normalize)

lemma refresh_verdicts: "acts P kept (refresh_verdicts E)"
proof -
  have loop: "acts P kept (for_each addrs f)" if "\<And>x. x \<in> set addrs \<Longrightarrow> acts P kept (f x)" for addrs f
    using that by (induction addrs) (auto intro!: acts_andthen acts_ret)
  show ?thesis
    unfolding refresh_verdicts_def
    by (rule acts_bnd_fact [where Q = "\<lambda>addrs. \<forall>addr \<in> set addrs. connectable addr"])
      (auto simp: gets_def intro: indexed intro!: app_rules loop emit_servers apply_verdict)
qed

lemma backup: "acts P kept (backup_identity E addr u uuid d)"
  unfolding backup_identity_def Let_def
  by (intro app_rules) (auto simp: acts_def modify_def intro: kept_inert)

lemma question: "free addr \<Longrightarrow> acts P kept (question E addr msg)"
  unfolding question_def by (rule on_server)

lemmas server_rules = on_server question announce_chats emit_servers backup

text \<open>The same while the server is known to be open.\<close>

lemmas standing_leaves = basic [THEN standing_rules] links [THEN standing_rules] index_ops [THEN standing_rules]
  server_rules [THEN standing_rules]

lemmas login_rules = act_intros coh_standing standing_leaves

lemma finish_login:
  assumes "free addr" and "connectable addr"
  shows "acts (standing addr) kept (finish_login E addr uname otks evs)"
  unfolding finish_login_def by (intro login_rules go_live assms)

text \<open>After \<open>ensure_server\<close> the server is open.\<close>

lemma after_ensure:
  assumes "free addr" and "connectable addr" and "acts (standing addr) kept n"
  shows "acts P kept (andthen (ensure_server E addr) n)"
  unfolding andthen_def
proof (rule acts_bnd_post [where Q = "\<lambda>_ a. addr \<in> opened a"])
  show "acts P kept (ensure_server E addr)" by (rule ensure_server [OF assms(1,2)])
  show "addr \<in> opened s'" if "ensure_server E addr s = (Inr x, s')" for s x s' by (rule ensure_server_opened [OF that])
  show "acts (\<lambda>a. P a \<and> addr \<in> opened a) kept n" using assms(3) by (simp add: standing_def [abs_def])
qed simp

lemma registered:
  assumes "free addr" and "connectable addr"
  shows "acts (standing addr) kept (registered E addr d uuid uname)"
  unfolding registered_def Let_def by (intro login_rules finish_login assms)

lemma authenticate:
  assumes "free addr" and "connectable addr"
  shows "acts (standing addr) kept (authenticate E addr username d K nonce)"
  unfolding authenticate_def by (intro login_rules acts_server_msg finish_login assms)

lemma register_cmd:
  assumes "free (normalize_addr input)"
  shows "acts P kept (register_cmd E input username)"
  unfolding register_cmd_def Let_def
  by (intro acts_if basic after_ensure login_rules acts_server_msg registered connectable_normalize assms)

lemma connect_cmd:
  assumes "free (normalize_addr input)"
  shows "acts P kept (connect_cmd E input)"
  unfolding connect_cmd_def Let_def
  by (intro after_ensure login_rules acts_server_msg authenticate connectable_normalize assms)

lemma make_active: "free addr \<Longrightarrow> acts (standing addr) kept (modify (\<lambda>a. a\<lparr>a_active := Some addr\<rparr>))"
  using activate by (auto simp: acts_def modify_def standing_def kept_def opened_def)

lemma switch_server:
  assumes "free (normalize_addr input)"
  shows "acts P kept (switch_server E input)"
  unfolding switch_server_def Let_def
  by (intro after_ensure login_rules make_active standing_rules [OF connect_cmd] connectable_normalize assms)
    (simp add: assms normalize_addr_idem)

lemma export_identity: "(\<And>a addr. a_active a = Some addr \<Longrightarrow> P a \<Longrightarrow> free addr) \<Longrightarrow> acts P kept (export_identity E)"
  unfolding export_identity_def Let_def
  by (rule acts_bnd_fact [where Q = "\<lambda>s. \<forall>S. s = Some S \<longrightarrow> free (s_addr S)"])
    (auto simp: gets_def active_sess_def split: option.splits intro!: app_rules server_rules)

lemma chat_cmd: "(\<And>a addr. a_active a = Some addr \<Longrightarrow> P a \<Longrightarrow> free addr) \<Longrightarrow> acts P kept (chat_cmd E cmd)"
  unfolding chat_cmd_def
  by (rule acts_bnd_fact [where Q = "\<lambda>s. \<forall>S. s = Some S \<longrightarrow> free (s_addr S)"])
    (auto simp: gets_def active_sess_def split: option.splits chat_command.splits intro!: app_rules server_rules)

lemma import_identity:
  assumes "\<And>f. e_file E path = Inr (Inr f) \<Longrightarrow> free (normalize_addr (if_server f))"
  shows "acts P kept (import_identity E path)"
  using assms unfolding import_identity_def Let_def
  by (auto split: sum.split intro!: app_rules ensure_server server_rules index_ops connectable_normalize)

lemma R_kept: "acts P kept m \<Longrightarrow> acts P R m"
  by (simp add: acts_def kept_def)

lemma forgetting: "free addr \<Longrightarrow> acts P R (modify (\<lambda>a. a\<lparr>a_servers := AList.delete addr (a_servers a),
      a_active := (if a_active a = Some addr then None else a_active a),
      a_index := filter (\<lambda>r. sr_addr r \<noteq> addr) (a_index a)\<rparr>))"
  "free addr \<Longrightarrow> acts P R (modify (\<lambda>a. a\<lparr>a_files := AList.delete (sid E addr) (a_files a)\<rparr>))"
  using forget delete_file by (simp_all add: acts_def modify_def)

lemma remove_server:
  assumes "free (normalize_addr input)"
  shows "acts P R (remove_server E input)"
  unfolding remove_server_def Let_def
  by (intro acts_andthen acts_ignoring coh forgetting assms R_kept [OF links(2)] R_kept [OF basic(2)] R_kept [OF basic(4)] R_kept [OF basic(5)]
      R_kept [OF emit_servers])

lemma handle: "may_touch E P free cmd \<Longrightarrow> acts P R (handle E cmd)"
  by (cases cmd)
    (auto simp: may_touch_def intro: R_kept chat_cmd emit_servers check_server_cmd connect_cmd register_cmd switch_server
      remove_server export_identity import_identity on_plugins)

lemma handle_line: "may_touch E P free cmd \<Longrightarrow> acts P R (handle_line E cmd)"
proof -
  assume "may_touch E P free cmd"
  then have h: "acts P R (handle E cmd)" by (rule handle)
  have "acts P R (\<lambda>a. case handle E cmd a of (Inl e, a') \<Rightarrow> report ''internal'' e a' | (Inr _, a') \<Rightarrow> (Inr (), a'))"
  proof (unfold acts_def, intro allI impI)
    fix a
    assume "P a"
    obtain r a' where run: "handle E cmd a = (r, a')" by fastforce
    then have "R a a'" using actsD [OF h \<open>P a\<close>] by simp
    moreover from this have "P a'" using coh \<open>P a\<close> by (auto simp: coherent_def)
    then have "R a' (snd (report ''internal'' e a'))" for e by (intro actsD [OF R_kept [OF basic(3)]])
    ultimately show "R a (snd (case handle E cmd a of (Inl e, a') \<Rightarrow> report ''internal'' e a' | (Inr _, a') \<Rightarrow> (Inr (), a')))"
      using run coherent_trans [OF coh] by (auto split: sum.split)
  qed
  then show ?thesis
    unfolding handle_line_def by (intro acts_andthen coh R_kept [OF links(1)])
qed

lemma start_running: "acts P R (start_running E)"
  unfolding start_running_def emit_ready_def
  by (intro R_kept) (intro app_rules refresh_verdicts on_plugins)

lemma frame_arrives: "free addr \<Longrightarrow> acts P R (frame_arrives E addr me inc)"
  using on_server [of addr] unfolding frame_arrives_def acts_def kept_def by blast

end

section \<open>The index and the run-time state\<close>

definition app_inv :: "app \<Rightarrow> bool" where
  "app_inv a = (index_ok (a_index a) \<and> (\<forall>r \<in> set (a_index a). connectable (sr_addr r)) \<and>
     opened a \<subseteq> sr_addr ` set (a_index a) \<and> set_option (a_active a) \<subseteq> opened a \<and>
     (\<forall>(_, s) \<in> set (a_servers a). sv_link s \<longrightarrow> sv_reader s \<noteq> None))"

lemma app_inv_same:
  "a_index a' = a_index a \<Longrightarrow> a_servers a' = a_servers a \<Longrightarrow> a_active a' = a_active a \<Longrightarrow> app_inv a' = app_inv a"
  by (simp add: app_inv_def opened_def)

lemma app_inv_put [simp]: "app_inv (put_client E addr c a) = app_inv a"
  by (intro app_inv_same) (simp_all add: put_client_def)

lemma index_addrs: "map sr_addr ix' = map sr_addr ix \<Longrightarrow> sr_addr ` set ix' = sr_addr ` set ix"
  by (metis set_map)

lemma record_mut_addrs:
  assumes "\<And>r :: server_record. sr_addr (f r) = sr_addr r"
  shows "sr_addr ` set (record_mut addr f ix) = insert addr (sr_addr ` set ix)"
proof -
  have "sr_addr ` set (change_first addr f xs) = sr_addr ` set xs" for xs
    by (rule index_addrs) (rule change_first_addrs [OF assms])
  then show ?thesis by (auto simp: record_mut_def new_record_def)
qed

lemma app_inv_reindex:
  assumes "app_inv a" and "connectable addr" and f: "\<And>r :: server_record. sr_addr (f r) = sr_addr r"
  shows "app_inv (a\<lparr>a_index := record_mut addr f (a_index a)\<rparr>)"
proof -
  have addrs: "sr_addr ` set (record_mut addr f (a_index a)) = insert addr (sr_addr ` set (a_index a))"
    by (rule record_mut_addrs [OF f])
  have "connectable (sr_addr r)" if "r \<in> set (record_mut addr f (a_index a))" for r
  proof -
    have "sr_addr r \<in> insert addr (sr_addr ` set (a_index a))" using that addrs by blast
    then show ?thesis using assms(1,2) by (auto simp: app_inv_def)
  qed
  then show ?thesis
    using assms addrs index_ok_record_mut [OF _ f] by (auto simp: app_inv_def opened_def)
qed

lemma app_inv_opened:
  assumes "app_inv a" and "connectable addr"
  shows "app_inv (a\<lparr>a_files := fs, a_servers := AList.update addr \<lparr>sv_link = False, sv_reader = None\<rparr> (a_servers a),
      a_index := ensure_record addr (a_index a)\<rparr>)"
proof -
  have "app_inv (a\<lparr>a_index := ensure_record addr (a_index a)\<rparr>)"
    using app_inv_reindex [OF assms, of "\<lambda>r. r"] by (simp add: ensure_record_def)
  then have inv: "index_ok (ensure_record addr (a_index a))" "\<forall>r \<in> set (ensure_record addr (a_index a)). connectable (sr_addr r)"
    "opened a \<subseteq> sr_addr ` set (ensure_record addr (a_index a))" "set_option (a_active a) \<subseteq> opened a"
    "\<forall>(_, s) \<in> set (a_servers a). sv_link s \<longrightarrow> sv_reader s \<noteq> None"
    by (simp_all add: app_inv_def opened_def)
  have addr: "addr \<in> sr_addr ` set (ensure_record addr (a_index a))"
    unfolding ensure_record_def by (simp add: record_mut_addrs)
  let ?al = "AList.update addr \<lparr>sv_link = False, sv_reader = None\<rparr> (a_servers a)"
  have sub: "set (AList.update addr x al) \<subseteq> insert (addr, x) (set al)" for x :: server and al
    by (induction al) auto
  have "fst ` set (AList.update addr x al) = insert addr (fst ` set al)" for x :: server and al
    by (induction al) auto
  then have keys: "fst ` set ?al = insert addr (opened a)" by (simp add: opened_def)
  have "sv_link s \<longrightarrow> sv_reader s \<noteq> None" if "(x, s) \<in> set ?al" for x s
  proof -
    have "(x, s) = (addr, \<lparr>sv_link = False, sv_reader = None\<rparr>) \<or> (x, s) \<in> set (a_servers a)"
      using that sub by blast
    then show ?thesis using bspec [OF inv(5), of "(x, s)"] by (elim disjE) simp_all
  qed
  then have "\<forall>(_, s) \<in> set ?al. sv_link s \<longrightarrow> sv_reader s \<noteq> None" by blast
  moreover have "insert addr (opened a) \<subseteq> sr_addr ` set (ensure_record addr (a_index a))" using inv(3) addr by blast
  moreover have "set_option (a_active a) \<subseteq> insert addr (opened a)" using inv(4) by blast
  ultimately show ?thesis
    unfolding app_inv_def opened_def [of "a\<lparr>a_files := _, a_servers := _, a_index := _\<rparr>"]
    using inv(1,2) keys by (intro conjI) simp_all
qed

lemma app_inv_relink:
  assumes "app_inv a"
    and "\<And>x s. (sv_link s \<longrightarrow> sv_reader s \<noteq> None) \<Longrightarrow> sv_link (f x s) \<Longrightarrow> sv_reader (f x s) \<noteq> None"
  shows "app_inv (map_servers f a)"
proof -
  have "sv_reader (f x s) \<noteq> None" if "(x, s) \<in> set (a_servers a)" "sv_link (f x s)" for x s
  proof -
    have "sv_link s \<longrightarrow> sv_reader s \<noteq> None" using assms(1) that(1) by (auto simp: app_inv_def)
    then show ?thesis using assms(2) that(2) by blast
  qed
  moreover have "opened (map_servers f a) = opened a" by simp
  ultimately show ?thesis using assms(1) unfolding app_inv_def by (auto simp: map_servers_def)
qed

lemma app_inv_forget:
  assumes "app_inv a"
  shows "app_inv (a\<lparr>a_servers := AList.delete addr (a_servers a),
      a_active := (if a_active a = Some addr then None else a_active a),
      a_index := filter (\<lambda>r. sr_addr r \<noteq> addr) (a_index a)\<rparr>)"
proof -
  have "fst ` set (AList.delete addr (a_servers a)) = fst ` set (a_servers a) - {addr}"
    by (auto simp: AList.delete_eq image_iff)
  moreover have "set (AList.delete addr (a_servers a)) \<subseteq> set (a_servers a)"
    by (auto simp: AList.delete_eq)
  ultimately show ?thesis
    using assms by (auto simp: app_inv_def opened_def index_ok_def distinct_map_filter)
qed

interpretation app_keeps: app_ops E app_inv "\<lambda>a a'. app_inv a \<longrightarrow> app_inv a'" "\<lambda>_. True" for E :: "'k app_env"
proof
  show "coherent app_inv (\<lambda>a a'. app_inv a \<longrightarrow> app_inv a')"
    by (auto simp: coherent_def intro: preorder_relI)
  show "app_inv a \<longrightarrow> app_inv a'" if "a_index a' = a_index a" "a_servers a' = a_servers a" "a_active a' = a_active a" for a a'
    using app_inv_same [OF that] by simp
  show "app_inv a \<longrightarrow> app_inv (map_servers f a)"
    if "\<And>x s. (sv_link s \<longrightarrow> sv_reader s \<noteq> None) \<Longrightarrow> sv_link (f x s) \<Longrightarrow> sv_reader (f x s) \<noteq> None" for a f
    by (intro impI app_inv_relink) (assumption, rule that)
  show "app_inv a \<longrightarrow> app_inv (a\<lparr>a_active := Some addr\<rparr>)" if "addr \<in> opened a" for a addr
    using that by (simp add: app_inv_def opened_def)
  show "app_inv a \<longrightarrow> app_inv (a\<lparr>a_files := AList.delete (sid E addr) (a_files a)\<rparr>)" for a addr
    by (simp add: app_inv_def opened_def)
  show "connectable (sr_addr r)" if "app_inv a" "r \<in> set (a_index a)" for a r
    using that by (simp add: app_inv_def)
qed (simp_all add: app_inv_opened app_inv_reindex app_inv_forget)

text \<open>The file of one server, while the active server is another or (not \<open>chat\<close>) plays no role.\<close>

definition away :: "'k app_env \<Rightarrow> bool \<Rightarrow> string \<Rightarrow> app \<Rightarrow> bool" where
  "away E chat i a = (app_inv a \<and> (chat \<longrightarrow> (\<forall>addr. a_active a = Some addr \<longrightarrow> sid E addr \<noteq> i)))"

definition file_kept :: "'k app_env \<Rightarrow> bool \<Rightarrow> string \<Rightarrow> app \<Rightarrow> app \<Rightarrow> bool" where
  "file_kept E chat i a a' = ((away E chat i a \<longrightarrow> away E chat i a') \<and> map_of (a_files a') i = map_of (a_files a) i)"

interpretation elsewhere: app_ops E "away E chat i" "file_kept E chat i" "\<lambda>addr. sid E addr \<noteq> i" 
  for E :: "'k app_env" and chat i
proof
  show "coherent (away E chat i) (file_kept E chat i)"
    by (auto simp: coherent_def file_kept_def intro: preorder_relI)
  show "file_kept E chat i a a'" if "a_index a' = a_index a" "a_servers a' = a_servers a" "a_active a' = a_active a"
      "a_files a' = a_files a" for a a'
    using that app_inv_same [of a' a] by (simp add: file_kept_def away_def)
  show "file_kept E chat i a (put_client E addr c a)" if "sid E addr \<noteq> i" for a addr c
    using that by (simp add: file_kept_def away_def) (simp add: put_client_def)
  show "file_kept E chat i a (a\<lparr>a_files := AList.update (sid E addr) v (a_files a),
      a_servers := AList.update addr \<lparr>sv_link = False, sv_reader = None\<rparr> (a_servers a),
      a_index := ensure_record addr (a_index a)\<rparr>)" if "sid E addr \<noteq> i" "connectable addr" for a addr v
    using that by (simp add: file_kept_def away_def app_inv_opened)
  show "file_kept E chat i a (map_servers f a)"
    if "\<And>x s. (sv_link s \<longrightarrow> sv_reader s \<noteq> None) \<Longrightarrow> sv_link (f x s) \<Longrightarrow> sv_reader (f x s) \<noteq> None" for a f
  proof -
    have "app_inv a \<Longrightarrow> app_inv (map_servers f a)" by (rule app_inv_relink) (assumption, rule that)
    then show ?thesis by (auto simp: file_kept_def away_def map_servers_def)
  qed
  show "file_kept E chat i a (a\<lparr>a_active := Some addr\<rparr>)" if "sid E addr \<noteq> i" "addr \<in> opened a" for a addr
    using app_keeps.activate [of a addr] that by (auto simp: file_kept_def away_def)
  show "file_kept E chat i a (a\<lparr>a_index := record_mut addr g (a_index a)\<rparr>)"
    if "connectable addr" "\<And>r :: server_record. sr_addr (g r) = sr_addr r" for a addr g
    using app_inv_reindex [OF _ that] by (auto simp: file_kept_def away_def)
  show "file_kept E chat i a (a\<lparr>a_servers := AList.delete addr (a_servers a),
      a_active := (if a_active a = Some addr then None else a_active a),
      a_index := filter (\<lambda>r. sr_addr r \<noteq> addr) (a_index a)\<rparr>)" for a addr
    using app_inv_forget [of a addr] by (auto simp: file_kept_def away_def)
  show "file_kept E chat i a (a\<lparr>a_files := AList.delete (sid E addr) (a_files a)\<rparr>)" if "sid E addr \<noteq> i" for a addr
    using that by (simp add: file_kept_def away_def app_inv_def opened_def)
  show "connectable (sr_addr r)" if "away E chat i a" "r \<in> set (a_index a)" for a r
    using that by (simp add: away_def app_inv_def)
qed

section \<open>Reachable states\<close>

lemma dedup_addrs_spec:
  "(\<forall>r \<in> set (dedup_addrs seen ix). connectable (sr_addr r) \<and> sr_addr r \<notin> set seen) \<and> index_ok (dedup_addrs seen ix)"
proof (induction ix arbitrary: seen)
  case Nil
  then show ?case by (simp add: index_ok_def)
next
  case (Cons r rs)
  then show ?case
    using Cons.IH [of "normalize_addr (sr_addr r) # seen"] Cons.IH [of seen]
    by (auto simp: Let_def index_ok_def)
qed

lemma official_connectable: "connectable OFFICIAL_ADDR"
proof -
  have "trim OFFICIAL_ADDR = OFFICIAL_ADDR"
  proof -
    have "trim_start OFFICIAL_ADDR = OFFICIAL_ADDR"
      unfolding OFFICIAL_ADDR_def by (intro trim_start_fix printable_start) (simp add: printable_def)
    moreover have "strip_prefixes (map rev unicode_ws) (rev OFFICIAL_ADDR) = rev OFFICIAL_ADDR"
      by (simp add: OFFICIAL_ADDR_def strip_prefixes_id printable_end printable_zero)
    ultimately show ?thesis by (simp add: trim_def trim_end_def)
  qed
  then show ?thesis
    unfolding connectable_def by (rule normalize_addr_fix) (simp_all add: OFFICIAL_ADDR_def)
qed

lemma app_inv_startup: "app_inv (startup master stored files backups plugins)"
proof -
  let ?ix = "dedup_addrs [] stored"
  let ?a = "\<lparr>a_master = master, a_index = ?ix, a_saved = stored, a_servers = [], a_active = None, a_files = files,
     a_backups = backups, a_plugins = plugins, a_sent = [], a_events = [], a_tick = 0\<rparr>"
  let ?f = "\<lambda>r :: server_record. if (\<exists>r \<in> set ?ix. sr_addr r = OFFICIAL_ADDR) \<longrightarrow> sr_name r = None
     then r\<lparr>sr_name := Some OFFICIAL_NAME\<rparr> else r"
  have "app_inv ?a" using dedup_addrs_spec [of "[]" stored] by (simp add: app_inv_def opened_def)
  then have "app_inv (?a\<lparr>a_index := record_mut OFFICIAL_ADDR ?f (a_index ?a)\<rparr>)"
    by (rule app_inv_reindex [OF _ official_connectable]) simp
  moreover have "startup master stored files backups plugins = ?a\<lparr>a_index := record_mut OFFICIAL_ADDR ?f (a_index ?a)\<rparr>"
    by (simp add: startup_def seed_official_def Let_def)
  ultimately show ?thesis by (simp only:)
qed

lemma app_inv_reader_ends: "app_inv a \<Longrightarrow> app_inv (reader_ends addr a)"
  unfolding reader_ends_def by (erule app_inv_relink) (auto simp del: not_None_eq split: if_split_asm)

lemma app_inv_reachable: "app_reachable E a \<Longrightarrow> app_inv a"
proof (induction rule: app_reachable.induct)
  case (Start master stored files backups)
  then show ?case
    using actsD [OF app_keeps.start_running app_inv_startup] app_inv_startup by blast
next
  case (Line a cmd)
  have "may_touch E app_inv (\<lambda>_. True) cmd" by (cases cmd) (simp_all add: may_touch_def)
  then show ?case using actsD [OF app_keeps.handle_line] Line.IH by blast
next
  case (Nonsense a message)
  have "app_inv (snd (report ''bad_request'' message a)) = app_inv a"
    by (rule app_inv_same) (simp_all add: report_def announce_def modify_def)
  with Nonsense.IH show ?case by blast
next
  case (Ends a addr)
  then show ?case by (simp add: app_inv_reader_ends)
next
  case (Frame a addr me inc)
  then show ?case using actsD [OF app_keeps.frame_arrives] by blast
qed

text \<open>C20: The application's state fits together at all times, from a start with any stored index on: addresses
  in the index are unique and in the form that is dialled, every open vault belongs to a listed server, the
  active server is open, so that its chats can be found, and a server shown as linked has a reader task.\<close>

theorem app_state_fits:
  assumes "app_reachable E a"
  shows "distinct (map sr_addr (a_index a)) \<and> (r \<in> set (a_index a) \<longrightarrow> normalize_addr (sr_addr r) = sr_addr r) \<and>
    (map_of (a_servers a) addr = Some s \<longrightarrow> (\<exists>r \<in> set (a_index a). sr_addr r = addr)) \<and>
    (a_active a \<noteq> None \<longrightarrow> active_sess E a \<noteq> None) \<and>
    (map_of (a_servers a) addr = Some s \<longrightarrow> sv_link s \<longrightarrow> sv_reader s \<noteq> None)"
proof (intro conjI impI)
  have inv: "app_inv a" using assms by (rule app_inv_reachable)
  then show "distinct (map sr_addr (a_index a))" and "r \<in> set (a_index a) \<Longrightarrow> normalize_addr (sr_addr r) = sr_addr r"
    by (simp_all add: app_inv_def index_ok_def connectable_def)
  show "map_of (a_servers a) addr = Some s \<Longrightarrow> \<exists>r \<in> set (a_index a). sr_addr r = addr"
    using inv map_of_SomeD [of "a_servers a" addr s] by (force simp: app_inv_def opened_def)
  show "map_of (a_servers a) addr = Some s \<Longrightarrow> sv_link s \<Longrightarrow> sv_reader s \<noteq> None"
    using inv map_of_SomeD [of "a_servers a" addr s] by (auto simp: app_inv_def)
  show "a_active a \<noteq> None \<Longrightarrow> active_sess E a \<noteq> None"
    using inv by (auto simp: app_inv_def opened_def active_sess_def map_of_eq_None_iff split: option.splits)
qed

text \<open>An application whose servers are all unreachable, with two stored addresses of one server.\<close>

definition demo_prober :: "string prober" where
  "demo_prober = \<lparr>pr_att = demo_att, pr_nitro = demo_nitro, pr_official = demo_official, pr_of_value = (\<lambda>_. Inl ''no value''),
     pr_nonce = ''nn'', pr_now = 0, pr_connect = (\<lambda>_. Inl ''unreachable''), pr_exchange = (\<lambda>_ _. Inl ''closed'')\<rparr>"

definition demo_env :: "string app_env" where
  "demo_env = \<lparr>e_world = demo_world, e_seal = (\<lambda>_. demo_seal), e_keyed_blake3 = (\<lambda>k b. b), e_connect = (\<lambda>_. Inl ''refused''),
     e_disk = (\<lambda>_. Inr ()), e_opens = (\<lambda>_. True), e_probe = (\<lambda>_. demo_prober), e_timely = (\<lambda>_. True), e_rng = (\<lambda>_ _ _ i. i),
     e_file = (\<lambda>_. Inl ''no such file''), e_export = Inr, e_import = Inr, e_plugins = demo_store, e_machine_id = ''m'', e_build_hash = ''h''\<rparr>"

definition demo_app :: app where
  "demo_app = snd (start_running demo_env (startup ''mk'' [new_record ''h:1'', new_record ''h:1''] [] [] []))"

lemma demo_app_reachable: "app_reachable demo_env demo_app"
  unfolding demo_app_def by (rule app_reachable.Start)

lemma demo_addr: "normalize_addr ''h:1'' = ''h:1''"
  by (rule normalize_addr_fix, rule trim_printable) (simp_all add: printable_def)


lemma demo_env_fields: "e_disk demo_env = (\<lambda>_. Inr ())" "e_opens demo_env = (\<lambda>_. True)" "e_probe demo_env = (\<lambda>_. demo_prober)"
  "e_world demo_env = demo_world" "e_seal demo_env = (\<lambda>_. demo_seal)"
  by (simp_all add: demo_env_def)

lemma demo_quiet: "a_plugins a = [] \<Longrightarrow> on_plugins (emit_active P) a = (Inr (), a)"
  by (simp add: on_plugins_def zoom_def plugins_of_def put_plugins_def emit_active_def read_to_string_def act_defs)

lemma demo_start: "a_servers demo_app = [] \<and> a_files demo_app = []"
proof -
  have none: "Client_Attest.check_server demo_prober a = Inl ''unreachable''" for a
    by (simp add: Client_Attest.check_server_def demo_prober_def)
  have dedup: "dedup_addrs [] [new_record ''h:1'', new_record ''h:1''] = [new_record ''h:1'']"
    by (simp add: demo_addr new_record_def Let_def)
  have idx: "seed_official [new_record ''h:1''] = [new_record ''h:1'', (new_record OFFICIAL_ADDR)\<lparr>sr_name := Some OFFICIAL_NAME\<rparr>]"
    by (simp add: new_record_def seed_official_def record_mut_def OFFICIAL_ADDR_def Let_def)
  show ?thesis
    unfolding demo_app_def startup_def dedup idx
    by (simp add: start_running_def refresh_verdicts_def act_defs emit_ready_def none ask_def announce_def demo_quiet
        demo_env_fields)
qed

lemmas app_act_defs = ensure_server_def prune_dead_links_def map_servers_def disk_def ask_def client_of_def put_client_def
  save_index_def linked_def on_server_def zoom_def announce_def announce_chats_def emit_servers_def

lemma demo_switch: "a_active (snd (handle_line demo_env (SwitchServer ''h:1'') demo_app)) = Some ''h:1''"
  by (simp add: handle_line_def switch_server_def demo_addr demo_start demo_env_fields Let_def act_defs app_act_defs
      open_vault_def migrate_recv_ts_def backfill_group_keys_def empty_vault_def vget_def meta_get_def
      build_chats_event_def list_chats_def emit_def)

theorem app_state_fits_witness:
  "distinct (map sr_addr (a_index demo_app)) \<and>
   active_sess demo_env (snd (handle_line demo_env (SwitchServer ''h:1'') demo_app)) \<noteq> None"
  using app_state_fits [OF demo_app_reachable] demo_switch
    app_state_fits [OF app_reachable.Line [OF demo_app_reachable, of "SwitchServer ''h:1''"]]
  by (simp del: not_None_eq)

section \<open>Servers do not meet\<close>

text \<open>The servers a command is about.\<close>

definition concerned :: "'k app_env \<Rightarrow> app \<Rightarrow> command \<Rightarrow> string set" where
  "concerned E a cmd = (case cmd of
       ChatCommand _ \<Rightarrow> set_option (a_active a)
     | ExportIdentity \<Rightarrow> set_option (a_active a)
     | Connect x \<Rightarrow> {normalize_addr x}
     | RegisterAs x _ \<Rightarrow> {normalize_addr x}
     | SwitchServer x \<Rightarrow> {normalize_addr x}
     | RemoveServer x \<Rightarrow> {normalize_addr x}
     | ImportIdentity path \<Rightarrow> (case e_file E path of Inr (Inr f) \<Rightarrow> {normalize_addr (if_server f)} | _ \<Rightarrow> {})
     | _ \<Rightarrow> {})"

lemma concerned_touch:
  assumes "app_inv a" and "\<And>addr. addr \<in> concerned E a cmd \<Longrightarrow> sid E addr \<noteq> i"
    and "chat = (\<exists>c. cmd = ChatCommand c \<or> cmd = ExportIdentity)"
  shows "away E chat i a" and "may_touch E (away E chat i) (\<lambda>addr. sid E addr \<noteq> i) cmd"
  using assms by (cases cmd; auto simp: away_def may_touch_def concerned_def)+

text \<open>C8: One server's vault is no other server's business. Whatever a command does, connecting, registering,
  restoring an identity or chatting included, the vault file of a server it is not about stays as it was, and
  so does it when another server delivers a frame.\<close>

theorem other_vaults_untouched:
  assumes "app_reachable E a"
  shows "((\<forall>addr \<in> concerned E a cmd. sid E addr \<noteq> i) \<longrightarrow>
      map_of (a_files (snd (handle_line E cmd a))) i = map_of (a_files a) i) \<and>
    (sid E addr \<noteq> i \<longrightarrow> map_of (a_files (snd (frame_arrives E addr me inc a))) i = map_of (a_files a) i)"
proof (intro conjI impI)
  have inv: "app_inv a" using assms by (rule app_inv_reachable)
  show "map_of (a_files (snd (handle_line E cmd a))) i = map_of (a_files a) i"
    if far: "\<forall>addr \<in> concerned E a cmd. sid E addr \<noteq> i"
  proof -
    have that: "\<And>addr. addr \<in> concerned E a cmd \<Longrightarrow> sid E addr \<noteq> i" using far by blast
    show ?thesis using actsD [OF elsewhere.handle_line [OF concerned_touch(2) [OF inv that refl]] concerned_touch(1) [OF inv that refl]]
      by (simp add: file_kept_def)
  qed
  have "away E False i a" using inv by (simp add: away_def)
  then show "map_of (a_files (snd (frame_arrives E addr me inc a))) i = map_of (a_files a) i" if "sid E addr \<noteq> i"
    using actsD [OF elsewhere.frame_arrives [of E addr i False, OF that]] by (simp add: file_kept_def)
qed

theorem other_vaults_untouched_witness:
  "map_of (a_files (snd (handle_line demo_env (RegisterAs ''h:1'' ''al'') demo_app))) (sid demo_env ''k:1'') =
     map_of (a_files demo_app) (sid demo_env ''k:1'') \<and>
   map_of (a_files (snd (frame_arrives demo_env ''h:1'' ''al'' (demo_frame ''olm'' ''x'') demo_app))) (sid demo_env ''k:1'') =
     map_of (a_files demo_app) (sid demo_env ''k:1'')"
proof -
  have ids: "sid demo_env ''h:1'' \<noteq> sid demo_env ''k:1''"
    by (simp add: sid_def server_id_def demo_env_def demo_world_def hex_encode_def hex_digit_def)
  have "addr \<in> concerned demo_env demo_app (RegisterAs ''h:1'' ''al'') \<Longrightarrow> sid demo_env addr \<noteq> sid demo_env ''k:1''" for addr
    using ids by (simp add: concerned_def demo_addr)
  then show ?thesis
    using other_vaults_untouched [OF demo_app_reachable] ids by blast
qed

end
