(* ===== verification/Identity_Facts.thy ===== *)
theory Identity_Facts
  imports App_Facts
begin

text \<open>Backing up an identity and restoring it: the file holds all that another installation needs.\<close>

section \<open>Successful runs\<close>

lemma then_ok: "andthen m n s = (Inr y, t) \<longleftrightarrow> (\<exists>x s'. m s = (Inr x, s') \<and> n s' = (Inr y, t))"
  unfolding andthen_def by (rule bnd_ok)

lemma on_server_ok:
  "on_server E addr m a = (Inr x, a') \<longleftrightarrow> (\<exists>c. m (client_of E addr a) = (Inr x, c) \<and> a' = put_client E addr c a)"
  by (auto simp: on_server_def zoom_def split: prod.splits)

lemma put_ok: "vput f c = (Inr (), c') \<longleftrightarrow> (\<exists>v. f (c_vault c) = Inr v \<and> c' = c\<lparr>c_vault := v\<rparr>)"
  by (auto simp: vput_def split: sum.split)

lemma client_of_put [simp]: "c_vault (client_of E addr (put_client E addr c a)) = c_vault c"
  by (simp add: client_of_def put_client_def update_conv')

lemma save_index_ok: "save_index E a = (Inr x, a') \<Longrightarrow> a_files a' = a_files a \<and> a_index a' = a_index a \<and> a_master a' = a_master a"
  by (auto simp: save_index_def disk_def ask_def act_defs split: sum.splits)

lemma ensure_server_master: "ensure_server E addr a = (Inr x, a') \<Longrightarrow> a_master a' = a_master a"
  by (auto simp: ensure_server_def save_index_def disk_def ask_def act_defs split: if_splits sum.splits)

lemma record_mut_has: "\<exists>r \<in> set (record_mut addr f ix). \<exists>r0. sr_addr r0 = addr \<and> r = f r0"
proof -
  have hit: "\<exists>r \<in> set xs. sr_addr r = addr \<Longrightarrow> \<exists>r \<in> set (change_first addr f xs). \<exists>r0. sr_addr r0 = addr \<and> r = f r0" for xs
    by (induction xs) auto
  show ?thesis using hit [of ix] hit [of "ix @ [new_record addr]"] by (auto simp: record_mut_def new_record_def)
qed

lemma meta_set_ok: "meta_set v k x = Inr v' \<longleftrightarrow> v_up v \<and> v' = v\<lparr>meta := AList.update k x (meta v)\<rparr>"
  by (auto simp: meta_set_def)

text \<open>What the import writes into the vault.\<close>

lemma imported_vault:
  assumes "andthen (vput (\<lambda>v. save_account v K device)) (andthen (remember ([(''username'', u), (''server'', addr)] @
      (if uuid = [] then [] else [(''uuid'', uuid)]))) (vput (\<lambda>v. upsert_contact v u uuid ed curve))) c = (Inr (), c')"
    and "\<And>blob. to_pickle_encrypted K device = Inr blob \<Longrightarrow>
      b64_dec K (b64_enc K blob) = Inr blob \<and> from_pickle_encrypted K blob = Inr device"
  shows "load_account (c_vault c') K = Inr (Some device)" and "meta_get (c_vault c') ''username'' = Inr (Some u)"
    and "meta_get (c_vault c') ''server'' = Inr (Some addr)"
    and "uuid \<noteq> [] \<Longrightarrow> meta_get (c_vault c') ''uuid'' = Inr (Some uuid)"
proof -
  from assms(1) obtain blob where up: "v_up (c_vault c)" "to_pickle_encrypted K device = Inr blob"
    and v: "v_up (c_vault c')" "map_of (meta (c_vault c')) = (\<lambda>m. if uuid = [] then m else m(''uuid'' \<mapsto> uuid))
      ((map_of (meta (c_vault c)))(''account_pickle'' \<mapsto> b64_enc K blob, ''username'' \<mapsto> u, ''server'' \<mapsto> addr))"
    by (auto simp: then_ok put_ok save_account_def res_bind_Inr_iff meta_set_ok remember_def ret_def upsert_contact_def
        update_conv' split: if_splits)
  from v assms(2) [OF up(2)] show "load_account (c_vault c') K = Inr (Some device)"
    and "meta_get (c_vault c') ''username'' = Inr (Some u)" and "meta_get (c_vault c') ''server'' = Inr (Some addr)"
    and "uuid \<noteq> [] \<Longrightarrow> meta_get (c_vault c') ''uuid'' = Inr (Some uuid)"
    by (auto simp: load_account_def meta_get_def split: if_splits)
qed

section \<open>The round trip\<close>

text \<open>C21: An identity that was backed up can be restored anywhere. If the file a backup wrote is read by an
  import, on whatever installation and whatever its vault for that server held, and the import succeeds, the
  vault has exactly the backed up account, user name, server and uuid, and the index lists the server with
  the user name, so that connecting authenticates as that user.\<close>

theorem identity_roundtrip:
  assumes "backup_identity E addr u uuid device a = (Inr path, a1)"
    and "map_of (a_backups a1) path = Some f" and "e_file E' p = Inr (Inr f)"
    and "\<And>account. e_export E device = Inr account \<Longrightarrow> account \<noteq> [] \<and> e_import E' account = Inr device"
    and "connectable addr" and "addr \<noteq> []" and "u \<noteq> []"
    and "\<And>blob. to_pickle_encrypted (seal_of E' b addr) device = Inr blob \<Longrightarrow>
      b64_dec (seal_of E' b addr) (b64_enc (seal_of E' b addr) blob) = Inr blob \<and>
      from_pickle_encrypted (seal_of E' b addr) blob = Inr device"
    and "import_identity E' p b = (Inr (), b')"
  shows "load_account (c_vault (client_of E' addr b')) (seal_of E' b' addr) = Inr (Some device) \<and>
    meta_get (c_vault (client_of E' addr b')) ''username'' = Inr (Some u) \<and>
    meta_get (c_vault (client_of E' addr b')) ''server'' = Inr (Some addr) \<and>
    (uuid \<noteq> [] \<longrightarrow> meta_get (c_vault (client_of E' addr b')) ''uuid'' = Inr (Some uuid)) \<and>
    (\<exists>r \<in> set (a_index b'). sr_addr r = addr \<and> sr_username r = Some u)"
proof -
  from assms(1,2) obtain account where f: "e_export E device = Inr account" "if_server f = addr" "if_username f = u"
    "if_uuid f = uuid" "if_account f = account"
    by (auto simp: backup_identity_def Let_def bnd_ok then_ok lift_def modify_def ret_def disk_def ask_def update_conv')
  note acc = assms(4) [OF f(1)]
  let ?K = "seal_of E' b addr" and ?Z = "w_vz (e_world E')"
  have addr: "normalize_addr addr = addr" using assms(5) by (simp add: connectable_def)
  let ?store = "\<lambda>K. andthen (vput (\<lambda>v. save_account v K device)) (andthen (remember ([(''username'', u), (''server'', addr)] @
      (if uuid = [] then [] else [(''uuid'', uuid)]))) (vput (\<lambda>v. upsert_contact v u uuid (ed25519_b64 ?Z device) (curve25519_b64 ?Z device))))"
  let ?say = "announce (InfoEvent (''identity '' @ u @ '' imported on '' @ addr @ '' - select it and Connect to log in''))"
  have given: "addr \<noteq> [] \<and> u \<noteq> [] \<and> account \<noteq> []" "e_import E' account = Inr device" using acc assms(6,7) by auto
  obtain b1 where opened: "ensure_server E' addr b = (Inr (), b1)" and
    rest: "andthen (on_server E' addr (?store (seal_of E' b1 addr))) (andthen (on_index (set_username addr u))
      (andthen (save_index E') (andthen ?say (emit_servers E')))) b1 = (Inr (), b')"
    using assms(9) given
    by (auto simp: import_identity_def assms(3) f addr Let_def then_ok [of _ _ b] bnd_def [of "gets _"] gets_def cong: if_cong)
  have m: "a_master b1 = a_master b" using opened by (rule ensure_server_master)
  then have K: "seal_of E' b1 addr = ?K" by (simp add: seal_of_def)
  from rest obtain c b3 where run: "?store ?K (client_of E' addr b1) = (Inr (), c)"
    "save_index E' ((put_client E' addr c b1)\<lparr>a_index := set_username addr u (a_index b1)\<rparr>) = (Inr (), b3)"
    and last: "andthen ?say (emit_servers E') b3 = (Inr (), b')"
    unfolding K
    by (auto simp: then_ok [of "on_server _ _ _"] then_ok [of "modify _"] then_ok [of "save_index _"] on_server_ok
        on_index_def modify_def put_client_def)
  have kept: "a_files b' = a_files b3" "a_index b' = a_index b3" "a_master b' = a_master b3"
    using last by (auto simp: act_defs announce_def emit_servers_def)
  note saved = save_index_ok [OF run(2)]
  have "a_master b' = a_master b" using saved kept m by (simp add: put_client_def)
  then have K': "seal_of E' b' addr = ?K" by (simp add: seal_of_def)
  have vault: "c_vault (client_of E' addr b') = c_vault c"
    using saved kept by (simp add: client_of_def put_client_def update_conv')
  obtain r r0 where "r \<in> set (set_username addr u (a_index b1))" "sr_addr r0 = addr" "r = r0\<lparr>sr_username := Some u\<rparr>"
    using record_mut_has unfolding set_username_def by fastforce
  then have "\<exists>r \<in> set (a_index b'). sr_addr r = addr \<and> sr_username r = Some u"
    using saved kept by (intro bexI [of _ r]) simp_all
  then show ?thesis
    using imported_vault [OF run(1) assms(8)] unfolding K' vault by blast
qed

text \<open>A user \<open>al\<close> of the server \<open>h:1\<close> backs up, and a fresh installation reads the file.\<close>

definition demo_identity :: identity_file where
  "demo_identity = \<lparr>if_server = ''h:1'', if_username = ''al'', if_uuid = ''U'', if_ed25519 = ''D'', if_account = ''D''\<rparr>"

definition demo_restoring :: "string app_env" where
  "demo_restoring = demo_env\<lparr>e_file := (\<lambda>_. Inr (Inr demo_identity))\<rparr>"

lemma demo_backup: "\<exists>a1. backup_identity demo_env ''h:1'' ''al'' ''U'' ''D'' demo_app = (Inr (sid demo_env ''h:1'' @ ''_al.chermkey''), a1) \<and>
    map_of (a_backups a1) (sid demo_env ''h:1'' @ ''_al.chermkey'') = Some demo_identity"
  by (simp add: backup_identity_def Let_def act_defs disk_def ask_def demo_identity_def demo_env_def update_conv'
      ed25519_b64_def demo_world_def demo_vz_def)

lemma demo_import: "\<exists>b'. import_identity demo_restoring ''p'' demo_app = (Inr (), b')"
proof -
  have fields: "e_file demo_restoring = (\<lambda>_. Inr (Inr demo_identity))" "e_import demo_restoring = Inr"
    "e_disk demo_restoring = (\<lambda>_. Inr ())" "e_opens demo_restoring = (\<lambda>_. True)" "e_seal demo_restoring = (\<lambda>_. demo_seal)"
    by (simp_all add: demo_restoring_def demo_env_def)
  show ?thesis
    by (simp add: import_identity_def demo_identity_def fields demo_addr demo_start Let_def act_defs app_act_defs
        open_vault_def migrate_recv_ts_def backfill_group_keys_def empty_vault_def vput_def save_account_def demo_seal_def
        remember_def meta_set_def upsert_contact_def seal_of_def on_index_def)
qed

theorem identity_roundtrip_witness:
  "\<exists>b'. import_identity demo_restoring ''p'' demo_app = (Inr (), b') \<and>
    load_account (c_vault (client_of demo_restoring ''h:1'' b')) demo_seal = Inr (Some ''D'')"
proof -
  obtain a1 b' where runs: "backup_identity demo_env ''h:1'' ''al'' ''U'' ''D'' demo_app = (Inr (sid demo_env ''h:1'' @ ''_al.chermkey''), a1)"
    "map_of (a_backups a1) (sid demo_env ''h:1'' @ ''_al.chermkey'') = Some demo_identity"
    "import_identity demo_restoring ''p'' demo_app = (Inr (), b')"
    using demo_backup demo_import by blast
  have seal: "seal_of demo_restoring a addr = demo_seal" for a addr
    by (simp add: seal_of_def demo_restoring_def demo_env_def)
  have addr: "connectable ''h:1''" using demo_addr by (simp add: connectable_def)
  from identity_roundtrip [OF runs(1,2) _ _ addr _ _ _ runs(3)] runs(3) show ?thesis
    unfolding seal by (auto simp: demo_restoring_def demo_env_def demo_seal_def)
qed

end
