(* ===== verification/Server_Main.thy ===== *)
theory Server_Main
  imports Server_Delivery Attest
begin

text \<open>
  The relay's process (backend/server/src/main.rs) and its attestation state
  (backend/server/src/attest.rs): command line, secrets and version, the start-up decision about the
  release key, the answer to an attestation request, the maintenance signal and the queue pruner.
  Files and the environment are arguments: what a read returned.
\<close>

section \<open>Command line\<close>

definition DEFAULT_VERSION :: string where "DEFAULT_VERSION = ''0.1.0+dev''"
definition DEFAULT_MAINTENANCE_WARNING :: nat where "DEFAULT_MAINTENANCE_WARNING = 60"

record cli_config =
  cf_addr :: string
  cf_db :: string
  cf_no_attest :: bool
  cf_release_secret :: "string option"
  cf_release_secret_file :: "string option"
  cf_instance_key :: "string option"
  cf_version :: "string option"
  cf_config :: "string option"
  cf_maintenance_warning :: nat

definition default_cli :: cli_config where
  "default_cli = \<lparr>cf_addr = ''0.0.0.0:9000'', cf_db = ''cherm-server.db'', cf_no_attest = False,
     cf_release_secret = None, cf_release_secret_file = None, cf_instance_key = None,
     cf_version = None, cf_config = None, cf_maintenance_warning = DEFAULT_MAINTENANCE_WARNING\<rparr>"

text \<open>\<open>str::parse::<u64>\<close>: an optional plus sign and at least one digit, below 2 ^ 64.\<close>

definition digits_value :: "string \<Rightarrow> nat" where
  "digits_value s = foldl (\<lambda>n c. 10 * n + (byte c - 48)) 0 s"

definition parse_u64 :: "string \<Rightarrow> nat option" where
  "parse_u64 s =
     (let ds = (case s of c # r \<Rightarrow> if c = CHR ''+'' then r else s | [] \<Rightarrow> [])
      in if ds \<noteq> [] \<and> list_all is_ascii_digit ds \<and> digits_value ds < 2 ^ 64
         then Some (digits_value ds) else None)"

text \<open>\<open>args.next()\<close>: the next argument and those after it.\<close>

definition next_arg :: "string list \<Rightarrow> string option" where
  "next_arg xs = (case xs of [] \<Rightarrow> None | x # _ \<Rightarrow> Some x)"

fun parse_args :: "cli_config \<Rightarrow> string list \<Rightarrow> cli_config" where
  "parse_args c [] = c"
| "parse_args c (a # xs) =
     (if a = ''--addr'' then
        parse_args (case next_arg xs of Some v \<Rightarrow> c\<lparr>cf_addr := v\<rparr> | None \<Rightarrow> c) (drop 1 xs)
      else if a = ''--db'' then
        parse_args (case next_arg xs of Some v \<Rightarrow> c\<lparr>cf_db := v\<rparr> | None \<Rightarrow> c) (drop 1 xs)
      else if a = ''--no-attest'' then parse_args (c\<lparr>cf_no_attest := True\<rparr>) xs
      else if a = ''--release-secret'' then parse_args (c\<lparr>cf_release_secret := next_arg xs\<rparr>) (drop 1 xs)
      else if a = ''--release-secret-file'' then
        parse_args (c\<lparr>cf_release_secret_file := next_arg xs\<rparr>) (drop 1 xs)
      else if a = ''--instance-key'' then parse_args (c\<lparr>cf_instance_key := next_arg xs\<rparr>) (drop 1 xs)
      else if a = ''--version'' then parse_args (c\<lparr>cf_version := next_arg xs\<rparr>) (drop 1 xs)
      else if a = ''--config'' then parse_args (c\<lparr>cf_config := next_arg xs\<rparr>) (drop 1 xs)
      else if a = ''--maintenance-warning'' then
        parse_args (case Option.bind (next_arg xs) parse_u64 of
            Some v \<Rightarrow> c\<lparr>cf_maintenance_warning := v\<rparr> | None \<Rightarrow> c) (drop 1 xs)
      else parse_args c xs)"

definition from_args :: "string list \<Rightarrow> cli_config" where
  "from_args args = parse_args default_cli (drop 1 args)"

text \<open>Reading a file: its text, or why not.\<close>

type_synonym reader = "string \<Rightarrow> string + string"

definition resolve_release_secret :: "reader \<Rightarrow> cli_config \<Rightarrow> string + string option" where
  "resolve_release_secret rd c =
     (case cf_release_secret_file c of
        Some path \<Rightarrow> map_err (\<lambda>e. ''reading --release-secret-file '' @ path @ '': '' @ e)
                       (res_bind (rd path) (\<lambda>s. Inr (Some (trim s))))
      | None \<Rightarrow> Inr (cf_release_secret c))"

definition resolve_version :: "string option \<Rightarrow> cli_config \<Rightarrow> string" where
  "resolve_version env_version c =
     (case cf_version c of Some v \<Rightarrow> v
      | None \<Rightarrow> (case env_version of Some v \<Rightarrow> v | None \<Rightarrow> DEFAULT_VERSION))"

section \<open>The attestor\<close>

record attestor =
  as_instance :: signing_key
  as_release :: signing_key
  as_version :: string
  as_no_attest :: bool

definition DEV_RELEASE_SECRET_B64 :: string where
  "DEV_RELEASE_SECRET_B64 = ''IwAL8LHaDW6SOrgkBVl0FUUuYXsZgcGJJb4PLIf7Fss=''"

text \<open>
  The instance key file: absent, or there with what reading it gave. A fresh key is written; the
  result is the key and the new file content.
\<close>

definition load_or_create_instance_key ::
    "att_prims \<Rightarrow> (string + string) option \<Rightarrow> signing_key \<Rightarrow> bool \<Rightarrow> string + signing_key \<times> string" where
  "load_or_create_instance_key A file fresh write_ok =
     (case file of
        Some (Inl e) \<Rightarrow> Inl (''reading instance key: '' @ e)
      | Some (Inr b64) \<Rightarrow>
          map_err (\<lambda>e. ''parsing instance key: '' @ e)
            (res_bind (key_from_secret_b64 A (trim b64)) (\<lambda>k. Inr (k, b64)))
      | None \<Rightarrow> if write_ok then Inr (fresh, ap_b64_encode A fresh) else Inl ''writing instance key'')"

definition refuse_to_start :: string where
  "refuse_to_start = ''refusing to start a release server without a release key: pass '' @
     ''--release-secret <b64> to sign the software tier, or --no-attest '' @
     ''to serve an honest unsigned attestation''"

definition new_attestor ::
    "att_prims \<Rightarrow> bool \<Rightarrow> string + signing_key \<Rightarrow> string option \<Rightarrow> string \<Rightarrow> bool \<Rightarrow> string + attestor" where
  "new_attestor A debug_assertions instance_key release_secret_b64 version no_attest =
     res_bind instance_key (\<lambda>inst.
     res_bind (case release_secret_b64 of
         Some secret \<Rightarrow> map_err (\<lambda>e. ''parsing --release-secret: '' @ e) (key_from_secret_b64 A secret)
       | None \<Rightarrow> if \<not> no_attest \<and> \<not> debug_assertions then Inl refuse_to_start
                 else key_from_secret_b64 A DEV_RELEASE_SECRET_B64) (\<lambda>release.
       Inr \<lparr>as_instance = inst, as_release = release, as_version = version, as_no_attest = no_attest\<rparr>))"

definition attestor_build :: "att_prims \<Rightarrow> attestor \<Rightarrow> string \<Rightarrow> millis \<Rightarrow> attestation" where
  "attestor_build A a nonce_b64 now_ms =
     (if as_no_attest a then build_unsigned A nonce_b64 (as_version a) now_ms (as_instance a)
      else build_software A nonce_b64 (as_version a) now_ms (as_release a) (as_instance a))"

section \<open>Maintenance and pruning\<close>

definition OUTBOX_TTL_MS :: int where "OUTBOX_TTL_MS = 72 * 3600 * 1000"

definition prune_cutoff :: "millis \<Rightarrow> int" where
  "prune_cutoff now = wrap_i64 (now - OUTBOX_TTL_MS)"

text \<open>One SIGUSR1: the drain flag, the broadcast; a repeat is ignored.\<close>

definition maintenance_signal ::
    "string \<Rightarrow> nat \<Rightarrow> millis \<Rightarrow> bool \<times> relay \<Rightarrow> bool \<times> relay" where
  "maintenance_signal version warning_secs now st =
     (case st of (drain, r) \<Rightarrow>
        if drain then (drain, r)
        else
          let deadline = wrap_i64 (now + wrap_i64 (wrap_i64 (int warning_secs) * 1000));
              note_text = ''Server will stop in '' @ show_nat warning_secs @ ''s for update.''
          in (True, broadcast (Maintenance note_text deadline (Some version)) r))"

section \<open>Properties\<close>

text \<open>Later flags win, a value flag without value changes nothing or clears, unknown ones are skipped.\<close>

lemma parse_args_no_attest: "cf_no_attest c \<Longrightarrow> cf_no_attest (parse_args c xs)"
  by (induction c xs rule: parse_args.induct) (auto split: option.splits simp del: drop_Suc)

text \<open>A release server never runs on the public development key. In a release build a server that
  was given no release key starts only with attestation off, and then every answer it gives gets a red
  verdict; with attestation on and no key it does not start.\<close>

theorem release_server_fails_closed:
  assumes "\<not> debug_assertions"
  shows "new_attestor A debug_assertions (Inr inst) None version False = Inl refuse_to_start
    \<and> (\<forall>a nonce now now' off. new_attestor A debug_assertions ik None version no_attest = Inr a \<longrightarrow>
         as_no_attest a \<and> vr_verdict (verify A N (attestor_build A a nonce now) nonce now' off) = Red)"
  using assms
  by (auto simp: new_attestor_def res_bind_Inr_iff attestor_build_def verify_def build_unsigned_def Let_def
      split: if_splits)

definition dev_att :: att_prims where
  "dev_att = demo_att\<lparr>ap_b64_decode :=
     (\<lambda>s. Inr (if s = DEV_RELEASE_SECRET_B64 then replicate 32 CHR ''d'' else s))\<rparr>"

theorem release_server_fails_closed_witness:
  "\<exists>a. new_attestor dev_att False (Inr ''ik'') None ''1'' True = Inr a \<and>
     vr_verdict (verify dev_att demo_nitro (attestor_build dev_att a ''n'' 5) ''n'' 6 demo_official) = Red"
proof -
  obtain a where a: "new_attestor dev_att False (Inr ''ik'') None ''1'' True = Inr a"
    by (simp add: new_attestor_def key_from_secret_b64_def decode32_def dev_att_def res_bind_Inr_iff)
  with release_server_fails_closed [where N = demo_nitro and A = dev_att and debug_assertions = False]
  show ?thesis by blast
qed

lemma queue_of_broadcast:
  "distinct ks \<Longrightarrow> queue_of (fold (\<lambda>k r. reply k m r) ks r) i =
     queue_of r i @ (if i \<in> set ks \<and> accepts r i then [m] else [])"
proof (induction ks arbitrary: r)
  case Nil
  then show ?case by simp
next
  case (Cons k ks)
  have "queue_of (reply k m r) i = queue_of r i @ (if i = k \<and> accepts r i then [m] else [])"
    by (auto simp: reply_eq queue_of_def accepts_def push_def try_send_def split: option.split)
  moreover have "accepts (reply k m r) i = accepts r i" if "i \<noteq> k"
    using that by (simp add: reply_eq accepts_def)
  ultimately show ?case using Cons by (auto split: if_splits)
qed

text \<open>One maintenance notice. The first signal stops new connections and puts exactly one notice
  with the deadline in the channel of every present connection that has room, and in no other; a
  further signal changes nothing.\<close>

theorem maintenance_notice_once:
  assumes "reachable P cfg d r" and "db_ok P d" and "json_roundtrip P"
    and "maintenance_signal v secs now (False, r) = (drain, r')" and "secs * 1000 < 2 ^ 62" and "0 \<le> now" and "now < 2 ^ 62"
  shows "drain \<and> maintenance_signal v secs now' (drain, r') = (drain, r')
    \<and> (\<exists>txt. \<forall>i. queue_of r' i = queue_of r i
         @ (if (\<exists>u. map_of (r_online r) u = Some i) \<and> accepts r i
            then [Maintenance txt (now + int secs * 1000) (Some v)] else []))"
proof -
  have inv: "relay_inv P r" by (rule reachable_inv [OF assms(1-3)])
  have dist: "distinct (map fst (r_online r))" using inv by (simp add: relay_inv_def presence_ok_def)
  have snds: "i \<in> set (map snd (r_online r)) \<longleftrightarrow> (\<exists>u. map_of (r_online r) u = Some i)" for i
    using dist by force
  have "distinct (map snd (r_online r))"
  proof (rule distinct_map [THEN iffD2], intro conjI inj_onI)
    show "distinct (r_online r)" using dist by (simp add: distinct_map)
    fix p q assume "p \<in> set (r_online r)" "q \<in> set (r_online r)" "snd p = snd q"
    with dist have "map_of (r_online r) (fst p) = Some (snd p)" "map_of (r_online r) (fst q) = Some (snd p)"
      by (cases p; cases q; auto)+
    with online_unique [OF inv] have "fst p = fst q" by blast
    with \<open>snd p = snd q\<close> show "p = q" by (simp add: prod_eq_iff)
  qed
  moreover have "wrap_i64 (now + wrap_i64 (wrap_i64 (int secs) * 1000)) = now + int secs * 1000"
  proof -
    have "int (secs * 1000) < int (2 ^ 62)" using assms(5) by (simp only: of_nat_less_iff)
    then have "int secs * 1000 < 2 ^ 62" by simp
    then show ?thesis using assms(6,7) by (simp add: wrap_i64_id in_i64_def i64_min_def i64_max_def)
  qed
  ultimately show ?thesis
    using assms(4) snds
    by (auto simp: maintenance_signal_def Let_def broadcast_def queue_of_broadcast)
qed

theorem maintenance_notice_once_witness:
  "\<exists>r'. maintenance_signal ''1'' 60 5 (False, demo_relay) = (True, r') \<and>
     maintenance_signal ''1'' 60 9 (True, r') = (True, r')"
proof -
  obtain drain r' where m: "maintenance_signal ''1'' 60 5 (False, demo_relay) = (drain, r')" by fastforce
  from maintenance_notice_once [OF demo_reachable demo_db_ok demo_json m, of 9] m show ?thesis by auto
qed

end
