(* ===== verification/Server_Rest.thy ===== *)
theory Server_Rest
  imports Server_Delivery
begin

text \<open>
  The relay left alone: when no client sends anything and nobody connects, its flushes and writer tasks have only so
  much to do, and when they have done it every stored message they took up is written or its connection is closed.
\<close>

section \<open>The connections there are\<close>

text \<open>Each connection, with whether its \<open>handle\<close> still reads: what only connecting and closing change.\<close>

definition shape :: "relay \<Rightarrow> nat \<Rightarrow> bool option" where
  "shape r i = map_option cn_reading (r_conns r i)"

definition present :: "relay \<Rightarrow> nat set" where
  "present r = dom (shape r)"

definition readers :: "relay \<Rightarrow> nat set" where
  "readers r = {i. shape r i = Some True}"

lemma present_iff: "i \<in> present r \<longleftrightarrow> r_conns r i \<noteq> None"
  by (auto simp: present_def shape_def)

lemma shape_upd [simp]: "(\<And>c. cn_reading (f c) = cn_reading c) \<Longrightarrow> shape (upd_conn i f r) = shape r"
  by (rule ext) (simp add: shape_def option.map_comp o_def)

lemma shape_fields [simp]:
  "shape (r\<lparr>r_db := d\<rparr>) = shape r" "shape (r\<lparr>r_online := on\<rparr>) = shape r" "shape (r\<lparr>r_gate := g\<rparr>) = shape r"
  by (simp_all add: shape_def fun_eq_iff)

lemma shape_reply [simp]: "shape (reply i m r) = shape r"
  by (simp add: reply_eq)

lemma shape_start_flush [simp]: "shape (start_flush i u r) = shape r"
  by (simp add: start_flush_def split: sum.split)

lemma shape_log_in [simp]: "shape (log_in i uuid u r) = shape r"
  by (simp add: log_in_def Let_def)

lemma shape_enqueue [simp]: "shape (snd (enqueue_frame_str x f t r)) = shape r"
  by (simp add: enqueue_frame_str_def split: sum.split prod.split)

lemma shape_push [simp]: "shape (upd_conn i (cn_chan_update f) r) = shape r"
  by simp

lemma shape_deliver_one [simp]: "shape (fst (deliver_one sender m f t x st)) = shape (fst st)"
  by (auto simp: deliver_one_def Let_def try_send_to_eq split: prod.split option.split bool.split)
    (metis shape_enqueue shape_push snd_conv)+

lemma shape_fan_out [simp]: "shape (fst (fan_out sender m f t seen xs st)) = shape (fst st)"
  by (induction xs arbitrary: seen st) simp_all

lemma shape_send [simp]: "shape (handle_send P env i c to ty pl g cts r) = shape r"
proof -
  have "shape r' = shape r0"
    if "fan_out sender m f t seen xs (r0, a, b) = (r', a', b')" for sender m f t seen xs r0 a b r' a' b'
    using shape_fan_out [of sender m f t seen xs "(r0, a, b)"] that by simp
  then show ?thesis
    by (auto simp: handle_send_def Let_def split: option.split prod.split)
qed

lemma shape_arms [simp]:
  "shape (handle_attest P env i n r) = shape r" "shape (handle_client_hello i bh v r) = shape r"
  "shape (handle_get_server_info P cfg i r) = shape r" "shape (handle_auth_begin P env i u r) = shape r"
  "shape (handle_publish_prekeys P env i c ks r) = shape r" "shape (handle_fetch_prekeys env i c u r) = shape r"
  "shape (handle_pull i c r) = shape r" "shape (handle_register P cfg env i c u ed cv mid r) = shape r"
  "shape (handle_auth_finish P cfg i c u sg r) = shape r"
  by (auto simp: handle_attest_def handle_client_hello_def handle_get_server_info_def handle_auth_begin_def
      handle_publish_prekeys_def handle_fetch_prekeys_def handle_pull_def handle_register_def handle_auth_finish_def Let_def
      split: option.split prod.split sum.split bool.split reg_err.split)

lemma shape_handle_frame [simp]: "shape (handle_frame P cfg env i f r) = shape r"
proof -
  have "shape (dispatch P cfg env i c m r) = shape r" for c m r
    by (cases m) (simp_all add: dispatch_def)
  then show ?thesis
    by (auto simp: handle_frame_def Let_def split: option.split frame_in.split prod.split)
qed

lemma shape_flush_step: "flush_step P i r = Some r' \<Longrightarrow> shape r' = shape r"
  by (auto simp: flush_step_def end_flush_def Let_def try_send_to_eq split: option.splits list.splits if_splits sum.splits)

lemma shape_writer [simp]: "shape (writer_step ok i r) = shape r"
  by (auto simp: writer_step_def intro!: shape_upd split: list.split)

lemma shape_broadcast [simp]: "shape (broadcast m r) = shape r"
proof -
  have "shape (fold (\<lambda>k r. reply k m r) ks r) = shape r" for ks
    by (induction ks arbitrary: r) simp_all
  then show ?thesis by (simp add: broadcast_def)
qed

lemma shape_end_reader: "r_conns r i = Some c \<Longrightarrow> shape (end_reader i r) = (shape r)(i \<mapsto> False)"
  by (rule ext) (auto simp: end_reader_def Let_def shape_def split: option.split)

lemma shape_accept: "shape (r\<lparr>r_conns := (r_conns r)(i := Some (new_conn now))\<rparr>) = (shape r)(i \<mapsto> True)"
  by (rule ext) (simp add: shape_def new_conn_def)

lemma finite_present:
  assumes "reachable P cfg d r"
  shows "finite (present r)"
  using assms
proof induction
  case start
  show ?case by (simp add: present_def shape_def [abs_def] init_relay_def)
next
  case (next_step r r')
  from next_step(2) have "\<exists>i. present r' \<subseteq> insert i (present r)"
  proof cases
    case (accept_conn i now)
    then show ?thesis by (auto simp: present_def shape_accept)
  next
    case (flush i)
    then have "shape r' = shape r" by (rule shape_flush_step)
    then show ?thesis by (auto simp: present_def)
  next
    case (close i c)
    then show ?thesis by (auto simp: present_def shape_end_reader)
  qed (auto simp: present_def)
  then show ?case using next_step.IH by (meson finite_insert finite_subset)
qed

section \<open>Steps without input\<close>

text \<open>A turn of a flush, or of a writer task that has a message to write.\<close>

inductive inner_step :: "prims \<Rightarrow> relay \<Rightarrow> relay \<Rightarrow> bool" for P where
  flushing: "flush_step P i r = Some r' \<Longrightarrow> inner_step P r r'"
| writing: "r_conns r i = Some c \<Longrightarrow> ch_queue (cn_chan c) \<noteq> [] \<Longrightarrow> \<not> ch_closed (cn_chan c) \<Longrightarrow>
    inner_step P r (writer_step ok i r)"

inductive_cases inner_stepE: "inner_step P r r'"

lemma inner_step_relay: "inner_step P r r' \<Longrightarrow> relay_step P cfg r r'"
  by (erule inner_stepE) (auto intro: relay_step.flush relay_step.write_frame)

text \<open>What a connection has left to do: two for each row to hand over and one for the end of the flush, one for each message to write.\<close>

definition load :: "conn \<Rightarrow> nat" where
  "load c = (case cn_flush c of None \<Rightarrow> 0 | Some fl \<Rightarrow> 2 * length (fl_rows fl) + 1) +
     (if ch_closed (cn_chan c) then 0 else length (ch_queue (cn_chan c)))"

definition load_at :: "relay \<Rightarrow> nat \<Rightarrow> nat" where
  "load_at r i = (case r_conns r i of None \<Rightarrow> 0 | Some c \<Rightarrow> load c)"

definition work :: "relay \<Rightarrow> nat" where
  "work r = (\<Sum>i \<in> present r. load_at r i)"

lemma load_upd: "load_at (upd_conn i f r) j = (if j = i then (case r_conns r i of None \<Rightarrow> 0 | Some c \<Rightarrow> load (f c)) else load_at r j)"
  by (auto simp: load_at_def split: option.split)

lemma flush_step_load:
  assumes "flush_step P i r = Some r'"
  shows "load_at r' i < load_at r i" and "j \<noteq> i \<Longrightarrow> load_at r' j = load_at r j" and "i \<in> present r"
proof -
  from assms obtain c fl where c: "r_conns r i = Some c" "cn_flush c = Some fl"
    by (auto simp: flush_step_def split: option.splits)
  have ended: "r_conns (end_flush i ids r) = (r_conns r)(i := map_option (cn_flush_update (\<lambda>_. None)) (r_conns r i))" for ids
    by (simp add: end_flush_def split: sum.split)
  show "load_at r' i < load_at r i"
    using assms c
    by (auto simp: flush_step_def Let_def try_send_to_eq load_at_def load_def ended push_def try_send_def
        split: list.splits option.splits if_splits)
  show "j \<noteq> i \<Longrightarrow> load_at r' j = load_at r j"
    using assms c
    by (auto simp: flush_step_def Let_def try_send_to_eq load_at_def ended split: list.splits option.splits if_splits)
  show "i \<in> present r" using c by (simp add: present_iff)
qed

lemma writer_step_load:
  assumes "r_conns r i = Some c" and "ch_queue (cn_chan c) \<noteq> []" and "\<not> ch_closed (cn_chan c)"
  shows "load_at (writer_step ok i r) i < load_at r i" and "j \<noteq> i \<Longrightarrow> load_at (writer_step ok i r) j = load_at r j"
  using assms by (auto simp: writer_step_def load_upd load_at_def load_def split: list.split)

lemma inner_step_work:
  assumes "inner_step P r r'" and "finite (present r)"
  shows "work r' < work r" and "present r' = present r"
proof -
  obtain i where i: "load_at r' i < load_at r i" "\<And>j. j \<noteq> i \<Longrightarrow> load_at r' j = load_at r j" "i \<in> present r" and same: "present r' = present r"
    using assms(1)
  proof cases
    case (flushing i)
    then show ?thesis using that [of i] flush_step_load [of P i r r'] shape_flush_step [of P i r r'] by (simp add: present_def)
  next
    case (writing i c ok)
    have "i \<in> present r" using writing(2) by (simp add: present_iff)
    with writing show ?thesis using that [of i] writer_step_load [OF writing(2-4), where ok = ok] by (simp add: present_def)
  qed
  show "present r' = present r" by (rule same)
  have "work r' = load_at r' i + (\<Sum>j \<in> present r - {i}. load_at r' j)"
    unfolding work_def same using assms(2) i(3) by (simp add: sum.remove)
  moreover have "work r = load_at r i + (\<Sum>j \<in> present r - {i}. load_at r j)"
    unfolding work_def using assms(2) i(3) by (simp add: sum.remove)
  moreover have "(\<Sum>j \<in> present r - {i}. load_at r' j) = (\<Sum>j \<in> present r - {i}. load_at r j)"
    by (rule sum.cong) (use i(2) in auto)
  ultimately show "work r' < work r" using i(1) by simp
qed

text \<open>Nothing left to do on a connection.\<close>

definition at_rest :: "conn \<Rightarrow> bool" where
  "at_rest c = (cn_flush c = None \<and> (ch_queue (cn_chan c) = [] \<or> ch_closed (cn_chan c)))"

lemma stuck_at_rest:
  assumes "\<nexists>r'. inner_step P r r'" and "r_conns r i = Some c"
  shows "at_rest c"
proof -
  have written: "ch_queue (cn_chan c) = [] \<or> ch_closed (cn_chan c)"
    using assms inner_step.writing by blast
  have "cn_flush c = None"
  proof (rule ccontr)
    assume "cn_flush c \<noteq> None"
    then obtain fl where "cn_flush c = Some fl" by blast
    then have "\<exists>r'. flush_step P i r = Some r'"
      using assms(2) written by (auto simp: flush_step_def Let_def OUTBOUND_CAP_def split: list.split option.split)
    then show False using assms(1) inner_step.flushing by blast
  qed
  with written show ?thesis by (simp add: at_rest_def)
qed

text \<open>C30: Left alone, the relay comes to rest. From any reachable state, flushes and writers together make at most
  \<open>work r\<close> steps, in whichever order, and as long as some connection is not at rest one of them can go on: so
  no flush waits for ever, also not for a full channel. At rest every flush is over and every channel is written out
  or closed.\<close>

theorem relay_comes_to_rest:
  assumes "reachable P cfg d r" and "(inner_step P ^^ n) r r'"
  shows "n \<le> work r \<and> ((\<nexists>r''. inner_step P r' r'') = (\<forall>i c. r_conns r' i = Some c \<longrightarrow> at_rest c))"
proof -
  have "finite (present r') \<and> work r' + n \<le> work r"
    using assms(2)
  proof (induction n arbitrary: r')
    case 0
    then show ?case using finite_present [OF assms(1)] by simp
  next
    case (Suc n)
    then obtain q where "(inner_step P ^^ n) r q" "inner_step P q r'" by auto
    then show ?case using Suc.IH [of q] inner_step_work [of P q r'] by fastforce
  qed
  then have "n \<le> work r" by simp
  moreover have "\<nexists>r''. inner_step P r' r''" if "\<forall>i c. r_conns r' i = Some c \<longrightarrow> at_rest c"
    using that by (fastforce elim!: inner_stepE simp: at_rest_def flush_step_def split: option.splits)
  ultimately show ?thesis using stuck_at_rest by blast
qed

text \<open>\<open>amy\<close> and \<open>bob\<close> are logged in and \<open>bob\<close> has a stored message; once it is handed over, it is still to be written.\<close>

theorem relay_comes_to_rest_witness:
  "\<exists>r' r''. flush_step demo_prims 1 before_send = Some r' \<and> inner_step demo_prims r' r'' \<and> 2 \<le> work before_send"
proof -
  obtain r1 c where r1: "flush_step demo_prims 1 before_send = Some r1" "r_conns r1 1 = Some c" "ch_queue (cn_chan c) \<noteq> []"
    "\<not> ch_closed (cn_chan c)"
    by (simp add: before_send_def demo_eval)
  have one: "(inner_step demo_prims ^^ 1) before_send r1" using inner_step.flushing [OF r1(1)] by (auto simp: relcompp_apply)
  have "\<not> at_rest c" using r1(3,4) by (simp add: at_rest_def)
  then obtain r2 where r2: "inner_step demo_prims r1 r2"
    using relay_comes_to_rest [OF before_send_reachable one] r1(2) by blast
  then have "(inner_step demo_prims ^^ 2) before_send r2" using one by (auto simp: numeral_2_eq_2 relcompp_apply)
  then show ?thesis using relay_comes_to_rest [OF before_send_reachable, of 2] r1(1) r2 by blast
qed

end
