(* ===== verification/Server_Start.thy ===== *)
theory Server_Start
  imports Server_Main Server_Rest
begin

text \<open>
  The relay from its command line to its exit (backend/server/src/main.rs \<open>main\<close>, config.rs \<open>load\<close>): where the
  instance key lies, the start-up in its order, and the process, which puts the relay's tasks, the accept loop and the
  maintenance signal together. What the machine answers is in \<open>host\<close>.
\<close>

section \<open>The directory of the instance key\<close>

text \<open>\<open>Path::parent\<close> on Unix. A path is a head (the root, a leading single dot, or nothing) and a body, taken apart at
  its last slash; empty and single-dot parts of the body do not count.\<close>

definition split_back :: "string \<Rightarrow> string \<times> string" where
  "split_back s = (let c = takeWhile (\<lambda>x. x \<noteq> CHR ''/'') (rev s) in (rev (drop (length c + 1) (rev s)), rev c))"

function trim_right :: "string \<Rightarrow> string" where
  "trim_right s = (if s = [] then [] else
     (case split_back s of (front, c) \<Rightarrow> if c = [] \<or> c = ''.'' then trim_right front else s))"
  by pat_completeness auto

lemma split_back_shorter: "(front, c) = split_back s \<Longrightarrow> s \<noteq> [] \<Longrightarrow> length front < length s"
  by (simp add: split_back_def Let_def)

termination trim_right
  by (relation "measure length") (auto intro: split_back_shorter)

declare trim_right.simps [simp del]

definition path_head :: "string \<Rightarrow> string" where
  "path_head p = (if take 1 p = ''/'' then ''/'' else if p = ''.'' \<or> take 2 p = ''./'' then ''.'' else [])"

definition path_parent :: "string \<Rightarrow> string option" where
  "path_parent p =
     (let h = path_head p;
          body = trim_right (drop (length h) p)
      in if body \<noteq> [] then Some (h @ trim_right (fst (split_back body)))
         else if h = ''.'' then Some []
         else None)"

definition instance_key_path :: "cli_config \<Rightarrow> string" where
  "instance_key_path c =
     (case cf_instance_key c of
        Some p \<Rightarrow> p
      | None \<Rightarrow> (case path_parent (cf_db c) of
                   Some dir \<Rightarrow> if dir \<noteq> [] then path_join dir ''instance.key'' else ''instance.key''
                 | None \<Rightarrow> ''instance.key''))"

text \<open>A database named by a directory and a plain file name has the key beside it; a bare name, in the working directory.\<close>

lemma split_back_plain: "CHR ''/'' \<notin> set f \<Longrightarrow> split_back (d @ CHR ''/'' # f) = (d, f)"
  by (simp add: split_back_def Let_def takeWhile_append takeWhile_eq_all_conv [THEN iffD2])

lemma split_back_bare: "CHR ''/'' \<notin> set f \<Longrightarrow> split_back f = ([], f)"
proof -
  assume "CHR ''/'' \<notin> set f"
  then have "takeWhile (\<lambda>x. x \<noteq> CHR ''/'') (rev f) = rev f" by (auto simp: takeWhile_eq_all_conv)
  then show "split_back f = ([], f)" by (simp add: split_back_def Let_def del: takeWhile_eq_all_conv)
qed

lemma trim_right_plain:
  "CHR ''/'' \<notin> set f \<Longrightarrow> f \<noteq> [] \<Longrightarrow> f \<noteq> ''.'' \<Longrightarrow> trim_right (d @ CHR ''/'' # f) = d @ CHR ''/'' # f"
  "CHR ''/'' \<notin> set f \<Longrightarrow> f \<noteq> [] \<Longrightarrow> f \<noteq> ''.'' \<Longrightarrow> trim_right f = f"
  by (subst trim_right.simps; simp add: split_back_plain split_back_bare)+

lemma key_beside_db:
  assumes "cf_instance_key c = None" and "CHR ''/'' \<notin> set f \<union> set g" and "f \<notin> {[], ''.''}" and "g \<notin> {[], ''.''}"
  shows "cf_db c = ''/'' @ g @ ''/'' @ f \<Longrightarrow> instance_key_path c = ''/'' @ g @ ''/instance.key''"
    and "cf_db c = f \<Longrightarrow> instance_key_path c = ''instance.key''"
proof -
  assume "cf_db c = ''/'' @ g @ ''/'' @ f"
  then show "instance_key_path c = ''/'' @ g @ ''/instance.key''"
    using assms trim_right_plain(1) [of f g] trim_right_plain(2) [of g] split_back_plain [of f g]
    by (auto simp: instance_key_path_def path_parent_def path_head_def path_join_def Let_def dest: last_in_set)
next
  assume "cf_db c = f"
  moreover have "path_head f = []" using assms by (cases f; cases "tl f") (auto simp: path_head_def)
  ultimately show "instance_key_path c = ''instance.key''"
    using assms trim_right_plain(2) [of f] split_back_bare [of f]
    by (simp add: instance_key_path_def path_parent_def Let_def trim_right.simps [of "[]"])
qed

section \<open>Start-up\<close>

text \<open>What the machine answers while the relay starts: the environment variable, the text of a file, the instance key
  file at a path (with a fresh key and whether writing it succeeds), the parsed configuration (serde_json), what
  opening the database file gave (rusqlite), and why an address cannot be bound.\<close>

record host =
  h_env_version :: "string option"
  h_read :: reader
  h_key_file :: "string \<Rightarrow> (string + string) option"
  h_fresh_key :: signing_key
  h_key_written :: bool
  h_parse_config :: "string \<Rightarrow> string + server_config"
  h_open_db :: "string \<Rightarrow> sql_error + db"
  h_bind :: "string \<Rightarrow> string option"

definition load_config :: "host \<Rightarrow> string \<Rightarrow> string + server_config" where
  "load_config H path =
     res_bind (map_err (\<lambda>e. ''reading config '' @ path @ '': '' @ e) (h_read H path)) (\<lambda>s.
       map_err (\<lambda>e. ''parsing config '' @ path @ '': '' @ e) (h_parse_config H s))"

definition open_db :: "host \<Rightarrow> string \<Rightarrow> sql_error + db" where
  "open_db H path = res_bind (h_open_db H path) init_schema"

text \<open>The process: the relay's tasks, the accept loop, and for each connection task that has not ended, which holds a
  permit, the address it came from.\<close>

record 'ip process =
  pc_relay :: relay
  pc_acceptor :: "'ip acceptor"
  pc_peer :: "nat \<Rightarrow> 'ip option"
  pc_exited :: bool

record 'ip started =
  st_attestor :: attestor
  st_key_file :: string
  st_config :: server_config
  st_process :: "'ip process"

definition fresh_process :: "db \<Rightarrow> 'ip process" where
  "fresh_process d = \<lparr>pc_relay = init_relay d, pc_acceptor = init_acceptor, pc_peer = (\<lambda>_. None), pc_exited = False\<rparr>"

text \<open>\<open>main\<close> up to the accept loop: each step that fails ends the program. \<open>st_key_file\<close> is the text the instance
  key file has from then on.\<close>

definition start_server :: "att_prims \<Rightarrow> bool \<Rightarrow> host \<Rightarrow> cli_config \<Rightarrow> string + 'ip started" where
  "start_server A debug_assertions H cfg =
     (let key_path = instance_key_path cfg;
          version = resolve_version (h_env_version H) cfg;
          key = load_or_create_instance_key A (h_key_file H key_path) (h_fresh_key H) (h_key_written H)
      in res_bind (resolve_release_secret (h_read H) cfg) (\<lambda>secret.
         res_bind (map_err (\<lambda>e. ''initializing attestation: '' @ e)
             (new_attestor A debug_assertions (map_sum id fst key) secret version (cf_no_attest cfg))) (\<lambda>att.
         res_bind (case cf_config cfg of
             Some path \<Rightarrow> map_err (\<lambda>e. ''loading config '' @ path @ '': '' @ e) (load_config H path)
           | None \<Rightarrow> Inr default_config) (\<lambda>config.
         res_bind (map_err (\<lambda>_. ''opening database '' @ cf_db cfg) (open_db H (cf_db cfg))) (\<lambda>d.
         case h_bind H (cf_addr cfg) of
           Some e \<Rightarrow> Inl (''binding '' @ cf_addr cfg @ '': '' @ e)
         | None \<Rightarrow> Inr \<lparr>st_attestor = att, st_key_file = (case key of Inr (_, text) \<Rightarrow> text | Inl _ \<Rightarrow> []),
                      st_config = config, st_process = fresh_process d\<rparr>)))))"

lemma map_err_value [simp]: "map_err g (Inr x) = Inr x"
  by (simp add: map_err_def)

lemma start_server_parts:
  assumes "start_server A dbg H c = Inr st"
  obtains k secret d where
    "load_or_create_instance_key A (h_key_file H (instance_key_path c)) (h_fresh_key H) (h_key_written H) = Inr (k, st_key_file st)"
    "resolve_release_secret (h_read H) c = Inr secret"
    "new_attestor A dbg (Inr k) secret (resolve_version (h_env_version H) c) (cf_no_attest c) = Inr (st_attestor st)"
    "open_db H (cf_db c) = Inr d" "st_process st = fresh_process d"
proof -
  let ?key = "load_or_create_instance_key A (h_key_file H (instance_key_path c)) (h_fresh_key H) (h_key_written H)"
  obtain secret where secret: "resolve_release_secret (h_read H) c = Inr secret"
    "new_attestor A dbg (map_sum id fst ?key) secret (resolve_version (h_env_version H) c) (cf_no_attest c) = Inr (st_attestor st)"
    and key: "st_key_file st = (case ?key of Inr (_, text) \<Rightarrow> text | Inl _ \<Rightarrow> [])"
    and d: "\<exists>d. open_db H (cf_db c) = Inr d \<and> st_process st = fresh_process d"
    using assms by (auto simp: start_server_def Let_def res_bind_Inr_iff split: option.splits)
  from secret(2) obtain k body where k: "?key = Inr (k, body)" by (cases ?key) (auto simp: new_attestor_def)
  with key have "?key = Inr (k, st_key_file st)" by simp
  with that secret d k show thesis by fastforce
qed

lemma new_attestor_fields:
  "new_attestor A dbg (Inr k) secret v off = Inr a \<Longrightarrow> as_instance a = k \<and> as_version a = v \<and> as_no_attest a = off"
  by (auto simp: new_attestor_def res_bind_Inr_iff)

text \<open>The key file's text is the key, now and after it was written.\<close>

lemma key_file_text:
  assumes "load_or_create_instance_key A f fresh ok = Inr (k, text)"
    and "f = None \<Longrightarrow> key_from_secret_b64 A (trim (ap_b64_encode A fresh)) = Inr fresh"
  shows "key_from_secret_b64 A (trim text) = Inr k" and "f = Some (Inr b) \<Longrightarrow> b = text"
  using assms by (auto simp: load_or_create_instance_key_def res_bind_Inr_iff split: option.splits sum.splits if_splits)

section \<open>The process\<close>

text \<open>The steps of the running process, none once it has exited. A connection arrives and is taken or refused; a task
  works; \<open>handle\<close> stops reading, and when its writer task is through as well it returns and gives back the permit and
  the address's slot; SIGUSR1 comes; the warning window ends.\<close>

inductive process_step :: "prims \<Rightarrow> server_config \<Rightarrow> string \<Rightarrow> nat \<Rightarrow> 'ip process \<Rightarrow> 'ip process \<Rightarrow> bool"
  for P cfg version warning_secs where
  admit: "\<not> pc_exited s \<Longrightarrow> r_conns (pc_relay s) i = None \<Longrightarrow> accept (pc_acceptor s) ip = (True, a) \<Longrightarrow>
    process_step P cfg version warning_secs s
      (s\<lparr>pc_relay := (pc_relay s)\<lparr>r_conns := (r_conns (pc_relay s))(i := Some (new_conn now))\<rparr>,
         pc_acceptor := a, pc_peer := (pc_peer s)(i := Some ip)\<rparr>)"
| refuse: "\<not> pc_exited s \<Longrightarrow> accept (pc_acceptor s) ip = (False, a) \<Longrightarrow>
    process_step P cfg version warning_secs s (s\<lparr>pc_acceptor := a\<rparr>)"
| serve: "\<not> pc_exited s \<Longrightarrow> r_conns (pc_relay s) i = Some c \<Longrightarrow> cn_reading c \<Longrightarrow> cn_flush c = None \<Longrightarrow>
    process_step P cfg version warning_secs s (s\<lparr>pc_relay := handle_frame P cfg env i f (pc_relay s)\<rparr>)"
| flush_row: "\<not> pc_exited s \<Longrightarrow> flush_step P i (pc_relay s) = Some r \<Longrightarrow>
    process_step P cfg version warning_secs s (s\<lparr>pc_relay := r\<rparr>)"
| write_out: "\<not> pc_exited s \<Longrightarrow>
    process_step P cfg version warning_secs s (s\<lparr>pc_relay := writer_step ok i (pc_relay s)\<rparr>)"
| stop_reading: "\<not> pc_exited s \<Longrightarrow> r_conns (pc_relay s) i = Some c \<Longrightarrow> cn_reading c \<Longrightarrow> cn_flush c = None \<Longrightarrow>
    process_step P cfg version warning_secs s (s\<lparr>pc_relay := end_reader i (pc_relay s)\<rparr>)"
| give_back: "\<not> pc_exited s \<Longrightarrow> r_conns (pc_relay s) i = Some c \<Longrightarrow> \<not> cn_reading c \<Longrightarrow> at_rest c \<Longrightarrow>
    pc_peer s i = Some ip \<Longrightarrow>
    process_step P cfg version warning_secs s
      (s\<lparr>pc_acceptor := end_connection (pc_acceptor s) ip, pc_peer := (pc_peer s)(i := None)\<rparr>)"
| prune_tick: "\<not> pc_exited s \<Longrightarrow> prune_expired (r_db (pc_relay s)) (prune_cutoff now) = Inr (n, d) \<Longrightarrow>
    process_step P cfg version warning_secs s (s\<lparr>pc_relay := (pc_relay s)\<lparr>r_db := d\<rparr>\<rparr>)"
| storage_fault: "\<not> pc_exited s \<Longrightarrow>
    process_step P cfg version warning_secs s
      (s\<lparr>pc_relay := (pc_relay s)\<lparr>r_db := (r_db (pc_relay s))\<lparr>db_up := up\<rparr>\<rparr>\<rparr>)"
| signal: "\<not> pc_exited s \<Longrightarrow>
    maintenance_signal version warning_secs now (draining (pc_acceptor s), pc_relay s) = (drain, r) \<Longrightarrow>
    process_step P cfg version warning_secs s
      (s\<lparr>pc_relay := r, pc_acceptor := (pc_acceptor s)\<lparr>draining := drain\<rparr>\<rparr>)"
| window_over: "\<not> pc_exited s \<Longrightarrow> draining (pc_acceptor s) \<Longrightarrow>
    process_step P cfg version warning_secs s (s\<lparr>pc_exited := True\<rparr>)"

inductive_cases process_stepE: "process_step P cfg version warning_secs s s'"

text \<open>The relay's part of a step is a step of the relay, or none.\<close>

lemma process_relay:
  "process_step P cfg v w s s' \<Longrightarrow> pc_relay s' = pc_relay s \<or> relay_step P cfg (pc_relay s) (pc_relay s')"
  by (erule process_stepE)
    (auto simp: maintenance_signal_def Let_def intro: relay_step.intros split: if_splits)

lemma process_reachable:
  "(process_step P cfg v w)\<^sup>*\<^sup>* (fresh_process d) s \<Longrightarrow> reachable P cfg d (pc_relay s)"
proof (induction rule: rtranclp_induct)
  case base
  show ?case by (simp add: fresh_process_def reachable.start)
next
  case (step s s')
  then show ?case using process_relay [OF step(2)] by (auto intro: reachable.next_step)
qed

lemma drain_flag_inv [simp]: "acceptor_inv (a\<lparr>draining := x\<rparr>) = acceptor_inv a"
  by (simp add: acceptor_inv_def)

text \<open>Every connection task holds one permit and one slot of its address; every connection that is read has a task.\<close>

definition slots :: "(nat \<Rightarrow> 'ip option) \<Rightarrow> 'ip \<Rightarrow> nat" where
  "slots m ip = card {i. m i = Some ip}"

definition process_inv :: "'ip process \<Rightarrow> bool" where
  "process_inv s \<longleftrightarrow> acceptor_inv (pc_acceptor s) \<and> finite (dom (pc_peer s))
     \<and> length (live (pc_acceptor s)) = card (dom (pc_peer s))
     \<and> (\<forall>ip. count_list (live (pc_acceptor s)) ip = slots (pc_peer s) ip)
     \<and> readers (pc_relay s) \<subseteq> dom (pc_peer s) \<and> dom (pc_peer s) \<subseteq> present (pc_relay s)"

lemma accept_live:
  "accept a ip = (ok, a') \<Longrightarrow> live a' = (if ok then ip # live a else live a) \<and> draining a' = draining a \<and> (ok \<longrightarrow> \<not> draining a)"
  by (auto simp: accept_def split: if_splits prod.splits bool.splits)

lemma accept_result_inv: "acceptor_inv a \<Longrightarrow> accept a ip = (ok, a') \<Longrightarrow> acceptor_inv a'"
  using accept_inv [of a ip] by simp

lemma finite_slots: "finite (dom m) \<Longrightarrow> finite {j. m j = Some y}"
  by (erule rev_finite_subset) auto

lemma slots_insert:
  assumes "m i = None" and "finite (dom m)"
  shows "slots (m(i \<mapsto> x)) y = slots m y + (if x = y then 1 else 0)"
    and "card (insert i (dom m)) = Suc (card (dom m))"
proof -
  have "{j. (m(i \<mapsto> x)) j = Some y} = (if x = y then insert i {j. m j = Some y} else {j. m j = Some y})"
    using assms(1) by auto
  then show "slots (m(i \<mapsto> x)) y = slots m y + (if x = y then 1 else 0)"
    using assms finite_slots [OF assms(2)] by (simp add: slots_def)
  show "card (insert i (dom m)) = Suc (card (dom m))" using assms by (simp add: domIff)
qed

lemma slots_remove:
  assumes "m i = Some x" and "finite (dom m)"
  shows "slots (m(i := None)) y = slots m y - (if x = y then 1 else 0)"
    and "card (dom m - {i}) = card (dom m) - 1" and "slots m x \<noteq> 0"
proof -
  have "{j. (m(i := None)) j = Some y} = {j. m j = Some y} - (if x = y then {i} else {})" using assms(1) by auto
  then show "slots (m(i := None)) y = slots m y - (if x = y then 1 else 0)"
    using assms(1) finite_slots [OF assms(2)] by (simp add: slots_def)
  show "card (dom m - {i}) = card (dom m) - 1" using assms(1) by (simp add: domI card_Diff_singleton)
  show "slots m x \<noteq> 0" using assms(1) finite_slots [OF assms(2), of x] by (auto simp: slots_def)
qed

lemma process_step_inv [inv_intros]:
  assumes "process_step P cfg v w s s'" and "process_inv s"
  shows "process_inv s'"
  using assms(1)
proof cases
  case (admit i ip a now)
  have "i \<notin> present (pc_relay s)" using admit(3) by (simp add: present_iff)
  then have new: "pc_peer s i = None" using assms(2) by (auto simp: process_inv_def)
  note acc = accept_live [OF admit(4)] accept_result_inv [OF _ admit(4)]
  show ?thesis using assms(2) acc new admit(1)
    by (auto simp: process_inv_def readers_def present_def shape_accept slots_insert split: if_splits)
next
  case (refuse ip a)
  then show ?thesis using accept_live [OF refuse(3)] accept_result_inv [OF _ refuse(3)] assms(2)
    by (simp add: process_inv_def)
next
  case (give_back i c ip)
  have "count_list (live (pc_acceptor s)) ip \<noteq> 0"
    using assms(2) slots_remove(3) [of "pc_peer s" i ip] give_back(6) by (simp add: process_inv_def)
  then have mem: "ip \<in> set (live (pc_acceptor s))" by (simp add: count_list_0_iff)
  have live: "live (end_connection (pc_acceptor s) ip) = remove1 ip (live (pc_acceptor s))"
    using mem by (simp add: end_connection_def)
  have "i \<notin> readers (pc_relay s)" using give_back(3,4) by (simp add: readers_def shape_def)
  then show ?thesis using assms(2) give_back(1,6) mem
    by (auto simp: process_inv_def end_connection_inv live length_remove1 count_list_remove1 slots_remove)
next
  case (stop_reading i c)
  have "shape (end_reader i (pc_relay s)) = (shape (pc_relay s))(i \<mapsto> False)" by (rule shape_end_reader [OF stop_reading(3)])
  moreover have "i \<in> present (pc_relay s)" using stop_reading(3) by (simp add: present_iff)
  ultimately show ?thesis using assms(2) stop_reading(1) by (auto simp: process_inv_def readers_def present_def)
next
  case (signal now drain r)
  have "shape r = shape (pc_relay s)"
    using signal(3) by (auto simp: maintenance_signal_def Let_def split: if_splits)
  then show ?thesis using signal(1) assms(2) by (simp add: process_inv_def readers_def present_def)
next
  case (flush_row i r)
  then show ?thesis using shape_flush_step [OF flush_row(3)] assms(2) by (simp add: process_inv_def readers_def present_def)
qed (use assms(2) in \<open>simp_all add: process_inv_def readers_def present_def\<close>)

lemma fresh_process_inv [simp]: "process_inv (fresh_process d)"
  by (simp add: process_inv_def fresh_process_def init_acceptor_def slots_def readers_def shape_def init_relay_def)
    (simp add: acceptor_inv_def)

lemma process_run_inv: "(process_step P cfg v w)\<^sup>*\<^sup>* (fresh_process d) s \<Longrightarrow> process_inv s"
  by (induction rule: rtranclp_induct) (auto intro: process_step_inv)

lemma draining_stays:
  assumes "process_step P cfg v w s s'" and "draining (pc_acceptor s)"
  shows "draining (pc_acceptor s') \<and> dom (pc_peer s') \<subseteq> dom (pc_peer s)"
  using assms(1)
proof cases
  case (admit i ip a now)
  then show ?thesis using accept_live [OF admit(4)] assms(2) by simp
next
  case (refuse ip a)
  then show ?thesis using accept_live [OF refuse(3)] assms(2) by simp
qed (use assms(2) in \<open>auto simp: maintenance_signal_def end_connection_def split: if_splits\<close>)

text \<open>C29: The process keeps its limits. Whatever has happened since a successful start, its relay is in a reachable state
  over the database that was opened (so all that is proved of the relay holds in the process), every connection that is
  read has its task, the tasks and the free permits are 4096 together, no address has more than 64 tasks, and once the
  maintenance signal has come every later state only has tasks from before it.\<close>

theorem process_keeps_its_limits:
  assumes "start_server A dbg H c = Inr st" and "(process_step P cfg v w)\<^sup>*\<^sup>* (st_process st) s"
  shows "(\<exists>d. open_db H (cf_db c) = Inr d \<and> reachable P cfg d (pc_relay s))
    \<and> finite (dom (pc_peer s)) \<and> readers (pc_relay s) \<subseteq> dom (pc_peer s)
    \<and> card (dom (pc_peer s)) + permits (pc_acceptor s) = 4096
    \<and> (\<forall>ip. card {i. pc_peer s i = Some ip} \<le> 64)
    \<and> (\<forall>s'. draining (pc_acceptor s) \<and> (process_step P cfg v w)\<^sup>*\<^sup>* s s' \<longrightarrow>
         draining (pc_acceptor s') \<and> dom (pc_peer s') \<subseteq> dom (pc_peer s))"
proof -
  obtain d where d: "open_db H (cf_db c) = Inr d" "st_process st = fresh_process d"
    using start_server_parts [OF assms(1)] by blast
  have inv: "process_inv s" and r: "reachable P cfg d (pc_relay s)"
    using assms(2) process_run_inv process_reachable unfolding d(2) by blast+
  have "draining (pc_acceptor s') \<and> dom (pc_peer s') \<subseteq> dom (pc_peer s)"
    if "draining (pc_acceptor s)" and "(process_step P cfg v w)\<^sup>*\<^sup>* s s'" for s'
    using that(2,1)
  proof (induction rule: rtranclp_induct)
    case (step q q')
    then show ?case using draining_stays [OF step(2)] by blast
  qed simp
  moreover have "card {i. pc_peer s i = Some ip} \<le> 64" for ip
  proof -
    have "count_list (live (pc_acceptor s)) ip \<le> MAX_CONNECTIONS_PER_IP" and "count_list (live (pc_acceptor s)) ip = slots (pc_peer s) ip"
      using inv unfolding process_inv_def acceptor_inv_def by blast+
    then show ?thesis by (simp add: slots_def MAX_CONNECTIONS_PER_IP_def)
  qed
  ultimately show ?thesis
    using inv r d(1) by (auto simp: process_inv_def acceptor_inv_def MAX_CONNECTIONS_def)
qed

text \<open>A relay started on the demonstration machine with attestation off, which then takes its first connection.\<close>

definition demo_host :: host where
  "demo_host = \<lparr>h_env_version = None, h_read = (\<lambda>_. Inl ''absent''), h_key_file = (\<lambda>_. None),
     h_fresh_key = replicate 32 CHR ''k'', h_key_written = True, h_parse_config = (\<lambda>_. Inl ''no JSON''),
     h_open_db = (\<lambda>_. Inr empty_db), h_bind = (\<lambda>_. None)\<rparr>"

definition demo_cli :: cli_config where
  "demo_cli = default_cli\<lparr>cf_no_attest := True\<rparr>"

definition demo_started :: "nat started" where
  "demo_started = \<lparr>st_attestor = \<lparr>as_instance = replicate 32 CHR ''k'', as_release = replicate 32 CHR ''d'', as_version = DEFAULT_VERSION,
       as_no_attest = True\<rparr>, st_key_file = replicate 32 CHR ''k'', st_config = default_config, st_process = fresh_process empty_db\<rparr>"

lemma demo_server_start: "start_server dev_att False demo_host demo_cli = Inr demo_started"
  by (simp add: start_server_def demo_started_def demo_host_def demo_cli_def default_cli_def resolve_release_secret_def resolve_version_def
      load_or_create_instance_key_def new_attestor_def key_from_secret_b64_def decode32_def dev_att_def demo_att_def open_db_def
      init_schema_def query_def empty_db_def)

theorem process_keeps_its_limits_witness:
  "\<exists>s. (process_step demo_prims default_config ''1'' 60)\<^sup>*\<^sup>* (st_process demo_started) s
     \<and> pc_peer s 0 = Some 7 \<and> permits (pc_acceptor s) = 4095"
proof -
  let ?s = "st_process demo_started"
  obtain a where a: "accept (pc_acceptor ?s) 7 = (True, a)"
    by (simp add: demo_started_def fresh_process_def accept_def init_acceptor_def admit_ip_def MAX_CONNECTIONS_def MAX_CONNECTIONS_PER_IP_def)
  have ok: "\<not> pc_exited ?s" "r_conns (pc_relay ?s) 0 = None" "pc_peer ?s = (\<lambda>_. None)"
    by (simp_all add: demo_started_def fresh_process_def init_relay_def)
  note run = r_into_rtranclp [of "process_step demo_prims default_config ''1'' 60", OF process_step.admit [OF ok(1,2) a, where now = 0]]
  from process_keeps_its_limits [OF demo_server_start run] run ok(3) show ?thesis by auto
qed

section \<open>What the process attests\<close>

text \<open>The relay's attestation is the one of the attestor that was started; \<open>js\<close> is its JSON form (serde_json).\<close>

definition serving :: "prims \<Rightarrow> att_prims \<Rightarrow> (attestation \<Rightarrow> json option) \<Rightarrow> attestor \<Rightarrow> prims" where
  "serving P A js a = P\<lparr>attest_json := (\<lambda>nonce now. js (attestor_build A a nonce now)), attest_version := as_version a\<rparr>"

text \<open>C10: A release server without a release key never shows a colour. Started without \<open>--release-secret\<close> and
  \<open>--release-secret-file\<close>, it runs only with attestation off; and every attestation request it then answers, on
  whichever connection and at whatever time, is answered by an attestation that every client judges red.\<close>

theorem keyless_server_shows_red:
  assumes "\<not> debug_assertions" and "cf_release_secret c = None" and "cf_release_secret_file c = None"
    and "start_server A debug_assertions H c = Inr st"
  shows "cf_no_attest c
    \<and> (\<exists>att. handle_attest (serving P A js (st_attestor st)) env i nonce r
           = reply i (case js att of Some j \<Rightarrow> AttestResponse j | None \<Rightarrow> internal_error) r
         \<and> vr_verdict (verify A N att nonce now' off) = Red)"
proof -
  obtain k where new: "new_attestor A debug_assertions (Inr k) None (resolve_version (h_env_version H) c) (cf_no_attest c) = Inr (st_attestor st)"
    using start_server_parts [OF assms(4)] assms(2,3) by (auto simp: resolve_release_secret_def)
  let ?att = "attestor_build A (st_attestor st) nonce (e_now env)"
  have "as_no_attest (st_attestor st) \<and> vr_verdict (verify A N ?att nonce now' off) = Red"
    using release_server_fails_closed [OF assms(1)] new by blast
  moreover have "as_no_attest (st_attestor st) = cf_no_attest c" using new_attestor_fields [OF new] by simp
  ultimately show ?thesis
    by (intro conjI exI [of _ ?att]) (auto simp: handle_attest_def serving_def split: option.split)
qed

theorem keyless_server_shows_red_witness:
  "\<exists>att. handle_attest (serving demo_prims dev_att (\<lambda>_. Some ''{}'') (st_attestor demo_started)) demo_env 0 ''n'' demo_relay
     = reply 0 (AttestResponse ''{}'') demo_relay \<and> vr_verdict (verify dev_att demo_nitro att ''n'' 9 demo_official) = Red"
  using keyless_server_shows_red [OF _ _ _ demo_server_start, of demo_prims "\<lambda>_. Some ''{}''" demo_env 0 "''n''" demo_relay demo_nitro 9 demo_official]
  by (simp add: demo_cli_def default_cli_def)

text \<open>A restart keeps the server's fingerprint. A server that finds the instance key file another start left
  there has the same instance key as that start, whatever else of its configuration changed, and leaves the file as it is.\<close>

theorem fingerprint_survives_restart:
  assumes "start_server A dbg H c = Inr st"
    and "start_server A dbg' H' c' = Inr st'"
    and "h_key_file H' (instance_key_path c') = Some (Inr (st_key_file st))"
    and "length (h_fresh_key H) = 32" and "ap_b64_decode A (trim (ap_b64_encode A (h_fresh_key H))) = Inr (h_fresh_key H)"
  shows "public_b64 A (as_instance (st_attestor st')) = public_b64 A (as_instance (st_attestor st))
    \<and> st_key_file st' = st_key_file st"
proof -
  have fresh: "key_from_secret_b64 A (trim (ap_b64_encode A (h_fresh_key H))) = Inr (h_fresh_key H)"
    using assms(4,5) by (simp add: key_from_secret_b64_def decode32_def)
  obtain k where k: "key_from_secret_b64 A (trim (st_key_file st)) = Inr k" "as_instance (st_attestor st) = k"
    using start_server_parts [OF assms(1)] key_file_text(1) [OF _ fresh] new_attestor_fields by metis
  obtain k' where "load_or_create_instance_key A (Some (Inr (st_key_file st))) (h_fresh_key H') (h_key_written H') = Inr (k', st_key_file st')"
    "as_instance (st_attestor st') = k'"
    using start_server_parts [OF assms(2)] new_attestor_fields unfolding assms(3) by metis
  then show ?thesis using key_file_text [where f = "Some (Inr (st_key_file st))"] k by force
qed

theorem fingerprint_survives_restart_witness:
  "\<exists>st'. start_server dev_att True (demo_host\<lparr>h_key_file := \<lambda>_. Some (Inr (st_key_file demo_started)), h_fresh_key := []\<rparr>) default_cli = Inr (st' :: nat started)
     \<and> public_b64 dev_att (as_instance (st_attestor st')) = public_b64 dev_att (replicate 32 CHR ''k'')"
proof -
  let ?H = "demo_host\<lparr>h_key_file := \<lambda>_. Some (Inr (st_key_file demo_started)), h_fresh_key := []\<rparr>"
  have k: "trim (replicate 32 CHR ''k'') = replicate 32 CHR ''k''" "replicate 32 CHR ''k'' \<noteq> DEV_RELEASE_SECRET_B64" by code_simp+
  obtain st' :: "nat started" where st': "start_server dev_att True ?H default_cli = Inr st'"
    by (simp add: start_server_def Let_def demo_host_def default_cli_def resolve_release_secret_def resolve_version_def k demo_started_def
      load_or_create_instance_key_def new_attestor_def key_from_secret_b64_def decode32_def dev_att_def demo_att_def open_db_def
      init_schema_def query_def empty_db_def)
  with fingerprint_survives_restart [OF demo_server_start st'] k show ?thesis
    by (simp add: demo_host_def demo_started_def dev_att_def demo_att_def)
qed

end
