(* ===== verification/Event_Writer.thy ===== *)
theory Event_Writer
  imports Client_Base
begin

text \<open>
  The way of an event to the user interface, backend/core/src/ipc.rs: every task emits into one unbounded channel,
  and a single writer task puts the events on stdout, one line each; \<open>quit\<close> (session.rs) waits for a marker to come
  through the channel before it ends the process.
\<close>

section \<open>The channel and the writer\<close>

text \<open>\<open>Shutdown\<close> carries a one-shot sender; here the number of the call that waits for it.\<close>

datatype out = Line event | Shutdown nat

text \<open>
  \<open>ew_out\<close> is what stdout got, \<open>ew_open\<close> says that the writer still receives. \<open>ew_waiting\<close> are the shutdown calls that wait,
  \<open>ew_returned\<close> those that have returned.
\<close>

record writer =
  ew_queue :: "out list"
  ew_out :: string
  ew_open :: bool
  ew_waiting :: "nat list"
  ew_returned :: "nat list"

definition new_writer :: writer where
  "new_writer = \<lparr>ew_queue = [], ew_out = [], ew_open = True, ew_waiting = [], ew_returned = []\<rparr>"

text \<open>\<open>Events::emit\<close>: dropped when the writer is gone.\<close>

definition emit_line :: "event \<Rightarrow> writer \<Rightarrow> writer" where
  "emit_line e w = (if ew_open w then w\<lparr>ew_queue := ew_queue w @ [Line e]\<rparr> else w)"

definition shutdown :: "nat \<Rightarrow> writer \<Rightarrow> writer" where
  "shutdown n w = (if ew_open w then w\<lparr>ew_queue := ew_queue w @ [Shutdown n], ew_waiting := ew_waiting w @ [n]\<rparr>
     else w\<lparr>ew_returned := ew_returned w @ [n]\<rparr>)"

text \<open>The writer ends and drops its receiver with what is in it: every waiting call sees its sender dropped.\<close>

definition writer_ends :: "writer \<Rightarrow> writer" where
  "writer_ends w = w\<lparr>ew_queue := [], ew_open := False, ew_waiting := [], ew_returned := ew_returned w @ ew_waiting w\<rparr>"

text \<open>One turn of the loop of \<open>writer_task\<close>: \<open>text_of\<close> is \<open>serde_json::to_string\<close>, \<open>ok\<close> whether stdout takes the line; what part of a
  refused line got out is not modelled.\<close>

definition writer_turn :: "(event \<Rightarrow> string option) \<Rightarrow> bool \<Rightarrow> writer \<Rightarrow> writer" where
  "writer_turn text_of ok w = (if \<not> ew_open w then w else case ew_queue w of
       [] \<Rightarrow> w
     | Line e # q \<Rightarrow> (case text_of e of
         None \<Rightarrow> w\<lparr>ew_queue := q\<rparr>
       | Some s \<Rightarrow> if ok then w\<lparr>ew_queue := q, ew_out := ew_out w @ s @ [CHR 0x0A]\<rparr> else writer_ends w)
     | Shutdown n # q \<Rightarrow> writer_ends (w\<lparr>ew_waiting := filter (\<lambda>m. m \<noteq> n) (ew_waiting w), ew_returned := ew_returned w @ [n]\<rparr>))"

section \<open>Runs\<close>

text \<open>What the tasks of the process do to the channel, in the order it happens.\<close>

datatype turn = Emits event | Asks nat | Writes bool

fun run_turns :: "(event \<Rightarrow> string option) \<Rightarrow> turn list \<Rightarrow> writer \<Rightarrow> writer" where
  "run_turns t [] w = w"
| "run_turns t (Emits e # xs) w = run_turns t xs (emit_line e w)"
| "run_turns t (Asks n # xs) w = run_turns t xs (shutdown n w)"
| "run_turns t (Writes ok # xs) w = run_turns t xs (writer_turn t ok w)"

lemma run_turns_append: "run_turns t (xs @ ys) w = run_turns t ys (run_turns t xs w)"
  by (induction t xs w rule: run_turns.induct) simp_all

text \<open>The text of events: a line for each that can be serialized.\<close>

definition text_lines :: "(event \<Rightarrow> string option) \<Rightarrow> event list \<Rightarrow> string" where
  "text_lines t es = concat (map (\<lambda>e. case t e of None \<Rightarrow> [] | Some s \<Rightarrow> s @ [CHR 0x0A]) es)"

fun emitted :: "turn list \<Rightarrow> event list" where
  "emitted [] = []"
| "emitted (Emits e # xs) = e # emitted xs"
| "emitted (_ # xs) = emitted xs"

text \<open>The events in the queue.\<close>

fun lines_of :: "out list \<Rightarrow> event list" where
  "lines_of [] = []"
| "lines_of (Line e # q) = e # lines_of q"
| "lines_of (Shutdown _ # q) = lines_of q"

lemma lines_of_append [simp]: "lines_of (p @ q) = lines_of p @ lines_of q"
  by (induction p rule: lines_of.induct) simp_all

lemma lines_of_map [simp]: "lines_of (map Line es) = es"
  by (induction es) simp_all

lemma text_lines_simps [simp]: "text_lines t [] = []" "text_lines t (es @ fs) = text_lines t es @ text_lines t fs"
  "text_lines t (e # es) = (case t e of None \<Rightarrow> [] | Some s \<Rightarrow> s @ [CHR 0x0A]) @ text_lines t es"
  by (simp_all add: text_lines_def)

lemma emitted_append [simp]: "emitted (xs @ ys) = emitted xs @ emitted ys"
  by (induction xs rule: emitted.induct) simp_all

section \<open>What reaches the user interface\<close>

text \<open>The events written so far are the first ones emitted; while the writer runs the others are in the queue.\<close>

definition in_order :: "(event \<Rightarrow> string option) \<Rightarrow> event list \<Rightarrow> writer \<Rightarrow> bool" where
  "in_order t es w = (\<exists>sent rest. es = sent @ rest \<and> ew_out w = text_lines t sent \<and> (ew_open w \<longrightarrow> rest = lines_of (ew_queue w)))"

lemma in_orderI: "es = sent @ rest \<Longrightarrow> ew_out w = text_lines t sent \<Longrightarrow> (ew_open w \<Longrightarrow> rest = lines_of (ew_queue w)) \<Longrightarrow> in_order t es w"
  by (auto simp: in_order_def)

lemma in_order_run: "in_order t (emitted xs) (run_turns t xs new_writer)"
proof (induction xs rule: rev_induct)
  case Nil
  show ?case by (simp add: in_order_def new_writer_def)
next
  case (snoc x xs)
  let ?w = "run_turns t xs new_writer"
  from snoc obtain sent rest where w: "emitted xs = sent @ rest" "ew_out ?w = text_lines t sent"
    "ew_open ?w \<longrightarrow> rest = lines_of (ew_queue ?w)" by (auto simp: in_order_def)
  show ?case
  proof (cases x)
    case (Emits e)
    then show ?thesis using w by (intro in_orderI [of _ sent "rest @ [e]"]) (auto simp: run_turns_append emit_line_def)
  next
    case (Asks n)
    then show ?thesis using w by (intro in_orderI [of _ sent rest]) (auto simp: run_turns_append shutdown_def)
  next
    case (Writes ok)
    show ?thesis
    proof (cases "\<exists>e q. ew_open ?w \<and> ew_queue ?w = Line e # q \<and> (t e = None \<or> ok)")
      case True
      then obtain e q where "ew_open ?w" "ew_queue ?w = Line e # q" "t e = None \<or> ok" by blast
      then show ?thesis using w Writes
        by (intro in_orderI [of _ "sent @ [e]" "lines_of q"]) (auto simp: run_turns_append writer_turn_def split: option.split)
    next
      case False
      then have "ew_out (writer_turn t ok ?w) = ew_out ?w \<and> (ew_open (writer_turn t ok ?w) \<longrightarrow> writer_turn t ok ?w = ?w)"
        by (auto simp: writer_turn_def writer_ends_def split: list.split out.split option.split)
      then show ?thesis using w Writes by (intro in_orderI [of _ sent rest]) (auto simp: run_turns_append)
    qed
  qed
qed

text \<open>A shutdown call waits for its own marker.\<close>

definition waits_for_marker :: "writer \<Rightarrow> bool" where
  "waits_for_marker w = (\<forall>n \<in> set (ew_waiting w). ew_open w \<and> Shutdown n \<in> set (ew_queue w))"

lemma writer_turn_waits: "waits_for_marker w \<Longrightarrow> waits_for_marker (writer_turn t ok w)"
  by (auto simp: waits_for_marker_def writer_turn_def writer_ends_def split: list.splits out.splits option.splits)

lemma waits_run: "waits_for_marker w \<Longrightarrow> waits_for_marker (run_turns t xs w)"
proof (induction t xs w rule: run_turns.induct)
  case (4 t ok xs w)
  then show ?case using writer_turn_waits by simp
qed (auto simp: waits_for_marker_def emit_line_def shutdown_def)

lemma writer_turn_returns:
  assumes "waits_for_marker w" and "n \<in> set (ew_waiting w) \<union> set (ew_returned w)"
  shows "n \<in> set (ew_waiting (writer_turn t ok w)) \<union> set (ew_returned (writer_turn t ok w))"
    and "ew_waiting w \<noteq> [] \<Longrightarrow> length (ew_queue (writer_turn t ok w)) < length (ew_queue w)"
proof -
  show "n \<in> set (ew_waiting (writer_turn t ok w)) \<union> set (ew_returned (writer_turn t ok w))"
    using assms by (auto simp: waits_for_marker_def writer_turn_def writer_ends_def split: list.splits out.splits option.splits)
  assume "ew_waiting w \<noteq> []"
  then have "ew_open w \<and> ew_queue w \<noteq> []" using assms(1) by (cases "ew_waiting w") (auto simp: waits_for_marker_def)
  then show "length (ew_queue (writer_turn t ok w)) < length (ew_queue w)"
    by (auto simp: writer_turn_def writer_ends_def neq_Nil_conv split: out.splits option.splits)
qed

lemma returned_stay: "n \<in> set (ew_returned w) \<Longrightarrow> n \<in> set (ew_returned (run_turns t xs w))"
  by (induction t xs w rule: run_turns.induct)
    (auto simp: emit_line_def shutdown_def writer_turn_def writer_ends_def split: list.split out.split option.split)

lemma writes_return:
  assumes "waits_for_marker w" and "n \<in> set (ew_waiting w) \<union> set (ew_returned w)" and "length (ew_queue w) \<le> length oks"
  shows "n \<in> set (ew_returned (run_turns t (map Writes oks) w))"
  using assms
proof (induction oks arbitrary: w)
  case Nil
  then show ?case by (auto simp: waits_for_marker_def)
next
  case (Cons ok oks)
  show ?case
  proof (cases "n \<in> set (ew_returned w)")
    case True
    then show ?thesis by (rule returned_stay)
  next
    case False
    then have "ew_waiting w \<noteq> []" using Cons.prems(2) by auto
    then have "length (ew_queue (writer_turn t ok w)) \<le> length oks"
      using writer_turn_returns(2) [OF Cons.prems(1,2), of t ok] Cons.prems(3) by simp
    then show ?thesis
      using Cons.IH [OF writer_turn_waits [OF Cons.prems(1)] writer_turn_returns(1) [OF Cons.prems(1,2)]] by simp
  qed
qed

lemma asked_returns:
  assumes "Asks n \<in> set xs" and "w = run_turns t xs new_writer" and "length (ew_queue w) \<le> length oks"
  shows "n \<in> set (ew_returned (run_turns t (map Writes oks) w))"
proof -
  obtain ys zs where xs: "xs = ys @ Asks n # zs" using assms(1) by (metis split_list)
  let ?v = "shutdown n (run_turns t ys new_writer)"
  have start: "waits_for_marker (run_turns t ys new_writer)" by (rule waits_run) (simp add: waits_for_marker_def new_writer_def)
  then have v: "waits_for_marker ?v" "n \<in> set (ew_waiting ?v) \<union> set (ew_returned ?v)"
    by (auto simp: waits_for_marker_def shutdown_def)
  have keep: "n \<in> set (ew_waiting (run_turns t zs u)) \<union> set (ew_returned (run_turns t zs u))"
    if "waits_for_marker u" "n \<in> set (ew_waiting u) \<union> set (ew_returned u)" for u
    using that
  proof (induction t zs u rule: run_turns.induct)
    case (4 t ok xs u)
    then show ?case using writer_turn_waits writer_turn_returns(1) by simp
  qed (auto simp: emit_line_def shutdown_def waits_for_marker_def)
  have w: "w = run_turns t zs ?v" using assms(2) xs by (simp add: run_turns_append)
  show ?thesis
    unfolding w by (rule writes_return [OF waits_run [OF v(1)] keep [OF v]]) (use assms(3) w in simp)
qed

text \<open>With a working stdout, a returned call means that all before its marker is written.\<close>

definition quitting :: "(event \<Rightarrow> string option) \<Rightarrow> nat \<Rightarrow> event list \<Rightarrow> writer \<Rightarrow> bool" where
  "quitting t n es w =
     (if ew_open w then n \<notin> set (ew_returned w) \<and> (\<exists>sent rest q. es = sent @ rest \<and> ew_out w = text_lines t sent \<and>
          ew_queue w = map Line rest @ Shutdown n # q)
      else ew_out w = text_lines t es)"

lemma quittingI: "ew_open w \<Longrightarrow> n \<notin> set (ew_returned w) \<Longrightarrow> es = sent @ rest \<Longrightarrow> ew_out w = text_lines t sent \<Longrightarrow>
    ew_queue w = map Line rest @ Shutdown n # q \<Longrightarrow> quitting t n es w"
  by (auto simp: quitting_def)

text \<open>What is queued behind the marker does not matter.\<close>

lemma quitting_append:
  assumes "quitting t n es w"
  shows "quitting t n es (emit_line e w)" and "m \<noteq> n \<Longrightarrow> quitting t n es (shutdown m w)"
proof -
  have "quitting t n es (emit_line e w) \<and> (m \<noteq> n \<longrightarrow> quitting t n es (shutdown m w))"
  proof (cases "ew_open w")
    case True
    with assms obtain sent rest q where w: "n \<notin> set (ew_returned w)" "es = sent @ rest" "ew_out w = text_lines t sent"
      "ew_queue w = map Line rest @ Shutdown n # q" by (auto simp: quitting_def)
    have "quitting t n es (emit_line e w)"
      by (rule quittingI [of _ _ _ sent rest _ "q @ [Line e]"]) (use True w in \<open>simp_all add: emit_line_def\<close>)
    moreover have "quitting t n es (shutdown m w)"
      by (rule quittingI [of _ _ _ sent rest _ "q @ [Shutdown m]"]) (use True w in \<open>simp_all add: shutdown_def\<close>)
    ultimately show ?thesis by blast
  qed (use assms in \<open>simp add: quitting_def emit_line_def shutdown_def\<close>)
  then show "quitting t n es (emit_line e w)" and "m \<noteq> n \<Longrightarrow> quitting t n es (shutdown m w)" by blast+
qed

lemma quitting_turn:
  assumes "quitting t n es w"
  shows "quitting t n es (writer_turn t True w)"
proof (cases "ew_open w")
  case True
  with assms obtain sent rest q where w: "n \<notin> set (ew_returned w)" "es = sent @ rest" "ew_out w = text_lines t sent"
    "ew_queue w = map Line rest @ Shutdown n # q" by (auto simp: quitting_def)
  show ?thesis
  proof (cases rest)
    case Nil
    then show ?thesis using True w by (simp add: quitting_def writer_turn_def writer_ends_def)
  next
    case (Cons e rest')
    let ?v = "writer_turn t True w"
    have "ew_open ?v \<and> n \<notin> set (ew_returned ?v) \<and> es = (sent @ [e]) @ rest' \<and> ew_out ?v = text_lines t (sent @ [e]) \<and>
        ew_queue ?v = map Line rest' @ Shutdown n # q"
      using True w Cons by (auto simp: writer_turn_def split: option.split)
    then show ?thesis unfolding quitting_def by (simp only: if_True) blast
  qed
qed (use assms in \<open>simp add: quitting_def writer_turn_def\<close>)

lemma quitting_run:
  "quitting t n es w \<Longrightarrow> Writes False \<notin> set xs \<Longrightarrow> Asks n \<notin> set xs \<Longrightarrow> quitting t n es (run_turns t xs w)"
proof (induction t xs w rule: run_turns.induct)
  case (4 t ok xs w)
  then show ?case using quitting_turn [of t n es w] by auto
next
  case (3 t m xs w)
  then show ?case using quitting_append(2) [of t n es w m] by auto
qed (auto intro: quitting_append(1))

lemma before_asking:
  "Writes False \<notin> set xs \<Longrightarrow> (\<And>m. Asks m \<notin> set xs) \<Longrightarrow>
    ew_open (run_turns t xs new_writer) \<and> ew_returned (run_turns t xs new_writer) = [] \<and>
    ew_queue (run_turns t xs new_writer) = map Line (lines_of (ew_queue (run_turns t xs new_writer)))"
proof (induction xs rule: rev_induct)
  case Nil
  show ?case by (simp add: new_writer_def)
next
  case (snoc x xs)
  then have IH: "ew_open (run_turns t xs new_writer)" "ew_returned (run_turns t xs new_writer) = []"
    "ew_queue (run_turns t xs new_writer) = map Line (lines_of (ew_queue (run_turns t xs new_writer)))" by auto
  show ?case
  proof (cases x)
    case (Emits e)
    then show ?thesis using IH by (simp add: run_turns_append emit_line_def)
  next
    case (Asks m)
    then show ?thesis using snoc.prems(2) [of m] by simp
  next
    case (Writes ok)
    then have "ok" using snoc.prems by (cases ok) auto
    with Writes IH show ?thesis
      by (cases "lines_of (ew_queue (run_turns t xs new_writer))")
        (auto simp: run_turns_append writer_turn_def split: option.split)
  qed
qed

text \<open>C27: Events reach the user interface in order, and \<open>quit\<close> loses none. However emitting, asking for the shutdown and
  writing interleave: stdout has the lines of the first events emitted, in their order, nothing between or
  twice. A shutdown call returns after at most as many turns of the writer as the channel has entries,
  whether or not the writes succeed. And where they do, then once it has returned, stdout has exactly the events that were
  emitted before the call.\<close>

theorem quit_loses_no_event:
  assumes "w = run_turns t xs new_writer"
  shows "(\<exists>first rest. emitted xs = first @ rest \<and> ew_out w = text_lines t first) \<and>
    (Asks n \<in> set xs \<and> length (ew_queue w) \<le> length oks \<longrightarrow> n \<in> set (ew_returned (run_turns t (map Writes oks) w))) \<and>
    (xs = ys @ Asks n # zs \<and> Writes False \<notin> set xs \<and> (\<forall>m. Asks m \<notin> set ys) \<and> Asks n \<notin> set zs \<and> n \<in> set (ew_returned w) \<longrightarrow>
      ew_out w = text_lines t (emitted ys))"
proof (intro conjI impI)
  show "\<exists>first rest. emitted xs = first @ rest \<and> ew_out w = text_lines t first"
    using in_order_run [of t xs] assms by (auto simp: in_order_def)
  assume "Asks n \<in> set xs \<and> length (ew_queue w) \<le> length oks"
  then show "n \<in> set (ew_returned (run_turns t (map Writes oks) w))" using asked_returns assms by blast
next
  assume xs: "xs = ys @ Asks n # zs \<and> Writes False \<notin> set xs \<and> (\<forall>m. Asks m \<notin> set ys) \<and> Asks n \<notin> set zs \<and> n \<in> set (ew_returned w)"
  let ?u = "run_turns t ys new_writer"
  have u: "ew_open ?u" "ew_returned ?u = []" "ew_queue ?u = map Line (lines_of (ew_queue ?u))"
    using before_asking [of ys t] xs by auto
  obtain sent where "emitted ys = sent @ lines_of (ew_queue ?u)" "ew_out ?u = text_lines t sent"
    using in_order_run [of t ys] u(1) by (auto simp: in_order_def)
  then have "quitting t n (emitted ys) (shutdown n ?u)"
    using u by (intro quittingI [of _ _ _ sent "lines_of (ew_queue ?u)" _ "[]"]) (auto simp: shutdown_def)
  then have "quitting t n (emitted ys) w"
    using quitting_run [of t n "emitted ys" "shutdown n ?u" zs] xs assms by (auto simp: run_turns_append)
  then show "ew_out w = text_lines t (emitted ys)" using xs by (auto simp: quitting_def split: if_splits)
qed

theorem quit_loses_no_event_witness:
  "ew_out (run_turns (\<lambda>e. Some ''x'') [Emits (PongEvent 1 ''a''), Asks 0, Emits (PongEvent 2 ''a''), Writes True, Writes True] new_writer) =
     ''x'' @ [CHR 0x0A] \<and>
   0 \<in> set (ew_returned (run_turns (\<lambda>e. None) (map Writes [False]) (run_turns (\<lambda>e. None) [Asks 0] new_writer)))"
proof -
  let ?t = "\<lambda>e :: event. Some ''x''"
  let ?xs = "[Emits (PongEvent 1 ''a''), Asks 0, Emits (PongEvent 2 ''a''), Writes True, Writes True]"
  have "0 \<in> set (ew_returned (run_turns ?t ?xs new_writer))"
    by (simp add: new_writer_def emit_line_def shutdown_def writer_turn_def writer_ends_def)
  then have "ew_out (run_turns ?t ?xs new_writer) = text_lines ?t [PongEvent 1 ''a'']"
    using quit_loses_no_event [of _ ?t ?xs 0 "[]" "[Emits (PongEvent 1 ''a'')]" "[Emits (PongEvent 2 ''a''), Writes True, Writes True]"]
    by simp
  moreover have "length (ew_queue (run_turns (\<lambda>e. None) [Asks 0] new_writer)) \<le> length [False]"
    by (simp add: new_writer_def shutdown_def)
  ultimately show ?thesis
    using quit_loses_no_event [OF refl, of "[Asks 0]" "\<lambda>e. None" 0 "[False]"] by (simp add: text_lines_def)
qed

end
