(* ===== verification/Secret_File.thy ===== *)
theory Secret_File
  imports Effects
begin

text \<open>
  How secrets reach the disk: \<open>write_secret_file\<close> of backend/crypto/src/lib.rs, which writes the master key, the
  relay's instance key and identity backups. A name stands for an inode, an open file is the inode itself,
  and other processes act between any two system calls, so it matters which of the two a call goes by.
\<close>

section \<open>The directory\<close>

text \<open>A regular file with its permission bits and its bytes, a symbolic link, anything else.\<close>

datatype inode = Plain nat bytes | Symlink string | Special

text \<open>
  The one directory the file is in: its own permission bits if it exists, its entries, all inodes, and an upper
  bound of their numbers. \<open>dk_steps\<close> counts the system calls and \<open>dk_log\<close> has entries and inodes before and after
  each of them.
\<close>

type_synonym view = "(string \<Rightarrow> nat option) \<times> (nat \<Rightarrow> inode option)"

record volume =
  dk_dir :: "nat option"
  dk_names :: "string \<Rightarrow> nat option"
  dk_inodes :: "nat \<Rightarrow> inode option"
  dk_next :: nat
  dk_steps :: nat
  dk_log :: "(view \<times> view) list"

text \<open>
  What the system does: \<open>sy_fails\<close> why the n-th call fails if it does, \<open>sy_partial\<close> how much a failing write wrote,
  \<open>sy_others\<close> what other processes do to entries and inodes before it.
\<close>

record system =
  sy_fails :: "nat \<Rightarrow> string option"
  sy_partial :: "nat \<Rightarrow> nat"
  sy_others :: "nat \<Rightarrow> volume \<Rightarrow> volume"

abbreviation PRIVATE :: nat where "PRIVATE \<equiv> 384"

definition view_of :: "volume \<Rightarrow> view" where
  "view_of d = (dk_names d, dk_inodes d)"

text \<open>A system call: others act, then it fails or has its effect, which is logged.\<close>

definition interfere :: "system \<Rightarrow> volume \<Rightarrow> volume" where
  "interfere Y d = (let e = sy_others Y (dk_steps d) d in e\<lparr>dk_steps := dk_steps d, dk_log := dk_log d\<rparr>)"

definition syscall :: "system \<Rightarrow> (string option \<Rightarrow> nat \<Rightarrow> (volume, 'a) act) \<Rightarrow> (volume, 'a) act" where
  "syscall Y f d =
     (let e = interfere Y d in case f (sy_fails Y (dk_steps d)) (sy_partial Y (dk_steps d)) e of
        (r, e') \<Rightarrow> (r, e'\<lparr>dk_steps := Suc (dk_steps d), dk_log := dk_log d @ [(view_of e, view_of e')]\<rparr>))"

definition unless_failed :: "string option \<Rightarrow> (volume, 'a) act \<Rightarrow> (volume, 'a) act" where
  "unless_failed fault m = (case fault of Some e \<Rightarrow> raise e | None \<Rightarrow> m)"

section \<open>The calls\<close>

text \<open>\<open>DirBuilder::recursive(true).mode(0o700)\<close>: an existing directory keeps its permissions.\<close>

definition create_parent :: "system \<Rightarrow> (volume, unit) act" where
  "create_parent Y = syscall Y (\<lambda>fault _. unless_failed fault
     (modify (\<lambda>d. case dk_dir d of None \<Rightarrow> d\<lparr>dk_dir := Some 448\<rparr> | Some _ \<Rightarrow> d)))"

definition lookup :: "string \<Rightarrow> volume \<Rightarrow> inode option" where
  "lookup name d = (case dk_names d name of None \<Rightarrow> None | Some i \<Rightarrow> dk_inodes d i)"

text \<open>\<open>symlink_metadata(path)\<close>, an error read as no entry.\<close>

definition is_symlink :: "system \<Rightarrow> string \<Rightarrow> (volume, bool) act" where
  "is_symlink Y name = syscall Y (\<lambda>fault _. if fault \<noteq> None then ret False
     else gets (\<lambda>d. case lookup name d of Some (Symlink _) \<Rightarrow> True | _ \<Rightarrow> False))"

text \<open>\<open>open\<close> with \<open>O_CREAT\<close>, \<open>O_TRUNC\<close> and \<open>O_NOFOLLOW\<close>: the mode is given to a new file only.\<close>

definition open_secret :: "system \<Rightarrow> string \<Rightarrow> (volume, nat) act" where
  "open_secret Y name = syscall Y (\<lambda>fault _. unless_failed fault (\<lambda>d.
     case dk_names d name of
       None \<Rightarrow> if dk_dir d = None then (Inl ''no such file or directory'', d)
         else (Inr (dk_next d), d\<lparr>dk_names := (dk_names d)(name \<mapsto> dk_next d),
           dk_inodes := (dk_inodes d)(dk_next d \<mapsto> Plain PRIVATE []), dk_next := Suc (dk_next d)\<rparr>)
     | Some i \<Rightarrow> (case dk_inodes d i of
         Some (Plain m _) \<Rightarrow> (Inr i, d\<lparr>dk_inodes := (dk_inodes d)(i \<mapsto> Plain m [])\<rparr>)
       | Some (Symlink _) \<Rightarrow> (Inl ''too many levels of symbolic links'', d)
       | _ \<Rightarrow> (Inl ''is a directory'', d))))"

text \<open>Calls on the open file change its inode, whatever its name stands for by now.\<close>

definition on_inode :: "nat \<Rightarrow> (inode \<Rightarrow> inode) \<Rightarrow> volume \<Rightarrow> volume" where
  "on_inode fd f d = d\<lparr>dk_inodes := (dk_inodes d)(fd := map_option f (dk_inodes d fd))\<rparr>"

definition with_bytes :: "bytes \<Rightarrow> inode \<Rightarrow> inode" where
  "with_bytes b n = (case n of Plain m _ \<Rightarrow> Plain m b | _ \<Rightarrow> n)"

definition with_mode :: "nat \<Rightarrow> inode \<Rightarrow> inode" where
  "with_mode m n = (case n of Plain _ b \<Rightarrow> Plain m b | _ \<Rightarrow> n)"

definition write_data :: "system \<Rightarrow> nat \<Rightarrow> bytes \<Rightarrow> (volume, unit) act" where
  "write_data Y fd data = syscall Y (\<lambda>fault k. case fault of
       None \<Rightarrow> modify (on_inode fd (with_bytes data))
     | Some e \<Rightarrow> andthen (modify (on_inode fd (with_bytes (take k data)))) (raise e))"

definition set_private :: "system \<Rightarrow> nat \<Rightarrow> (volume, unit) act" where
  "set_private Y fd = syscall Y (\<lambda>fault _. unless_failed fault (modify (on_inode fd (with_mode PRIVATE))))"

section \<open>The function\<close>

definition context_of :: "string \<Rightarrow> (volume, 'a) act \<Rightarrow> (volume, 'a) act" where
  "context_of what m d = (case m d of (r, d') \<Rightarrow> (map_err (\<lambda>e. what @ '': '' @ e) r, d'))"

definition write_secret_file :: "system \<Rightarrow> string option \<Rightarrow> string \<Rightarrow> bytes \<Rightarrow> (volume, unit) act" where
  "write_secret_file Y parent path data =
     andthen (case parent of None \<Rightarrow> ret () | Some p \<Rightarrow> context_of (''creating '' @ p) (create_parent Y))
     (bnd (is_symlink Y path) (\<lambda>link.
     if link then raise (''refusing to write secret to '' @ path @ '': path is a symlink (possible tampering)'')
     else
       bnd (context_of (''creating '' @ path) (open_secret Y path)) (\<lambda>f.
       andthen (write_data Y f data)
       (context_of (''enforcing 0600 on '' @ path) (set_private Y f)))))"

section \<open>Where the secret goes\<close>

text \<open>Numbers from \<open>dk_next\<close> on are free, also after others have acted.\<close>

definition tidy :: "volume \<Rightarrow> bool" where
  "tidy d = (\<forall>i \<ge> dk_next d. dk_inodes d i = None)"

definition others_tidy :: "system \<Rightarrow> bool" where
  "others_tidy Y = (\<forall>n d. tidy d \<longrightarrow> tidy (sy_others Y n d))"

definition unchanged :: "view \<times> view \<Rightarrow> bool" where
  "unchanged p = (snd (snd p) = snd (fst p))"

definition changes_only :: "nat \<Rightarrow> view \<times> view \<Rightarrow> bool" where
  "changes_only i p = (\<forall>j. j \<noteq> i \<longrightarrow> snd (snd p) j = snd (fst p) j)"

text \<open>The call opened inode \<open>i\<close>: a regular file with this very name, or a new one, private from the start.\<close>

definition opens :: "string \<Rightarrow> nat \<Rightarrow> view \<times> view \<Rightarrow> bool" where
  "opens path i p = ((\<exists>m c. fst (fst p) path = Some i \<and> snd (fst p) i = Some (Plain m c)) \<or>
     fst (fst p) path = None \<and> snd (fst p) i = None \<and> snd (snd p) i = Some (Plain PRIVATE []))"

definition private_at :: "nat \<Rightarrow> view \<times> view \<Rightarrow> bool" where
  "private_at i p = (case snd (snd p) i of Some (Plain m _) \<Rightarrow> m = PRIVATE | _ \<Rightarrow> True)"

definition new_calls :: "volume \<Rightarrow> volume \<Rightarrow> (view \<times> view) list" where
  "new_calls d d' = drop (length (dk_log d)) (dk_log d')"

lemma unchanged_only [simp]: "unchanged p \<Longrightarrow> changes_only i p"
  by (simp add: unchanged_def changes_only_def)

lemma interfere_tidy: "others_tidy Y \<Longrightarrow> tidy d \<Longrightarrow> tidy (interfere Y d)"
  by (simp add: others_tidy_def interfere_def tidy_def Let_def)

lemma context_of_eq [simp]: "context_of what m d = (r, d') \<longleftrightarrow> (\<exists>s. m d = (s, d') \<and> r = map_err (\<lambda>e. what @ '': '' @ e) s)"
  by (auto simp: context_of_def split: prod.splits)

lemma syscallD:
  assumes "syscall Y f d = (r, d')"
  obtains e' where "f (sy_fails Y (dk_steps d)) (sy_partial Y (dk_steps d)) (interfere Y d) = (r, e')"
    "dk_log d' = dk_log d @ [(view_of (interfere Y d), view_of e')]" "dk_inodes d' = dk_inodes e'"
    "dk_next d' = dk_next e'" "dk_names d' = dk_names e'" "dk_dir d' = dk_dir e'"
  using assms by (auto simp: syscall_def Let_def split: prod.splits)

text \<open>One call: what it logs, and that the numbers stay tidy.\<close>

definition calls :: "(view \<times> view \<Rightarrow> bool) \<Rightarrow> volume \<Rightarrow> volume \<Rightarrow> bool" where
  "calls Q d d' = (\<exists>p. dk_log d' = dk_log d @ [p] \<and> Q p \<and> tidy d')"

lemma create_parent_calls:
  assumes "create_parent Y d = (r, d')" and "tidy d" and "others_tidy Y"
  shows "calls unchanged d d'"
  using assms(1) interfere_tidy [OF assms(3,2)] unfolding create_parent_def
  by (elim syscallD) (auto simp: calls_def unchanged_def view_of_def tidy_def unless_failed_def modify_def raise_def
      split: option.splits)

lemma is_symlink_calls:
  assumes "is_symlink Y name d = (r, d')" and "tidy d" and "others_tidy Y"
  shows "calls unchanged d d'"
  using assms(1) interfere_tidy [OF assms(3,2)] unfolding is_symlink_def
  by (elim syscallD) (auto simp: calls_def unchanged_def view_of_def tidy_def ret_def gets_def split: if_splits)

lemma open_secret_calls:
  assumes "open_secret Y name d = (r, d')" and "tidy d" and "others_tidy Y"
  shows "case r of Inl e \<Rightarrow> calls unchanged d d' | Inr i \<Rightarrow> calls (\<lambda>p. opens name i p \<and> changes_only i p) d d'"
  using assms(1) interfere_tidy [OF assms(3,2)] unfolding open_secret_def
  by (elim syscallD) (auto simp: calls_def unchanged_def changes_only_def opens_def view_of_def tidy_def unless_failed_def
      raise_def split: option.splits if_splits inode.splits)

lemma tidy_on_inode: "tidy d \<Longrightarrow> tidy (on_inode fd f d)"
  by (auto simp: tidy_def on_inode_def)

lemma write_data_calls:
  assumes "write_data Y fd data d = (r, d')" and "tidy d" and "others_tidy Y"
  shows "calls (changes_only fd) d d'"
  using assms(1) interfere_tidy [OF assms(3,2)] unfolding write_data_def
  by (elim syscallD) (auto simp: calls_def changes_only_def view_of_def tidy_def on_inode_def act_defs split: option.splits)

lemma with_mode_Plain [simp]: "with_mode m n = Plain x b \<longleftrightarrow> (\<exists>y. n = Plain y b) \<and> x = m"
  by (cases n) (auto simp: with_mode_def)

lemma set_private_calls:
  assumes "set_private Y fd d = (r, d')" and "tidy d" and "others_tidy Y"
  shows "calls (\<lambda>p. changes_only fd p \<and> (r = Inr () \<longrightarrow> private_at fd p)) d d'"
  using assms(1) interfere_tidy [OF assms(3,2)] unfolding set_private_def
  by (elim syscallD) (auto simp: calls_def changes_only_def private_at_def view_of_def tidy_def on_inode_def
      unless_failed_def act_defs split: option.splits inode.splits)

lemma calls_then:
  assumes "calls Q d e" and "dk_log e' = dk_log e @ ps"
  shows "\<exists>p. Q p \<and> dk_log e' = dk_log d @ p # ps"
  using assms by (auto simp: calls_def)

text \<open>A run as far as the open: nothing is touched, or inode \<open>i\<close> has been opened.\<close>

lemma until_open:
  assumes "write_secret_file Y parent path data d = (r, d')" and "tidy d" and "others_tidy Y"
  shows "(\<exists>ps e. dk_log d' = dk_log d @ ps \<and> list_all unchanged ps \<and> r = Inl e) \<or>
    (\<exists>ps i d3. dk_log d3 = dk_log d @ ps \<and> ps \<noteq> [] \<and> list_all unchanged (butlast ps) \<and> opens path i (last ps) \<and> changes_only i (last ps) \<and>
      tidy d3 \<and> andthen (write_data Y i data) (context_of (''enforcing 0600 on '' @ path) (set_private Y i)) d3 = (r, d'))"
proof -
  let ?start = "case parent of None \<Rightarrow> ret () | Some p \<Rightarrow> context_of (''creating '' @ p) (create_parent Y)"
  obtain s1 d1 where start: "?start d = (s1, d1)" by fastforce
  have first: "\<exists>ps. dk_log d1 = dk_log d @ ps \<and> list_all unchanged ps \<and> tidy d1"
  proof (cases parent)
    case None
    with start assms(2) show ?thesis by (auto simp: ret_def)
  next
    case (Some p)
    with start obtain s where "create_parent Y d = (s, d1)" by auto
    from create_parent_calls [OF this assms(2,3)] show ?thesis by (auto simp: calls_def)
  qed
  then obtain ps1 where ps1: "dk_log d1 = dk_log d @ ps1" "list_all unchanged ps1" "tidy d1" by blast
  show ?thesis
  proof (cases s1)
    case (Inl e)
    with assms(1) start ps1 show ?thesis by (auto simp: write_secret_file_def andthen_def bnd_def)
  next
    case (Inr u)
    obtain s2 d2 where look: "is_symlink Y path d1 = (s2, d2)" by fastforce
    from is_symlink_calls [OF look ps1(3) assms(3)] obtain p2 where
      p2: "dk_log d2 = dk_log d1 @ [p2]" "unchanged p2" "tidy d2" by (auto simp: calls_def)
    obtain b where b: "s2 = Inr b"
      using look by (auto simp: is_symlink_def syscall_def Let_def ret_def gets_def split: prod.splits if_splits)
    obtain s3 d3 where op: "open_secret Y path d2 = (s3, d3)" by fastforce
    note opened = open_secret_calls [OF op p2(3) assms(3)]
    show ?thesis
    proof (cases b)
      case True
      then have "d' = d2 \<and> (\<exists>e. r = Inl e)"
        using assms(1) start Inr look b by (auto simp: write_secret_file_def andthen_def bnd_def raise_def)
      then show ?thesis using ps1 p2 by (intro disjI1 exI [of _ "ps1 @ [p2]"]) auto
    next
      case no_link: False
      show ?thesis
      proof (cases s3)
        case (Inl e)
        then have "d' = d3 \<and> (\<exists>e. r = Inl e)"
          using assms(1) start Inr look b op no_link
          by (auto simp: write_secret_file_def andthen_def bnd_def context_of_def map_err_def)
        moreover obtain p3 where "dk_log d3 = dk_log d2 @ [p3]" "unchanged p3" using opened Inl by (auto simp: calls_def)
        ultimately show ?thesis using ps1 p2 by (intro disjI1 exI [of _ "ps1 @ [p2, p3]"]) auto
      next
      case i: (Inr i)
      note i = i no_link
      from opened i(1) obtain p3 where p3: "dk_log d3 = dk_log d2 @ [p3]" "opens path i p3" "changes_only i p3" "tidy d3"
        by (auto simp: calls_def)
      have "andthen (write_data Y i data) (context_of (''enforcing 0600 on '' @ path) (set_private Y i)) d3 = (r, d')"
        using assms(1) start Inr look b op i by (simp add: write_secret_file_def andthen_def bnd_def map_err_def context_of_def)
      moreover have "dk_log d3 = dk_log d @ (ps1 @ [p2, p3])" using ps1 p2 p3 by simp
      ultimately show ?thesis using ps1(2) p2(2) p3
        by (intro disjI2 exI [of _ "ps1 @ [p2, p3]"] exI [of _ i] exI [of _ d3]) (simp add: butlast_append)
      qed
    qed
  qed
qed

text \<open>C16: A secret is written to one file only. Whatever other processes do to the directory and its files
  between the system calls, and whichever calls fail: either no file is changed and an error is
  returned, or all changes of the function are to one inode, which it opened as the regular file with exactly
  that name (never through a symbolic link) or created private, and when it returns without an error
  that inode is private.\<close>

theorem secret_stays_in_its_file:
  assumes "write_secret_file Y parent path data d = (r, d')" and "tidy d" and "others_tidy Y" and "ps = new_calls d d'"
  shows "(list_all unchanged ps \<and> r \<noteq> Inr ()) \<or>
    (\<exists>i. list_all (changes_only i) ps \<and> list_ex (opens path i) ps \<and> (r = Inr () \<longrightarrow> private_at i (last ps)))"
  using until_open [OF assms(1-3)]
proof (elim disjE exE conjE)
  fix qs e assume "dk_log d' = dk_log d @ qs" "list_all unchanged qs" "r = Inl e"
  then show ?thesis by (simp add: assms(4) new_calls_def)
next
  fix qs i d3
  assume qs: "dk_log d3 = dk_log d @ qs" "qs \<noteq> []" "list_all unchanged (butlast qs)" "opens path i (last qs)" "changes_only i (last qs)"
    and d3: "tidy d3" and rest: "andthen (write_data Y i data) (context_of (''enforcing 0600 on '' @ path) (set_private Y i)) d3 = (r, d')"
  obtain s4 d4 where wr: "write_data Y i data d3 = (s4, d4)" by fastforce
  from write_data_calls [OF wr d3 assms(3)] obtain p4 where
    p4: "dk_log d4 = dk_log d3 @ [p4]" "changes_only i p4" "tidy d4" by (auto simp: calls_def)
  have "list_all (changes_only i) (butlast qs @ [last qs])" using qs(3,5) by (auto simp: list_all_iff)
  then have front: "list_all (changes_only i) qs" "list_ex (opens path i) qs"
    using qs(2,4) by (auto simp: list_ex_iff append_butlast_last_id)
  show ?thesis
  proof (cases s4)
    case (Inl e)
    then have "r = Inl e \<and> d' = d4" using rest wr by (simp add: andthen_def bnd_def)
    then show ?thesis using qs(1) p4 front by (intro disjI2 exI [of _ i]) (simp add: assms(4) new_calls_def)
  next
    case (Inr u)
    obtain s5 d5 where ch: "set_private Y i d4 = (s5, d5)" by fastforce
    from set_private_calls [OF ch p4(3) assms(3)] obtain p5 where
      p5: "dk_log d5 = dk_log d4 @ [p5]" "changes_only i p5" "s5 = Inr () \<longrightarrow> private_at i p5" by (auto simp: calls_def)
    have "r = map_err (\<lambda>e. (''enforcing 0600 on '' @ path) @ '': '' @ e) s5 \<and> d' = d5"
      using rest wr Inr ch by (simp add: andthen_def bnd_def context_of_def)
    then show ?thesis using qs(1) p4 p5 front by (intro disjI2 exI [of _ i]) (auto simp: assms(4) new_calls_def)
  qed
qed

section \<open>What a reader may see\<close>

text \<open>Nobody interferes and nothing fails.\<close>

definition quiet :: system where
  "quiet = \<lparr>sy_fails = (\<lambda>_. None), sy_partial = (\<lambda>_. 0), sy_others = (\<lambda>_ d. d)\<rparr>"

lemma syscall_quiet: "syscall quiet f d = (case f None 0 d of (r, e) \<Rightarrow>
    (r, e\<lparr>dk_steps := Suc (dk_steps d), dk_log := dk_log d @ [(view_of d, view_of e)]\<rparr>))"
  by (simp add: syscall_def quiet_def interfere_def Let_def)

lemma parent_quiet:
  assumes "dk_dir d \<noteq> None \<or> parent \<noteq> None"
  shows "\<exists>m ps. (case parent of None \<Rightarrow> ret () | Some p \<Rightarrow> context_of (''creating '' @ p) (create_parent quiet)) d =
    (Inr (), d\<lparr>dk_dir := Some m, dk_steps := dk_steps d + length ps, dk_log := dk_log d @ ps\<rparr>) \<and> list_all unchanged ps \<and>
    list_all (\<lambda>p. snd p = view_of d) ps"
proof (cases parent)
  case None
  with assms show ?thesis by (cases d) (auto simp: ret_def intro!: exI [of _ "[]"])
next
  case (Some p)
  then show ?thesis
    by (cases d; cases "dk_dir d")
      (auto simp: create_parent_def syscall_quiet unless_failed_def modify_def context_of_def map_err_def unchanged_def view_of_def
        intro!: exI [of _ "[(view_of d, view_of d)]"])
qed

text \<open>C36: The permissions a secret file has, with nobody interfering. A new file is private in every state and ends
  with the data; a symbolic link is refused and all files stay as they are; an existing file ends private with
  the data, but the data is written before the mode is changed: after the write there is a state in which
  the file has the data and still its old permissions.\<close>

theorem secret_file_modes:
  assumes "write_secret_file quiet parent path data d = (r, d')" and "tidy d" and "ps = new_calls d d'"
    and "dk_dir d \<noteq> None \<or> parent \<noteq> None"
  shows "(dk_names d path = None \<longrightarrow> r = Inr () \<and> lookup path d' = Some (Plain PRIVATE data) \<and>
      (\<exists>i. dk_names d' path = Some i \<and> list_all (private_at i) ps)) \<and>
    (lookup path d = Some (Symlink target) \<longrightarrow> r \<noteq> Inr () \<and> view_of d' = view_of d) \<and>
    (dk_names d path = Some i \<and> dk_inodes d i = Some (Plain m c) \<longrightarrow> r = Inr () \<and> lookup path d' = Some (Plain PRIVATE data) \<and>
      (\<exists>p \<in> set ps. snd (snd p) i = Some (Plain m data)))"
proof -
  obtain m0 qs where start: "(case parent of None \<Rightarrow> ret () | Some p \<Rightarrow> context_of (''creating '' @ p) (create_parent quiet)) d =
      (Inr (), d\<lparr>dk_dir := Some m0, dk_steps := dk_steps d + length qs, dk_log := dk_log d @ qs\<rparr>)" (is "_ = (_, ?e)")
    and qs: "list_all unchanged qs" "list_all (\<lambda>p. snd p = view_of d) qs"
    using parent_quiet [OF assms(4)] by blast
  have run: "(bnd (is_symlink quiet path) (\<lambda>link.
     if link then raise (''refusing to write secret to '' @ path @ '': path is a symlink (possible tampering)'')
     else bnd (context_of (''creating '' @ path) (open_secret quiet path)) (\<lambda>f.
       andthen (write_data quiet f data) (context_of (''enforcing 0600 on '' @ path) (set_private quiet f))))) ?e = (r, d')"
    using assms(1) start by (simp add: write_secret_file_def andthen_def bnd_def)
  note calls = is_symlink_def syscall_quiet lookup_def open_secret_def unless_failed_def write_data_def set_private_def on_inode_def
    with_bytes_def with_mode_def context_of_def map_err_def act_defs view_of_def new_calls_def
  have early: "list_all (private_at i) qs" if "dk_inodes d i = None" for i
    using that qs(2) by (auto simp: list_all_iff private_at_def view_of_def)
  show ?thesis
  proof (intro conjI impI)
    assume none: "dk_names d path = None"
    have "dk_inodes d (dk_next d) = None" using assms(2) by (simp add: tidy_def)
    then show "r = Inr ()" "lookup path d' = Some (Plain PRIVATE data)" "\<exists>i. dk_names d' path = Some i \<and> list_all (private_at i) ps"
      using run none early by (auto simp: assms(3) calls private_at_def)
  next
    assume "lookup path d = Some (Symlink target)"
    then show "r \<noteq> Inr ()" "view_of d' = view_of d" using run by (auto simp: calls split: option.splits)
  next
    assume "dk_names d path = Some i \<and> dk_inodes d i = Some (Plain m c)"
    then show "r = Inr ()" "lookup path d' = Some (Plain PRIVATE data)" "\<exists>p \<in> set ps. snd (snd p) i = Some (Plain m data)"
      using run by (auto simp: assms(3) calls)
  qed
qed

section \<open>A directory for examples\<close>

text \<open>A key that everybody may read, and a link to it.\<close>

definition demo_disk :: volume where
  "demo_disk = \<lparr>dk_dir = Some 448, dk_names = [''old.key'' \<mapsto> 0, ''link.key'' \<mapsto> 1],
     dk_inodes = [0 \<mapsto> Plain 420 ''K'', 1 \<mapsto> Symlink ''old.key''], dk_next = 2, dk_steps = 0, dk_log = []\<rparr>"

text \<open>Before the open, the file is replaced by a link.\<close>

definition hostile :: system where
  "hostile = \<lparr>sy_fails = (\<lambda>_. None), sy_partial = (\<lambda>_. 0),
     sy_others = (\<lambda>n d. if n = 1 then d\<lparr>dk_names := (dk_names d)(''new.key'' \<mapsto> 1)\<rparr> else d)\<rparr>"

lemma demo_disk_tidy: "tidy demo_disk"
  by (simp add: tidy_def demo_disk_def)

lemma hostile_tidy: "others_tidy hostile"
  by (simp add: others_tidy_def hostile_def tidy_def)

theorem secret_stays_in_its_file_witness:
  "fst (write_secret_file hostile None ''new.key'' ''S'' demo_disk) \<noteq> Inr () \<and>
   list_all unchanged (new_calls demo_disk (snd (write_secret_file hostile None ''new.key'' ''S'' demo_disk)))"
proof -
  obtain r d' where run: "write_secret_file hostile None ''new.key'' ''S'' demo_disk = (r, d')" by fastforce
  have "r = Inl ''creating new.key: too many levels of symbolic links'' \<and> \<not> list_ex (opens ''new.key'' i) (new_calls demo_disk d')" for i
    using run
    by (auto simp: write_secret_file_def hostile_def demo_disk_def is_symlink_def syscall_def interfere_def lookup_def
        open_secret_def unless_failed_def context_of_def map_err_def act_defs Let_def new_calls_def opens_def view_of_def)
  with secret_stays_in_its_file [OF run demo_disk_tidy hostile_tidy refl] show ?thesis by (auto simp: run)
qed

theorem secret_file_modes_witness:
  "fst (write_secret_file quiet None ''link.key'' ''S'' demo_disk) \<noteq> Inr () \<and>
   lookup ''new.key'' (snd (write_secret_file quiet None ''new.key'' ''S'' demo_disk)) = Some (Plain PRIVATE ''S'') \<and>
   (\<exists>p \<in> set (new_calls demo_disk (snd (write_secret_file quiet None ''old.key'' ''S'' demo_disk))). snd (snd p) 0 = Some (Plain 420 ''S''))"
proof -
  have dir: "dk_dir demo_disk \<noteq> None \<or> (None :: string option) \<noteq> None" by (simp add: demo_disk_def)
  have names: "dk_names demo_disk ''new.key'' = None" "lookup ''link.key'' demo_disk = Some (Symlink ''old.key'')"
    "dk_names demo_disk ''old.key'' = Some 0 \<and> dk_inodes demo_disk 0 = Some (Plain 420 ''K'')"
    by (simp_all add: demo_disk_def lookup_def)
  note facts = secret_file_modes [OF _ demo_disk_tidy refl dir]
  show ?thesis
    using facts [OF prod.collapse [symmetric], of "''new.key''" "''S''"] facts [OF prod.collapse [symmetric], of "''link.key''" "''S''" "''old.key''"]
      facts [OF prod.collapse [symmetric], of "''old.key''" "''S''" _ 0 420 "''K''"] names
    by blast
qed

end
