(* ===== verification/Core_Start.thy ===== *)
theory Core_Start
  imports App_Facts Secret_File
begin

text \<open>
  The client's core from its start to its end (backend/core/src/main.rs \<open>main\<close> and session.rs \<open>run\<close>): the home
  directory, the master key in it, the stored server index, and the loop over the lines the user interface writes.
  The directory is the one of \<open>Secret_File\<close>, so other processes act between the calls here too.
\<close>

section \<open>The home directory\<close>

text \<open>The permission bits as \<open>metadata\<close> gives them, an error read as nothing; \<open>set_permissions\<close>, whose error is ignored.\<close>

definition dir_mode :: "system \<Rightarrow> (volume, nat option) act" where
  "dir_mode Y = syscall Y (\<lambda>fault _. if fault \<noteq> None then ret None else gets dk_dir)"

definition tighten :: "system \<Rightarrow> (volume, unit) act" where
  "tighten Y = syscall Y (\<lambda>fault _. if fault \<noteq> None then ret () else modify (\<lambda>d. d\<lparr>dk_dir := map_option (\<lambda>_. 448) (dk_dir d)\<rparr>))"

text \<open>\<open>mode & 0o077\<close>: the last two octal digits.\<close>

definition prepare_home :: "system \<Rightarrow> (volume, unit) act" where
  "prepare_home Y = andthen (create_parent Y) (bnd (dir_mode Y) (\<lambda>m. case m of
       Some mode \<Rightarrow> if mode mod 64 \<noteq> 0 then tighten Y else ret ()
     | None \<Rightarrow> ret ()))"

section \<open>The master key\<close>

text \<open>\<open>exists\<close> and \<open>read\<close> go through symbolic links, of which the system follows forty.\<close>

fun follow :: "nat \<Rightarrow> volume \<Rightarrow> string \<Rightarrow> inode option" where
  "follow 0 d name = None"
| "follow (Suc n) d name = (case lookup name d of Some (Symlink target) \<Rightarrow> follow n d target | found \<Rightarrow> found)"

definition path_exists :: "system \<Rightarrow> string \<Rightarrow> (volume, bool) act" where
  "path_exists Y path = syscall Y (\<lambda>fault _. if fault \<noteq> None then ret False else gets (\<lambda>d. follow 41 d path \<noteq> None))"

definition read_file :: "system \<Rightarrow> string \<Rightarrow> (volume, bytes) act" where
  "read_file Y path = syscall Y (\<lambda>fault _. unless_failed fault (\<lambda>d. case follow 41 d path of
       Some (Plain _ b) \<Rightarrow> (Inr b, d)
     | Some _ \<Rightarrow> (Inl ''is a directory'', d)
     | None \<Rightarrow> (Inl ''no such file or directory'', d)))"

definition load_or_create_master :: "system \<Rightarrow> string \<Rightarrow> bytes \<Rightarrow> (volume, bytes) act" where
  "load_or_create_master Y home fresh = (let path = path_join home ''master.key'' in
     bnd (path_exists Y path) (\<lambda>there.
     if there then bnd (read_file Y path) (\<lambda>b.
       if length b = 32 then ret b else raise ''master.key has an unexpected size (expected 32 bytes)'')
     else andthen (write_secret_file Y (Some home) path fresh) (ret fresh)))"

text \<open>The home directory and the key in it, as \<open>main\<close> gets them one after the other.\<close>

definition open_home :: "system \<Rightarrow> string \<Rightarrow> bytes \<Rightarrow> (volume, bytes) act" where
  "open_home Y home fresh = andthen (prepare_home Y) (load_or_create_master Y home fresh)"

section \<open>Start and input\<close>

text \<open>The stored index: \<open>text\<close> is what reading the file gave, if it is there and can be read.\<close>

definition read_index :: "(string \<Rightarrow> server_index option) \<Rightarrow> string option \<Rightarrow> server_index" where
  "read_index parse text = (case Option.bind text parse of Some i \<Rightarrow> i | None \<Rightarrow> [])"

text \<open>\<open>main\<close> up to the loop; \<open>user_home\<close> is the user's home directory, if it can be told.\<close>

definition core_main :: "'k app_env \<Rightarrow> system \<Rightarrow> string option \<Rightarrow> bytes \<Rightarrow> (string \<Rightarrow> server_index option) \<Rightarrow> string option \<Rightarrow>
    (string \<times> vault) list \<Rightarrow> (string \<times> identity_file) list \<Rightarrow> files \<Rightarrow> (volume, app) act" where
  "core_main E Y user_home fresh parse stored vaults backups plugins = (case user_home of
       None \<Rightarrow> raise ''could not determine home directory''
     | Some h \<Rightarrow> bnd (open_home Y (path_join h ''.cherm'') fresh) (\<lambda>master.
         ret (snd (start_running E (startup master (read_index parse stored) vaults backups plugins)))))"

text \<open>A line of input, parsed by serde_json: the command \<open>quit\<close> is the one that does not come back.\<close>

datatype request = Run command | Quit

datatype ending = AtEnd | Quitted | Unreadable

text \<open>\<open>run\<close>: \<open>None\<close> is a line that cannot be read, which ends the loop with its error.\<close>

fun run_loop :: "'k app_env \<Rightarrow> (string \<Rightarrow> string + request) \<Rightarrow> string option list \<Rightarrow> app \<Rightarrow> ending \<times> app" where
  "run_loop E parse [] a = (AtEnd, a)"
| "run_loop E parse (None # xs) a = (Unreadable, a)"
| "run_loop E parse (Some raw # xs) a =
     (let line = trim raw in
      if line = [] then run_loop E parse xs a
      else case parse line of
        Inl e \<Rightarrow> run_loop E parse xs (snd (report ''bad_request'' (''invalid command: '' @ e) a))
      | Inr (Run cmd) \<Rightarrow> run_loop E parse xs (snd (handle_line E cmd a))
      | Inr Quit \<Rightarrow> (Quitted, snd (prune_dead_links a)))"

lemma run_loop_reachable:
  "app_reachable E a \<Longrightarrow> fst (run_loop E parse xs a) \<noteq> Quitted \<Longrightarrow> app_reachable E (snd (run_loop E parse xs a))"
  by (induction E parse xs a rule: run_loop.induct)
    (auto simp: Let_def intro: app_reachable.intros split: sum.splits request.splits if_splits)

lemma core_main_reachable:
  "core_main E Y user_home fresh parse stored vaults backups plugins d = (Inr a, d') \<Longrightarrow> app_reachable E a"
  by (auto simp: core_main_def andthen_def bnd_def ret_def raise_def intro: app_reachable.Start split: option.splits sum.splits prod.splits)

text \<open>What comes after \<open>quit\<close> or after an unreadable line is never looked at.\<close>

lemma run_loop_append:
  "run_loop E parse (xs @ ys) a = (case run_loop E parse xs a of
     (AtEnd, b) \<Rightarrow> run_loop E parse ys b | (e, b) \<Rightarrow> (e, b))"
  by (induction E parse xs a rule: run_loop.induct) (auto simp: Let_def split: sum.split request.split)

section \<open>The key stays\<close>

text \<open>With nobody interfering and no call failing, what a preparation leaves.\<close>

lemma prepare_home_quiet:
  assumes "prepare_home quiet d = (r, e)"
  shows "r = Inr ()" and "\<exists>m. dk_dir e = Some m \<and> m mod 64 = 0"
    and "dk_names e = dk_names d" and "dk_inodes e = dk_inodes d"
  using assms
  by (auto simp: prepare_home_def create_parent_def dir_mode_def tighten_def syscall_quiet unless_failed_def act_defs
      split: option.splits if_splits)

lemma follow_same: "dk_names d = dk_names e \<Longrightarrow> dk_inodes d = dk_inodes e \<Longrightarrow> follow n d name = follow n e name"
  by (induction n d name rule: follow.induct) (auto simp: lookup_def split: option.split inode.split)

lemma follow_41: "follow 41 d name = (case lookup name d of Some (Symlink target) \<Rightarrow> follow 40 d target | found \<Rightarrow> found)"
  using follow.simps(2) [of 40] by simp

text \<open>The key file is there when it can be read, also behind links.\<close>

definition holds_key :: "string \<Rightarrow> bytes \<Rightarrow> volume \<Rightarrow> bool" where
  "holds_key path k d = (\<exists>m. follow 41 d path = Some (Plain m k))"

lemma holds_key_same: "dk_names d = dk_names e \<Longrightarrow> dk_inodes d = dk_inodes e \<Longrightarrow> holds_key path k d = holds_key path k e"
  using follow_same [of d e] by (simp add: holds_key_def)

lemma load_there:
  assumes "follow 41 d (path_join home ''master.key'') = Some n"
  shows "fst (load_or_create_master quiet home fresh d) = Inr k \<longleftrightarrow> holds_key (path_join home ''master.key'') k d \<and> length k = 32"
    and "load_or_create_master quiet home fresh d = (r, d') \<Longrightarrow> dk_names d' = dk_names d \<and> dk_inodes d' = dk_inodes d \<and> dk_dir d' = dk_dir d"
  using assms follow_same [of "d\<lparr>dk_steps := i, dk_log := l\<rparr>" d for i l]
  by (auto simp: load_or_create_master_def path_exists_def read_file_def syscall_quiet unless_failed_def act_defs holds_key_def Let_def
      split: inode.splits if_splits)

lemma load_new:
  assumes "follow 41 d (path_join home ''master.key'') = None" and "dk_dir d = Some m"
    and "load_or_create_master quiet home fresh d = (Inr k, d')"
  shows "k = fresh \<and> lookup (path_join home ''master.key'') d' = Some (Plain PRIVATE k) \<and> dk_dir d' = Some m"
  using assms
  by (auto simp: load_or_create_master_def path_exists_def Let_def write_secret_file_def create_parent_def is_symlink_def syscall_quiet
      lookup_def open_secret_def unless_failed_def write_data_def set_private_def on_inode_def with_bytes_def with_mode_def context_of_def
      map_err_def act_defs split: option.splits inode.splits)

lemma load_fresh:
  "dk_names d (path_join home ''master.key'') = None \<Longrightarrow> dk_dir d = Some m \<Longrightarrow> fst (load_or_create_master quiet home fresh d) = Inr fresh"
  by (simp add: load_or_create_master_def path_exists_def Let_def write_secret_file_def create_parent_def is_symlink_def syscall_quiet
      lookup_def open_secret_def unless_failed_def write_data_def set_private_def on_inode_def with_bytes_def with_mode_def context_of_def
      map_err_def act_defs follow_41)

lemma load_keeps:
  assumes "load_or_create_master quiet home fresh d = (Inr k, d')" and "dk_dir d = Some m" and "length fresh = 32"
  shows "length k = 32 \<and> holds_key (path_join home ''master.key'') k d' \<and> dk_dir d' = Some m"
proof (cases "follow 41 d (path_join home ''master.key'')")
  case None
  have "follow 41 d' (path_join home ''master.key'') = Some (Plain PRIVATE k)"
    using load_new [OF None assms(2,1)] by (simp add: follow_41)
  then show ?thesis using load_new [OF None assms(2,1)] assms(3) by (auto simp: holds_key_def)
next
  case (Some n)
  have same: "dk_names d' = dk_names d" "dk_inodes d' = dk_inodes d" "dk_dir d' = dk_dir d"
    using load_there(2) [OF Some assms(1)] by blast+
  then have "holds_key (path_join home ''master.key'') k d' = holds_key (path_join home ''master.key'') k d"
    by (intro holds_key_same)
  then show ?thesis using load_there(1) [OF Some, of fresh k] assms(1,2) same(3) by simp
qed

text \<open>C22: The master key stays and stays private. When the core could open its home directory, with nobody interfering,
  the key has 32 bytes and nobody but its owner can enter the directory, whatever permissions it had before. A new key
  is in a file that only its owner may read; one that was there is used as it is. Whenever the core starts
  again over that directory it gets the same key, so every vault it has sealed can be opened.\<close>

theorem master_key_survives_restart:
  assumes "open_home quiet home fresh d = (Inr k, d')" and "length fresh = 32"
  shows "length k = 32 \<and> (\<exists>m. dk_dir d' = Some m \<and> m mod 64 = 0)
    \<and> (follow 41 d (path_join home ''master.key'') = None \<longrightarrow> k = fresh \<and> lookup (path_join home ''master.key'') d' = Some (Plain PRIVATE k))
    \<and> (follow 41 d (path_join home ''master.key'') = Some (Plain p b) \<longrightarrow> k = b \<and> dk_inodes d' = dk_inodes d)
    \<and> fst (open_home quiet home fresh' d') = Inr k"
proof -
  let ?path = "path_join home ''master.key''"
  obtain r e where prep: "prepare_home quiet d = (r, e)" by fastforce
  note e = prepare_home_quiet [OF prep]
  obtain m where m: "dk_dir e = Some m" "m mod 64 = 0" using e(2) by (elim exE conjE)
  have load: "load_or_create_master quiet home fresh e = (Inr k, d')"
    using assms(1) unfolding open_home_def andthen_def bnd_def prep e(1) by simp
  note kept = load_keeps [OF load m(1) assms(2)]
  have follow_e: "follow 41 e ?path = follow 41 d ?path" by (rule follow_same) (simp_all add: e)
  obtain r' e' where again: "prepare_home quiet d' = (r', e')" by fastforce
  note e' = prepare_home_quiet [OF again]
  have "holds_key ?path k e'" using kept e'(3,4) holds_key_same [of e' d'] by simp
  moreover from this obtain q where "follow 41 e' ?path = Some (Plain q k)" by (auto simp: holds_key_def)
  ultimately have "fst (load_or_create_master quiet home fresh' e') = Inr k" using load_there(1) kept by blast
  then have "fst (open_home quiet home fresh' d') = Inr k" using again e'(1) by (simp add: open_home_def andthen_def bnd_def)
  moreover have "follow 41 d ?path = None \<longrightarrow> k = fresh \<and> lookup ?path d' = Some (Plain PRIVATE k)"
    using load_new [OF _ m(1) load] follow_e by simp
  moreover have "k = b \<and> dk_inodes d' = dk_inodes d" if "follow 41 d ?path = Some (Plain p b)"
  proof -
    have there: "follow 41 e ?path = Some (Plain p b)" using that follow_e by simp
    have "holds_key ?path k e" using load_there(1) [OF there, of fresh k] load by simp
    then have "b = k" unfolding holds_key_def there by blast
    moreover have "dk_inodes d' = dk_inodes e" using load_there(2) [OF there load] by blast
    ultimately show ?thesis using e(4) by simp
  qed
  moreover have "\<exists>m. dk_dir d' = Some m \<and> m mod 64 = 0" using kept m by (intro exI [of _ m] conjI) simp_all
  moreover have "length k = 32" using kept ..
  ultimately show ?thesis by simp
qed

theorem master_key_survives_restart_witness:
  "\<exists>d'. open_home quiet ''/h'' (replicate 32 CHR ''k'') (demo_disk\<lparr>dk_dir := Some 509\<rparr>) = (Inr (replicate 32 CHR ''k''), d')
     \<and> fst (open_home quiet ''/h'' (replicate 32 CHR ''n'') d') = Inr (replicate 32 CHR ''k'')"
proof -
  let ?d = "demo_disk\<lparr>dk_dir := Some 509\<rparr>"
  obtain r e where prep: "prepare_home quiet ?d = (r, e)" by fastforce
  note e = prepare_home_quiet [OF prep]
  from e(2) obtain m where m: "dk_dir e = Some m" by blast
  have "dk_names e (path_join ''/h'' ''master.key'') = None" by (simp add: e(3) demo_disk_def path_join_def)
  from load_fresh [OF this m, of "replicate 32 CHR ''k''"]
  obtain d' where "load_or_create_master quiet ''/h'' (replicate 32 CHR ''k'') e = (Inr (replicate 32 CHR ''k''), d')"
    by (metis prod.collapse)
  then have d': "open_home quiet ''/h'' (replicate 32 CHR ''k'') ?d = (Inr (replicate 32 CHR ''k''), d')"
    by (simp add: open_home_def andthen_def bnd_def prep e(1))
  with master_key_survives_restart [OF d', where fresh' = "replicate 32 CHR ''n''"] show ?thesis by auto
qed

end
