(* ===== verification/Spec2Isabelle.thy ===== *)
theory Spec2Isabelle
  imports End_To_End Session_Moderation Identity_Facts Server_Start Event_Writer Core_Start
begin

text \<open>
  \<^bold>\<open>cherm: relay, client and plugins.\<close> cherm is an end-to-end encrypted messenger. Its Rust backend has a
  relay (src/backend/server), the client's core (src/backend/core), which a terminal program drives by
  commands and events in JSON, and three crates both rest on (proto, crypto, attest). This
  development models what that code computes, decides and stores.

  \<^bold>\<open>Common ground.\<close>
  \<^item> \<open>Prelude\<close>: strings as lists of UTF-8 bytes, white space, decimal numbers with the bounds of \<open>i64\<close>, results as sums.
  \<^item> \<open>Interfaces\<close>: contracts of stores as locales: handing out items once, a capped queue, a pinned entry, a
    high-water mark. Each is interpreted on the model's operations, in \<open>Server_Db\<close> and \<open>Vault\<close>.
  \<^item> \<open>Effects\<close>: actions on a state that may fail, and the rules that push a relation on states through them.

  \<^bold>\<open>The relay.\<close>
  \<^item> \<open>Proto\<close> (proto/src/lib.rs): limits, names, the messages \<open>ClientMsg\<close> and \<open>ServerMsg\<close>, framing. A frame that was
    written is read back, whatever follows it on the stream, and a reader takes no more than the largest frame.
  \<^item> \<open>Server_Db\<close> (server/src/db.rs): the tables users, prekeys and outbox, one definition per helper. A prekey is handed
    out once, a name is bound to its keys for good, the queue obeys its caps up to the unit in which SQLite counts.
  \<^item> \<open>Server_Limits\<close> (conn.rs, main.rs): token bucket, the gate on fetches of one target, connections per address.
  \<^item> \<open>Server_Conn\<close> (conn.rs, config.rs): each arm of \<open>handle\<close>, the bounded channel with its writer, the flush of the
    outbox in phases. \<open>Server_Relay\<close> composes them to a transition system with any number of connections and proves
    its invariants (who can be logged in, what a recipient can get, what the storage holds);
    \<open>Server_Delivery\<close> proves what a \<open>Send\<close> and a flush deliver, \<open>Server_Rest\<close> that without input the relay
    comes to rest.
  \<^item> \<open>Server_Main\<close> (main.rs, attest.rs): command line, release secret, attestation replies, maintenance notice, pruner.
    \<open>Server_Start\<close> composes them with the relay: the start in the order of \<open>main\<close>, and the process with its accept
    loop, connection tasks and exit as a transition system whose relay part is that of \<open>Server_Relay\<close>.
  \<^item> \<open>Attest\<close>, \<open>Nitro\<close> (attest/src): the attestation a relay makes, the verdict a client reaches, the pinned
    trust set, and the verifier of Nitro quotes: each accepted document meets all the checks.

  \<^bold>\<open>The client.\<close>
  \<^item> \<open>Crypto_Util\<close> (crypto/src/lib.rs): group keys, fingerprints, derived keys, sealed blobs. \<open>Secret_File\<close>: how a
    secret is written to disk, call by call, with other processes acting in between.
  \<^item> \<open>Vault\<close> (core/src/vault.rs): the tables of one server's vault and each operation on them: pinned identities,
    the replay guard, chats and messages, groups with bans, suspensions and join requests.
  \<^item> \<open>Client_Base\<close>, \<open>Net\<close> (core/src/net.rs): from a frame of the relay to the vault and the events; group key
    distribution; join decisions. \<open>Net_Rules\<close> states the vault operations as laws of locales and concludes
    relations between vaults for all of it; \<open>Net_Facts\<close>, \<open>Net_Joins\<close> and \<open>Net_Trust\<close> interpret them and prove what
    frames of others can and cannot do. \<open>Net_Link\<close> is the connection (reader, pending request, queue) as a
    transition system.
  \<^item> \<open>Session_Util\<close>, \<open>Session\<close> (core/src/session.rs): addresses, durations, the server index; each chat command. \<open>Session_Facts\<close>
    has the invariants for any interleaving of commands and frames. \<open>Session_Sends\<close> says message by message what a
    command writes to the relay: who gets a share of a group key and what is in it, and the one message that announces
    a group event. On that rests \<open>Session_Moderation\<close>: the rotation of the key, and the refinement, in which the owner's
    command, the message it sends and a member's handling of that message are one step of an abstract access state.
  \<^item> \<open>Client_Attest\<close> (core/src/attest_client.rs): the probe behind the badge of a server.
  \<^item> \<open>Plugin_Format\<close>, \<open>Plugins\<close> (core/src/plugins.rs, update.rs): permissions, versions, text for the terminal; the store
    commands on a tree of files. \<open>Plugin_Facts\<close>: what a store that is not trusted can reach.
  \<^item> \<open>App\<close> (session.rs, main.rs): servers, login and registration, backup, start, and the dispatch of all commands.
    \<open>Core_Start\<close> (main.rs, \<open>run\<close>): home directory, master key, stored index, input loop; the key is the same at every start.
    \<open>Event_Writer\<close> (ipc.rs): the channel of events and the task that writes them. \<open>App_Facts\<close>: run-time state and
    index fit in all reachable states, and commands stay within the vaults they concern; \<open>Identity_Facts\<close>: a
    backed up identity is restored by an import.

  \<^bold>\<open>Both together.\<close> \<open>End_To_End\<close> follows a direct and a group message from the sender's command through the relay to
  the recipient's reader, vault and screen.

  \<^bold>\<open>How the code is read.\<close> A Rust struct is a record, an enum a datatype, and each function or handler a definition with
  the code's checks in their order. \<open>Err\<close> is \<open>Inl\<close>; an action that fails keeps the effects made before, as \<open>?\<close>
  does. Times and counts that fit are \<open>int\<close> and \<open>nat\<close>; where an \<open>i64\<close> or \<open>u32\<close> can leave its range the bound
  is written out. SQLite tables are lists of rows or association lists with their constraints. Sources of
  randomness, clocks, the answers of other parties and the success of disk writes are functions of a counter that
  each use advances, so the theorems hold for all of them. Dashes and dots outside ASCII in messages to the
  user are written as hyphens. A handled frame and a command each are one step, except for the flush of the outbox
  and for the reader of the client's connection, whose interleavings are modelled; commands and frame handlers of
  the client do not interleave within each other. Files that could not be written stay as they were, and a
  directory is removed as a whole or not at all.

  \<^bold>\<open>Simplifications.\<close> Four places are coarser than the code. The fan-out of a \<open>Send\<close> is one step, while conn.rs takes its
  locks anew for each recipient. The relay's writer task takes an entry from the channel and writes it in one step
  (\<open>writer_step\<close>). The deletes of \<open>delete_chat\<close>, SQL statements of their own, succeed or fail together. The token
  buckets count in rational numbers, the code in \<open>f64\<close> (\<open>allow\<close>).

  \<^bold>\<open>Loops.\<close> Every loop of the code is a structural recursion (over a list of rows, recipients, chunks), with these
  exceptions: splitting a string into characters and trimming white space, with their measures, and the minting of a group key, which
  the code itself stops after 64 tries, so the model's counter is the code's. Path parts are taken off at the end, which shortens
  the path; symbolic links are followed as often as the system does, up to forty times. Loops over events of the outside
  (the accept loop, the reader, the writer tasks) are steps of transition systems, so no bound is chosen for them.

  \<^bold>\<open>Parameters.\<close> Third-party code is an argument, in records: \<open>vodozemac\<close> for the ratchets (operations on pickles),
  \<open>sealer\<close> and the hash functions of \<open>world\<close> for BLAKE3 and the AEAD, \<open>att_prims\<close> and \<open>nitro_prims\<close> for Ed25519, base64,
  COSE, X.509 and P-384, \<open>codec\<close> and the \<open>pe_\<close> functions for JSON, \<open>plugin_env\<close> for HTTP and SHA-256. What a theorem
  needs of them (a round trip of the sealer, of JSON) is a hypothesis of it, and its witness has an instance.

  \<^bold>\<open>Not modelled.\<close> The cryptography inside those libraries; sockets, TLS and the tasks that only move bytes
  (keep-alive, the client's socket writer, read deadlines of the relay: a connection may end at any time in the model); logging;
  the umask and the permissions of directories above the one a secret is in; Windows; the HTTP clients'
  time-outs; the terminal program in Go, the web site and the deployment scripts, which hold no logic of the backend.
\<close>

end
